(* ===== verification/Prelude.thy ===== *)
theory Prelude
  imports Main "HOL-Library.Word" "HOL-Library.Char_ord" "HOL-Library.List_Lexorder"
    "HOL-Library.AList"
begin

text \<open>
  The vocabulary the component theories share: the machine types of the Rust
  sources, the error values their \<open>Result\<close>s carry, little-endian integers,
  hexadecimal text, Rust's ordered containers (\<open>BTreeMap\<close>, \<open>BTreeSet\<close>) as
  sorted lists, and the generic lemmas on them.

  A Rust \<open>String\<close> is a \<open>string\<close>: HOL characters are bytes, so the list is the
  UTF-8 encoding and its length is \<open>str::len\<close>.  A \<open>Vec<u8>\<close> is a \<open>byte list\<close>.
  \<open>DateTime<Utc>\<close> is an integer number of nanoseconds.
\<close>

section \<open>Types\<close>

type_synonym byte = "8 word"
type_synonym u64 = "64 word"
type_synonym timestamp = int
type_synonym path = "string list"

text \<open>
  Every \<open>anyhow!\<close>, \<open>?\<close> and panic of the modelled code is a value of this type.
  \<open>Bail\<close> carries the message and the numbers it is formatted with; \<open>IoError\<close> is a
  failed operating system call; \<open>Panic\<close> is a Rust panic (a slice or \<open>expect\<close>
  failure), kept apart from the errors a caller can handle.
\<close>

datatype err = Panic | IoError | Bail string "nat list"

text \<open>A \<open>Result<T>\<close>: \<open>Inl\<close> the error, \<open>Inr\<close> the value.\<close>

type_synonym 'a result = "err + 'a"

fun is_ok :: "'a result \<Rightarrow> bool" where
  "is_ok (Inr _) = True"
| "is_ok (Inl _) = False"

lemma is_ok_iff: "is_ok r \<longleftrightarrow> (\<exists>x. r = Inr x)"
  by (cases r) auto

named_theorems world_simps "what each operating system call leaves on disk"
named_theorems handler_defs "definitions of the handlers, for symbolic evaluation"

section \<open>Strings as bytes\<close>

definition as_bytes :: "string \<Rightarrow> byte list" where
  "as_bytes s = map (\<lambda>c. of_nat (of_char c)) s"

lemma length_as_bytes [simp]: "length (as_bytes s) = length s"
  by (simp add: as_bytes_def)

lemma of_char_less: "(of_char c :: nat) < 256"
  by (rule nat_of_char_less_256)

lemma as_bytes_append [simp]: "as_bytes (s @ t) = as_bytes s @ as_bytes t"
  by (simp add: as_bytes_def)

lemma unat_of_char: "unat (of_nat (of_char c) :: byte) = of_char c"
  using of_char_less [of c] by (simp add: unat_of_nat)

lemma as_bytes_inject: "as_bytes s = as_bytes t \<longleftrightarrow> s = t"
proof
  assume "as_bytes s = as_bytes t"
  then have "map (\<lambda>b. unat b) (as_bytes s) = map (\<lambda>b. unat b) (as_bytes t)"
    by simp
  then have "map (of_char :: char \<Rightarrow> nat) s = map of_char t"
    by (simp add: as_bytes_def comp_def unat_of_char)
  then show "s = t"
    by (rule map_injective) (simp add: inj_def of_char_eq_iff)
qed simp

text \<open>
  \<open>str::is_char_boundary\<close>: slicing a \<open>str\<close> at a byte that continues a UTF-8
  sequence panics.
\<close>

definition is_continuation :: "char \<Rightarrow> bool" where
  "is_continuation c \<longleftrightarrow> 128 \<le> (of_char c :: nat) \<and> (of_char c :: nat) < 192"

definition is_char_boundary :: "string \<Rightarrow> nat \<Rightarrow> bool" where
  "is_char_boundary s i \<longleftrightarrow>
     i = 0 \<or> i = length s \<or> (i < length s \<and> \<not> is_continuation (s ! i))"

text \<open>\<open>&s[i..j]\<close>\<close>

definition str_slice :: "string \<Rightarrow> nat \<Rightarrow> nat \<Rightarrow> string result" where
  "str_slice s i j =
     (if i \<le> j \<and> is_char_boundary s i \<and> is_char_boundary s j
      then Inr (take (j - i) (drop i s)) else Inl Panic)"

section \<open>Little-endian integers\<close>

fun nat_to_le :: "nat \<Rightarrow> nat \<Rightarrow> byte list" where
  "nat_to_le 0 x = []"
| "nat_to_le (Suc n) x = of_nat (x mod 256) # nat_to_le n (x div 256)"

fun le_to_nat :: "byte list \<Rightarrow> nat" where
  "le_to_nat [] = 0"
| "le_to_nat (b # bs) = unat b + 256 * le_to_nat bs"

text \<open>\<open>u64::to_le_bytes\<close> and \<open>u64::from_le_bytes\<close>\<close>

definition to_le_bytes :: "u64 \<Rightarrow> byte list" where
  "to_le_bytes w = nat_to_le 8 (unat w)"

definition from_le_bytes :: "byte list \<Rightarrow> u64" where
  "from_le_bytes bs = of_nat (le_to_nat bs)"

lemma length_nat_to_le [simp]: "length (nat_to_le n x) = n"
  by (induction n arbitrary: x) auto

lemma le_to_nat_nat_to_le: "le_to_nat (nat_to_le n x) = x mod 256 ^ n"
proof (induction n arbitrary: x)
  case 0
  then show ?case by simp
next
  case (Suc n)
  have "unat (of_nat (x mod 256) :: byte) = x mod 256"
    by (simp add: unat_of_nat)
  then show ?case
    by (simp add: Suc.IH mod_mult2_eq)
qed

lemma length_to_le_bytes [simp]: "length (to_le_bytes w) = 8"
  by (simp add: to_le_bytes_def)

lemma from_to_le_bytes [simp]: "from_le_bytes (to_le_bytes w) = w"
proof -
  have "unat w < 2 ^ LENGTH(64)"
    by (rule unsigned_less)
  then show ?thesis
    by (simp add: from_le_bytes_def to_le_bytes_def le_to_nat_nat_to_le)
qed

lemma to_le_bytes_inject: "to_le_bytes v = to_le_bytes w \<longleftrightarrow> v = w"
  by (metis from_to_le_bytes)

section \<open>Decimal numbers\<close>

text \<open>\<open>format!("{}", n)\<close>\<close>

fun show_nat :: "nat \<Rightarrow> string" where
  "show_nat n = (if n < 10 then [char_of (48 + n)] else show_nat (n div 10) @ [char_of (48 + n mod 10)])"

declare show_nat.simps [simp del]

definition digits_value :: "string \<Rightarrow> nat" where
  "digits_value s = foldl (\<lambda>a c. 10 * a + (of_char c - 48)) 0 s"

lemma digits_value_show_nat [simp]: "digits_value (show_nat n) = n"
proof (induction n rule: show_nat.induct)
  case (1 n)
  show ?case
  proof (cases "n < 10")
    case True
    then show ?thesis by (simp add: show_nat.simps [of n] digits_value_def)
  next
    case False
    with 1 show ?thesis by (simp add: show_nat.simps [of n] digits_value_def)
  qed
qed

lemma show_nat_inject [simp]: "show_nat m = show_nat n \<longleftrightarrow> m = n"
  by (metis digits_value_show_nat)

lemma show_nat_digits: "c \<in> set (show_nat n) \<Longrightarrow> 48 \<le> (of_char c :: nat) \<and> (of_char c :: nat) \<le> 57"
proof (induction n rule: show_nat.induct)
  case (1 n)
  then show ?case by (cases "n < 10") (auto simp: show_nat.simps [of n])
qed

lemma show_nat_nonempty [simp]: "show_nat n \<noteq> []"
  by (simp add: show_nat.simps [of n])

section \<open>Sorted association lists: \<open>BTreeMap\<close>\<close>

text \<open>
  A \<open>BTreeMap<K, V>\<close> is the list of its entries in key order, the order its
  iterators use.  \<open>PartialEq\<close> on it is equality of these lists.
\<close>

type_synonym ('k, 'v) btree_map = "('k \<times> 'v) list"

definition btree_ok :: "('k::linorder, 'v) btree_map \<Rightarrow> bool" where
  "btree_ok m \<longleftrightarrow> sorted_wrt (<) (map fst m)"

abbreviation btree_get :: "('k, 'v) btree_map \<Rightarrow> 'k \<Rightarrow> 'v option" where
  "btree_get \<equiv> map_of"

fun btree_insert :: "'k::linorder \<Rightarrow> 'v \<Rightarrow> ('k, 'v) btree_map \<Rightarrow> ('k, 'v) btree_map" where
  "btree_insert k v [] = [(k, v)]"
| "btree_insert k v ((a, b) # m) =
     (if k < a then (k, v) # (a, b) # m
      else if k = a then (k, v) # m
      else (a, b) # btree_insert k v m)"

lemma btree_get_insert [simp]:
  "btree_get (btree_insert k v m) = (btree_get m)(k \<mapsto> v)"
  by (induction k v m rule: btree_insert.induct) auto

lemma keys_btree_insert: "fst ` set (btree_insert k v m) = insert k (fst ` set m)"
  by (induction k v m rule: btree_insert.induct) auto

lemma btree_ok_Nil [simp, intro]: "btree_ok []"
  by (simp add: btree_ok_def)

lemma btree_ok_Cons:
  "btree_ok ((k, v) # m) \<longleftrightarrow> (\<forall>a \<in> fst ` set m. k < a) \<and> btree_ok m"
  by (auto simp: btree_ok_def)

lemma btree_ok_insert [simp, intro]: "btree_ok m \<Longrightarrow> btree_ok (btree_insert k v m)"
proof (induction k v m rule: btree_insert.induct)
  case (1 k v)
  then show ?case by (simp add: btree_ok_def)
next
  case (2 k v a b m)
  then show ?case by (auto simp: btree_ok_Cons keys_btree_insert)
qed

lemma btree_ok_distinct: "btree_ok m \<Longrightarrow> distinct (map fst m)"
  by (simp add: btree_ok_def strict_sorted_iff)

lemma btree_ok_ext: "btree_ok m \<Longrightarrow> btree_ok n \<Longrightarrow> btree_get m = btree_get n \<Longrightarrow> m = n"
proof -
  assume ok: "btree_ok m" "btree_ok n" and eq: "btree_get m = btree_get n"
  from eq have s: "set m = set n"
    by (metis ok btree_ok_distinct map_of_inject_set)
  then have "set (map fst m) = set (map fst n)"
    by simp
  with ok have k: "map fst m = map fst n"
    by (metis btree_ok_def strict_sorted_equal)
  have v: "map snd l = map (\<lambda>k. the (btree_get l k)) (map fst l)"
    if "btree_ok l" for l :: "('a, 'b) btree_map"
    using that by (auto simp: btree_ok_distinct map_of_eq_Some_iff intro!: nth_equalityI)
  from k eq have "map snd m = map snd n"
    using ok by (simp add: v)
  with k show "m = n"
    by (metis zip_map_fst_snd)
qed

section \<open>Sorted lists: \<open>BTreeSet\<close>\<close>

text \<open>
  A \<open>BTreeSet<T>\<close> is the sorted list of its elements; \<open>insert\<close> is the library's
  \<open>insort_insert\<close>.
\<close>

definition bset_ok :: "'a::linorder list \<Rightarrow> bool" where
  "bset_ok xs \<longleftrightarrow> sorted xs \<and> distinct xs"

definition bset_insert :: "'a::linorder \<Rightarrow> 'a list \<Rightarrow> 'a list" where
  "bset_insert x xs = insort_insert x xs"

definition bset_difference :: "'a list \<Rightarrow> 'a list \<Rightarrow> 'a list" where
  "bset_difference xs ys = filter (\<lambda>x. x \<notin> set ys) xs"

lemma set_bset_insert [simp]: "set (bset_insert x xs) = insert x (set xs)"
  by (simp add: bset_insert_def set_insort_insert)

lemma bset_ok_Nil [simp, intro]: "bset_ok []"
  by (simp add: bset_ok_def)

lemma bset_ok_insert [simp, intro]: "bset_ok xs \<Longrightarrow> bset_ok (bset_insert x xs)"
  by (simp add: bset_ok_def bset_insert_def distinct_insort_insert sorted_insort_insert)

lemma bset_ok_ext: "bset_ok xs \<Longrightarrow> bset_ok ys \<Longrightarrow> set xs = set ys \<Longrightarrow> xs = ys"
  by (simp add: bset_ok_def sorted_distinct_set_unique)

section \<open>Generic list lemmas\<close>

text \<open>\<open>sort\<close> followed by \<open>dedup\<close>\<close>

lemma distinct_dedup_sorted: "sorted xs \<Longrightarrow> distinct (remdups_adj xs)"
  by (induction xs rule: remdups_adj.induct) auto

lemma dedup_sort: "remdups_adj (sort xs) = sorted_list_of_set (set xs)"
  by (intro sorted_distinct_set_unique) (simp_all add: distinct_dedup_sorted)

lemma in_set_drop_nth: "x \<in> set (drop n xs) \<longleftrightarrow> (\<exists>i. n \<le> i \<and> i < length xs \<and> x = xs ! i)"
proof
  assume "x \<in> set (drop n xs)"
  then obtain k where "k < length xs - n" "x = drop n xs ! k" by (auto simp: in_set_conv_nth)
  then show "\<exists>i. n \<le> i \<and> i < length xs \<and> x = xs ! i" by (intro exI [of _ "n + k"]) auto
next
  assume "\<exists>i. n \<le> i \<and> i < length xs \<and> x = xs ! i"
  then obtain i where "n \<le> i" "i < length xs" "x = drop n xs ! (i - n)" by auto
  then show "x \<in> set (drop n xs)" by (simp only: in_set_conv_nth) (intro exI [of _ "i - n"], simp)
qed

lemma nth_in_set_drop: "n \<le> i \<Longrightarrow> i < length xs \<Longrightarrow> xs ! i \<in> set (drop n xs)"
  unfolding in_set_drop_nth by blast

lemma take_drop_append_eq: "length a = n \<Longrightarrow> take n (a @ b) = a \<and> drop n (a @ b) = b"
  by simp

lemma find_map_Some:
  "List.find P xs = Some x \<Longrightarrow> x \<in> set xs \<and> P x"
  by (induction xs) (auto split: if_splits)

lemma find_None_iff_all: "List.find P xs = None \<longleftrightarrow> (\<forall>x \<in> set xs. \<not> P x)"
  by (induction xs) auto

section \<open>Invariants of a step relation\<close>

locale step_invariant =
  fixes step :: "'s \<Rightarrow> 's \<Rightarrow> bool" and good :: "'s \<Rightarrow> bool"
  assumes step_good: "step s t \<Longrightarrow> good s \<Longrightarrow> good t"
begin

lemma run_good: "step\<^sup>*\<^sup>* s t \<Longrightarrow> good s \<Longrightarrow> good t"
  by (induction rule: rtranclp_induct) (auto intro: step_good)

end

end
