(* ===== verification/World.thy ===== *)
theory World
  imports Prelude
begin

text \<open>
  The operating system the daemon runs on, as far as the sources call it: a file
  system, the random number generator \<open>OsRng\<close> and the wall clock \<open>Utc::now()\<close>.

  A file system is an association list from absolute paths (lists of components)
  to nodes; the order of the list is the arbitrary order in which \<open>read_dir\<close>
  reports entries.  Every call that can fail consults the fault schedule
  \<open>w_fault\<close> at its own position \<open>w_tick\<close> in the run, so a theorem that
  quantifies over worlds covers every pattern of failing calls.  A failing
  \<open>fs::write\<close> may leave the file untouched (\<open>Some 0\<close>) or truncated to a prefix of
  the new contents (\<open>Some (Suc k)\<close>).

  Not modelled: symbolic links in the middle of a path, permission checks on
  read, and other processes changing the tree during a call.
\<close>

section \<open>State and monad\<close>

datatype node = NFile nat "byte list" | NDir | NOther

record world =
  w_nodes :: "(path \<times> node) list"
  w_tick :: nat
  w_fault :: "nat \<Rightarrow> nat option"
  w_newmode :: nat
  w_rng :: "nat \<Rightarrow> byte"
  w_rpos :: nat
  w_now :: "nat \<Rightarrow> timestamp"
  w_npos :: nat

type_synonym 'a io = "world \<Rightarrow> 'a result \<times> world"

definition io_return :: "'a \<Rightarrow> 'a io" where
  "io_return x w = (Inr x, w)"

definition io_fail :: "err \<Rightarrow> 'a io" where
  "io_fail e w = (Inl e, w)"

text \<open>Sequencing with Rust's \<open>?\<close>: the first error ends the computation.\<close>

definition io_bind :: "'a io \<Rightarrow> ('a \<Rightarrow> 'b io) \<Rightarrow> 'b io" where
  "io_bind m f w = (case m w of (Inl e, w') \<Rightarrow> (Inl e, w') | (Inr x, w') \<Rightarrow> f x w')"

definition io_lift :: "'a result \<Rightarrow> 'a io" where
  "io_lift r w = (r, w)"

lemma io_bind_Inr [simp]: "m w = (Inr x, w') \<Longrightarrow> io_bind m f w = f x w'"
  by (simp add: io_bind_def)

lemma io_bind_Inl [simp]: "m w = (Inl e, w') \<Longrightarrow> io_bind m f w = (Inl e, w')"
  by (simp add: io_bind_def)

lemma io_bind_eq_Inr:
  "io_bind m f w = (Inr y, w'') \<longleftrightarrow> (\<exists>x w'. m w = (Inr x, w') \<and> f x w' = (Inr y, w''))"
  by (auto simp: io_bind_def split: prod.splits sum.splits)

lemma io_bind_cases:
  assumes "io_bind m f w = (r, w'')"
  obtains (err) e where "m w = (Inl e, w'')" "r = Inl e"
  | (ok) x w' where "m w = (Inr x, w')" "f x w' = (r, w'')"
  using assms by (cases "m w"; cases "fst (m w)") (auto simp: io_bind_def)

lemma io_bind_assoc: "io_bind (io_bind m f) g = io_bind m (\<lambda>x. io_bind (f x) g)"
  by (auto simp: io_bind_def fun_eq_iff split: prod.splits sum.splits)

lemma io_return_eq [simp]: "io_return x w = (Inr x, w)"
  by (simp add: io_return_def)

lemma io_fail_eq [simp]: "io_fail e w = (Inl e, w)"
  by (simp add: io_fail_def)

lemma io_lift_eq [simp]: "io_lift r w = (r, w)"
  by (simp add: io_lift_def)

text \<open>
  Handlers that also change the state a task owns: the state survives an error, as the
  fields behind \<open>&mut\<close> do.
\<close>

type_synonym ('s, 'a) task_io = "'s \<Rightarrow> world \<Rightarrow> ('a result \<times> 's) \<times> world"

definition t_return :: "'a \<Rightarrow> ('s, 'a) task_io" where
  "t_return x s w = ((Inr x, s), w)"

definition t_fail :: "err \<Rightarrow> ('s, 'a) task_io" where
  "t_fail e s w = ((Inl e, s), w)"

definition t_bind :: "('s, 'a) task_io \<Rightarrow> ('a \<Rightarrow> ('s, 'b) task_io) \<Rightarrow> ('s, 'b) task_io" where
  "t_bind m f s w = (case m s w of
     ((Inl e, s'), w') \<Rightarrow> ((Inl e, s'), w') | ((Inr x, s'), w') \<Rightarrow> f x s' w')"

definition t_io :: "('s \<Rightarrow> 'a io) \<Rightarrow> ('s, 'a) task_io" where
  "t_io m s w = (case m s w of (r, w') \<Rightarrow> ((r, s), w'))"

definition t_state :: "('s \<Rightarrow> 'a result \<times> 's) \<Rightarrow> ('s, 'a) task_io" where
  "t_state f s w = (f s, w)"

lemma t_bind_eq_Inr:
  "t_bind m f s w = ((Inr y, s''), w'') \<longleftrightarrow>
     (\<exists>x s' w'. m s w = ((Inr x, s'), w') \<and> f x s' w' = ((Inr y, s''), w''))"
  by (auto simp: t_bind_def split: prod.splits sum.splits)

lemma t_bind_cases:
  assumes "t_bind m f s w = ((r, s''), w'')"
  obtains (err) e where "m s w = ((Inl e, s''), w'')" "r = Inl e"
  | (ok) x s' w' where "m s w = ((Inr x, s'), w')" "f x s' w' = ((r, s''), w'')"
  using assms by (cases "m s w"; cases "fst (fst (m s w))") (auto simp: t_bind_def)

lemma t_simps [simp]:
  "t_return x s w = ((Inr x, s), w)" "t_fail e s w = ((Inl e, s), w)"
  "t_io m s w = ((r, s'), w') \<longleftrightarrow> m s w = (r, w') \<and> s' = s"
  "t_state f s w = ((r, s'), w') \<longleftrightarrow> f s = (r, s') \<and> w' = w"
  by (auto simp: t_return_def t_fail_def t_io_def t_state_def split: prod.splits)

section \<open>File system\<close>

definition fs_at :: "world \<Rightarrow> path \<Rightarrow> node option" where
  "fs_at w p = map_of (w_nodes w) p"

text \<open>The contents of the regular files: the view most properties are about.\<close>

definition fs_file :: "world \<Rightarrow> path \<Rightarrow> byte list option" where
  "fs_file w p = (case fs_at w p of Some (NFile _ bs) \<Rightarrow> Some bs | _ \<Rightarrow> None)"

definition fs_mode :: "world \<Rightarrow> path \<Rightarrow> nat option" where
  "fs_mode w p = (case fs_at w p of Some (NFile m _) \<Rightarrow> Some m | _ \<Rightarrow> None)"

definition fs_is_dir :: "world \<Rightarrow> path \<Rightarrow> bool" where
  "fs_is_dir w p \<longleftrightarrow> p = [] \<or> fs_at w p = Some NDir"

definition fs_exists :: "world \<Rightarrow> path \<Rightarrow> bool" where
  "fs_exists w p \<longleftrightarrow> p = [] \<or> fs_at w p \<noteq> None"

definition set_node :: "path \<Rightarrow> node \<Rightarrow> world \<Rightarrow> world" where
  "set_node p n w = w\<lparr>w_nodes := AList.update p n (w_nodes w)\<rparr>"

definition del_node :: "path \<Rightarrow> world \<Rightarrow> world" where
  "del_node p w = w\<lparr>w_nodes := AList.delete p (w_nodes w)\<rparr>"

text \<open>Run one operating system call with its entry of the fault schedule.\<close>

definition syscall :: "(nat option \<Rightarrow> 'a io) \<Rightarrow> 'a io" where
  "syscall f w = f (w_fault w (w_tick w)) (w\<lparr>w_tick := Suc (w_tick w)\<rparr>)"

definition fs_read :: "path \<Rightarrow> byte list io" where
  "fs_read p = syscall (\<lambda>flt w.
     if flt \<noteq> None then (Inl IoError, w)
     else case fs_file w p of None \<Rightarrow> (Inl IoError, w) | Some bs \<Rightarrow> (Inr bs, w))"

text \<open>A new file gets the process's default mode; an existing one keeps its own.\<close>

definition put_file :: "path \<Rightarrow> byte list \<Rightarrow> world \<Rightarrow> world" where
  "put_file p bs w =
     set_node p (NFile (case fs_mode w p of Some m \<Rightarrow> m | None \<Rightarrow> w_newmode w) bs) w"

definition fs_write :: "path \<Rightarrow> byte list \<Rightarrow> unit io" where
  "fs_write p bs = syscall (\<lambda>flt w.
     if p = [] \<or> \<not> fs_is_dir w (butlast p) \<or> fs_at w p = Some NDir then (Inl IoError, w)
     else case flt of
       None \<Rightarrow> (Inr (), put_file p bs w)
     | Some 0 \<Rightarrow> (Inl IoError, w)
     | Some (Suc k) \<Rightarrow> (Inl IoError, put_file p (take k bs) w))"

text \<open>\<open>fs::rename\<close> of a regular file: atomic, replacing a file at the target.\<close>

definition fs_rename :: "path \<Rightarrow> path \<Rightarrow> unit io" where
  "fs_rename a b = syscall (\<lambda>flt w.
     if flt \<noteq> None then (Inl IoError, w)
     else case fs_at w a of
       Some (NFile m bs) \<Rightarrow>
         (if b = [] \<or> \<not> fs_is_dir w (butlast b) \<or> fs_at w b = Some NDir then (Inl IoError, w)
          else (Inr (), set_node b (NFile m bs) (del_node a w)))
     | _ \<Rightarrow> (Inl IoError, w))"

definition fs_chmod :: "path \<Rightarrow> nat \<Rightarrow> unit io" where
  "fs_chmod p m = syscall (\<lambda>flt w.
     if flt \<noteq> None then (Inl IoError, w)
     else case fs_at w p of
       Some (NFile _ bs) \<Rightarrow> (Inr (), set_node p (NFile m bs) w)
     | Some _ \<Rightarrow> (Inr (), w)
     | None \<Rightarrow> (Inl IoError, w))"

text \<open>\<open>0o600\<close>: readable and writable by the owner only.\<close>

definition mode_0600 :: nat where
  "mode_0600 = 6 * 8 * 8"

definition fs_remove_file :: "path \<Rightarrow> unit io" where
  "fs_remove_file p = syscall (\<lambda>flt w.
     if flt \<noteq> None \<or> fs_at w p = None \<or> fs_is_dir w p then (Inl IoError, w)
     else (Inr (), del_node p w))"

fun mk_dirs :: "path \<Rightarrow> path \<Rightarrow> unit io" where
  "mk_dirs q [] w = (Inr (), w)"
| "mk_dirs q (x # xs) w =
     (case fs_at w (q @ [x]) of
        None \<Rightarrow> mk_dirs (q @ [x]) xs (set_node (q @ [x]) NDir w)
      | Some NDir \<Rightarrow> mk_dirs (q @ [x]) xs w
      | Some _ \<Rightarrow> (Inl IoError, w))"

definition fs_create_dir_all :: "path \<Rightarrow> unit io" where
  "fs_create_dir_all p = syscall (\<lambda>flt w.
     if flt \<noteq> None then (Inl IoError, w) else mk_dirs [] p w)"

text \<open>The names in a directory, in the order the file system reports them.\<close>

definition dir_entries :: "world \<Rightarrow> path \<Rightarrow> string list" where
  "dir_entries w p = [last q. (q, n) \<leftarrow> w_nodes w, q \<noteq> [] \<and> butlast q = p]"

definition fs_read_dir :: "path \<Rightarrow> string list io" where
  "fs_read_dir p = syscall (\<lambda>flt w.
     if flt \<noteq> None \<or> \<not> fs_is_dir w p then (Inl IoError, w) else (Inr (dir_entries w p), w))"

text \<open>\<open>DirEntry::file_type\<close>\<close>

datatype file_type = FtDir | FtFile | FtOther

definition fs_file_type :: "path \<Rightarrow> file_type io" where
  "fs_file_type p = syscall (\<lambda>flt w.
     if flt \<noteq> None then (Inl IoError, w)
     else case fs_at w p of
       None \<Rightarrow> (Inl IoError, w)
     | Some NDir \<Rightarrow> (Inr FtDir, w)
     | Some (NFile _ _) \<Rightarrow> (Inr FtFile, w)
     | Some NOther \<Rightarrow> (Inr FtOther, w))"

text \<open>\<open>OpenOptions\<close> with \<open>create(true)\<close> and no truncation.\<close>

definition fs_open_create :: "path \<Rightarrow> unit io" where
  "fs_open_create p = syscall (\<lambda>flt w.
     if flt \<noteq> None \<or> p = [] \<or> \<not> fs_is_dir w (butlast p) \<or> fs_at w p = Some NDir then (Inl IoError, w)
     else case fs_at w p of
       None \<Rightarrow> (Inr (), put_file p [] w)
     | Some _ \<Rightarrow> (Inr (), w))"

definition fs_remove_dir_all :: "path \<Rightarrow> unit io" where
  "fs_remove_dir_all p = syscall (\<lambda>flt w.
     if flt \<noteq> None \<or> \<not> fs_is_dir w p then (Inl IoError, w)
     else (Inr (), w\<lparr>w_nodes := filter (\<lambda>(q, n). take (length p) q \<noteq> p) (w_nodes w)\<rparr>))"

text \<open>\<open>OsRng.fill_bytes\<close> on an array of \<open>n\<close> bytes, and \<open>Utc::now()\<close>.\<close>

definition fill_bytes :: "nat \<Rightarrow> byte list io" where
  "fill_bytes n w =
     (Inr (map (w_rng w) [w_rpos w ..< w_rpos w + n]), w\<lparr>w_rpos := w_rpos w + n\<rparr>)"

definition utc_now :: "timestamp io" where
  "utc_now w = (Inr (w_now w (w_npos w)), w\<lparr>w_npos := Suc (w_npos w)\<rparr>)"

section \<open>What each call leaves on disk\<close>

lemma fs_at_tick [simp]: "fs_at (w\<lparr>w_tick := t\<rparr>) = fs_at w"
  by (simp add: fs_at_def fun_eq_iff)

lemma fs_at_rpos [simp]: "fs_at (w\<lparr>w_rpos := t\<rparr>) = fs_at w"
  by (simp add: fs_at_def fun_eq_iff)

lemma fs_at_npos [simp]: "fs_at (w\<lparr>w_npos := t\<rparr>) = fs_at w"
  by (simp add: fs_at_def fun_eq_iff)

lemma fs_at_set_node [simp]: "fs_at (set_node p n w) = (fs_at w)(p \<mapsto> n)"
  by (simp add: fs_at_def set_node_def update_conv' fun_eq_iff)

lemma fs_at_del_node [simp]: "fs_at (del_node p w) = (fs_at w)(p := None)"
  by (simp add: fs_at_def del_node_def delete_conv' fun_eq_iff)

text \<open>The file view depends on the nodes only.\<close>

lemma fs_view_cong: "fs_at v = fs_at w \<Longrightarrow> fs_file v = fs_file w \<and> fs_mode v = fs_mode w"
  by (simp add: fs_file_def fs_mode_def fun_eq_iff)

lemma fs_file_tick [simp]: "fs_file (w\<lparr>w_tick := t\<rparr>) = fs_file w"
  and fs_mode_tick [simp]: "fs_mode (w\<lparr>w_tick := t\<rparr>) = fs_mode w"
  and fs_file_rpos [simp]: "fs_file (w\<lparr>w_rpos := t\<rparr>) = fs_file w"
  and fs_file_npos [simp]: "fs_file (w\<lparr>w_npos := t\<rparr>) = fs_file w"
  by (rule fs_view_cong [THEN conjunct1] fs_view_cong [THEN conjunct2], simp)+

lemma fs_file_set_file [simp]: "fs_file (set_node p (NFile m bs) w) = (fs_file w)(p \<mapsto> bs)"
  by (simp add: fs_file_def fun_eq_iff)

lemma fs_file_del_node [simp]: "fs_file (del_node p w) = (fs_file w)(p := None)"
  by (simp add: fs_file_def fun_eq_iff)

lemma fs_file_put_file [simp]: "fs_file (put_file p bs w) = (fs_file w)(p \<mapsto> bs)"
  by (simp add: put_file_def)

lemma fs_file_mkdir [simp]:
  "fs_at w p = None \<Longrightarrow> fs_file (set_node p NDir w) = fs_file w"
  by (auto simp: fs_file_def fun_eq_iff)

lemma fs_file_mk_dirs [simp]: "fs_file (snd (mk_dirs q xs w)) = fs_file w"
  by (induction q xs w rule: mk_dirs.induct) (auto split: option.splits node.splits)

lemma mk_dirs_keeps: "fs_at w p \<noteq> None \<Longrightarrow> fs_at (snd (mk_dirs q xs w)) p = fs_at w p"
  by (induction q xs w rule: mk_dirs.induct) (auto split: option.splits node.splits)

lemma mk_dirs_is_dir:
  "mk_dirs q xs w = (Inr u, w') \<Longrightarrow> fs_is_dir w q \<Longrightarrow> fs_is_dir w' (q @ xs)"
proof (induction q xs w rule: mk_dirs.induct)
  case (1 q w)
  then show ?case by simp
next
  case (2 q x xs w)
  then show ?case
    by (auto simp: fs_is_dir_def split: option.splits node.splits)
qed

lemma mk_dirs_is_dir_prefix:
  "mk_dirs q (xs @ ys) w = (Inr u, w') \<Longrightarrow> fs_is_dir w q \<Longrightarrow> fs_is_dir w' (q @ xs)"
proof (induction xs arbitrary: q w)
  case Nil
  then show ?case using mk_dirs_keeps [of w q q ys] by (auto simp: fs_is_dir_def)
next
  case (Cons x xs)
  show ?case
  proof (cases "fs_at w (q @ [x])")
    case None
    with Cons.prems Cons.IH [of "q @ [x]" "set_node (q @ [x]) NDir w"] show ?thesis
      by (simp add: fs_is_dir_def)
  next
    case (Some n)
    with Cons.prems(1) have "n = NDir" by (cases n) auto
    with Some Cons.prems Cons.IH [of "q @ [x]" w] show ?thesis by (simp add: fs_is_dir_def)
  qed
qed

lemma fs_create_dir_all_prefix:
  "fs_create_dir_all (p @ q) w = (Inr u, w') \<Longrightarrow> fs_is_dir w' p"
  using mk_dirs_is_dir_prefix [of "[]" p q]
  by (auto simp: fs_create_dir_all_def syscall_def fs_is_dir_def split: if_splits)

lemma fs_write_at: "fs_write p bs w = (Inr u, w') \<Longrightarrow>
   p \<noteq> [] \<and> fs_is_dir w (butlast p) \<and> (\<forall>q. q \<noteq> p \<longrightarrow> fs_at w' q = fs_at w q)"
  by (auto simp: fs_write_def syscall_def put_file_def fs_is_dir_def split: if_splits option.splits nat.splits)

text \<open>The effect of each call on the files, whatever its outcome.\<close>

lemma fs_read_result:
  "fs_read p w = (r, w') \<Longrightarrow> fs_at w' = fs_at w \<and> (\<forall>bs. r = Inr bs \<longrightarrow> fs_file w p = Some bs)"
  by (auto simp: fs_read_def syscall_def split: if_splits option.splits)

lemma fs_read_files [world_simps]: "fs_file (snd (fs_read p w)) = fs_file w"
  by (auto simp: fs_read_def syscall_def split: option.splits)

lemma fs_read_ok: "fs_read p w = (Inr bs, w') \<Longrightarrow> fs_file w p = Some bs \<and> fs_at w' = fs_at w"
  by (drule fs_read_result) simp

lemma fs_write_ok:
  "fs_write p bs w = (Inr u, w') \<Longrightarrow> fs_file w' = (fs_file w)(p \<mapsto> bs)"
  by (auto simp: fs_write_def syscall_def split: if_splits option.splits nat.splits)

lemma fs_write_frame: "q \<noteq> p \<Longrightarrow> fs_file (snd (fs_write p bs w)) q = fs_file w q"
  by (auto simp: fs_write_def syscall_def split: option.splits nat.splits)

lemma fs_rename_ok:
  "fs_rename a b w = (Inr u, w') \<Longrightarrow> a \<noteq> b \<Longrightarrow>
     \<exists>bs. fs_file w a = Some bs \<and> fs_file w' = (fs_file w)(a := None, b \<mapsto> bs)"
  by (auto simp: fs_rename_def syscall_def fs_file_def [of w a]
      split: if_splits option.splits node.splits)

lemma fs_rename_err: "fs_rename a b w = (Inl e, w') \<Longrightarrow> fs_file w' = fs_file w"
  by (auto simp: fs_rename_def syscall_def split: if_splits option.splits node.splits)

lemma fs_chmod_files [world_simps]: "fs_file (snd (fs_chmod p m w)) = fs_file w"
  by (auto simp: fs_chmod_def syscall_def fs_file_def fun_eq_iff split: option.splits node.splits)

lemma fs_create_dir_all_files [world_simps]: "fs_file (snd (fs_create_dir_all p w)) = fs_file w"
  by (simp add: fs_create_dir_all_def syscall_def)

lemma fill_bytes_files [world_simps]: "fs_file (snd (fill_bytes n w)) = fs_file w"
  by (simp add: fill_bytes_def)

lemma fill_bytes_result: "fill_bytes n w = (r, w') \<Longrightarrow> \<exists>bs. r = Inr bs \<and> length bs = n \<and> fs_at w' = fs_at w"
  by (auto simp: fill_bytes_def)

section \<open>Replacing a file through a temporary one\<close>

text \<open>
  The idiom all four persistent files use: create the parent directory, write a
  temporary file next to the target, rename it over the target.
\<close>

definition fs_replace :: "path \<Rightarrow> path \<Rightarrow> byte list \<Rightarrow> unit io" where
  "fs_replace tmp p bs =
     io_bind (fs_create_dir_all (butlast p)) (\<lambda>_.
     io_bind (fs_write tmp bs) (\<lambda>_.
     fs_rename tmp p))"

text \<open>
  Whatever fails and wherever, the target holds its old contents or exactly the
  new ones, never a mixture, and no file but the target and the temporary changes.
\<close>

lemma fs_replace_atomic:
  assumes "fs_replace tmp p bs w = (r, w')" and "tmp \<noteq> p"
  shows "fs_file w' p = (if is_ok r then Some bs else fs_file w p)"
    and "q \<noteq> p \<Longrightarrow> q \<noteq> tmp \<Longrightarrow> fs_file w' q = fs_file w q"
proof -
  have "fs_file w' p = (if is_ok r then Some bs else fs_file w p) \<and>
        (\<forall>q. q \<noteq> p \<longrightarrow> q \<noteq> tmp \<longrightarrow> fs_file w' q = fs_file w q)"
    using assms(1) unfolding fs_replace_def
  proof (cases rule: io_bind_cases)
    case (err e)
    then show ?thesis
      using fs_create_dir_all_files [of "butlast p" w] by simp
  next
    case (ok u w1)
    then have w1: "fs_file w1 = fs_file w"
      using fs_create_dir_all_files [of "butlast p" w] by simp
    from ok(2) show ?thesis
    proof (cases rule: io_bind_cases)
      case (err e)
      then have "fs_file w' q = fs_file w q" if "q \<noteq> tmp" for q
        using fs_write_frame [OF that, of bs w1] w1 by simp
      with err assms(2) show ?thesis by simp
    next
      case (ok u2 w2)
      from fs_write_ok [OF ok(1)] w1 have w2: "fs_file w2 = (fs_file w)(tmp \<mapsto> bs)" by simp
      show ?thesis
      proof (cases r)
        case (Inl e)
        with fs_rename_err ok(2) w2 assms(2) show ?thesis by auto
      next
        case (Inr x)
        with ok(2) obtain bs' where "fs_file w2 tmp = Some bs'"
          and "fs_file w' = (fs_file w2)(tmp := None, p \<mapsto> bs')"
          using fs_rename_ok [OF _ assms(2)] by blast
        with Inr w2 show ?thesis by auto
      qed
    qed
  qed
  then show "fs_file w' p = (if is_ok r then Some bs else fs_file w p)"
    and "q \<noteq> p \<Longrightarrow> q \<noteq> tmp \<Longrightarrow> fs_file w' q = fs_file w q" by auto
qed

text \<open>\<open>Path::with_extension\<close> on a file name: replace what follows the last dot.\<close>

definition file_stem :: "string \<Rightarrow> string" where
  "file_stem s = (let r = dropWhile (\<lambda>c. c \<noteq> CHR ''.'') (rev s)
     in if length r \<le> 1 then s else rev (tl r))"

text \<open>\<open>Path::extension\<close>\<close>

definition path_extension :: "string \<Rightarrow> string option" where
  "path_extension s = (if length (dropWhile (\<lambda>c. c \<noteq> CHR ''.'') (rev s)) \<le> 1 then None
     else Some (rev (takeWhile (\<lambda>c. c \<noteq> CHR ''.'') (rev s))))"

definition with_extension :: "path \<Rightarrow> string \<Rightarrow> path" where
  "with_extension p ext = butlast p @ [file_stem (last p) @ ''.'' @ ext]"

lemma with_extension_snoc [simp]:
  "with_extension (d @ [n]) ext = d @ [file_stem n @ ''.'' @ ext]"
  by (simp add: with_extension_def)

lemma rev_at_dot:
  assumes "CHR ''.'' \<notin> set e"
  shows "takeWhile (\<lambda>c. c \<noteq> CHR ''.'') (rev (s @ CHR ''.'' # e)) = rev e"
    and "dropWhile (\<lambda>c. c \<noteq> CHR ''.'') (rev (s @ CHR ''.'' # e)) = CHR ''.'' # rev s"
proof -
  have "CHR ''.'' \<notin> set xs \<Longrightarrow> takeWhile (\<lambda>c. c \<noteq> CHR ''.'') (xs @ CHR ''.'' # ys) = xs \<and>
      dropWhile (\<lambda>c. c \<noteq> CHR ''.'') (xs @ CHR ''.'' # ys) = CHR ''.'' # ys" for xs ys
    by (induction xs) auto
  from this [of "rev e" "rev s"] assms
  show "takeWhile (\<lambda>c. c \<noteq> CHR ''.'') (rev (s @ CHR ''.'' # e)) = rev e"
    and "dropWhile (\<lambda>c. c \<noteq> CHR ''.'') (rev (s @ CHR ''.'' # e)) = CHR ''.'' # rev s" by simp_all
qed

lemma path_extension_append:
  "CHR ''.'' \<notin> set e \<Longrightarrow> s \<noteq> [] \<Longrightarrow> path_extension (s @ CHR ''.'' # e) = Some e"
  unfolding path_extension_def rev_at_dot by (cases s) simp_all

lemma file_stem_append: "CHR ''.'' \<notin> set e \<Longrightarrow> s \<noteq> [] \<Longrightarrow> file_stem (s @ CHR ''.'' # e) = s"
  unfolding file_stem_def rev_at_dot by (cases s) simp_all

section \<open>The contract of a persistent file\<close>

text \<open>
  What the components promise about each file they keep across restarts: saving a
  value replaces the file by its encoding or leaves it alone, whatever calls fail
  on the way, success means it was replaced, and only the file and its temporary
  are touched.
\<close>

locale file_slot =
  fixes slot :: path
    and tmp :: path
    and encode :: "'a \<Rightarrow> byte list"
    and save :: "'a \<Rightarrow> unit io"
  assumes save_effect: "save x w = (r, w') \<Longrightarrow>
      fs_file w' slot = Some (encode x) \<or> (\<not> is_ok r \<and> fs_file w' slot = fs_file w slot)"
    and save_frame: "save x w = (r, w') \<Longrightarrow> q \<noteq> slot \<Longrightarrow> q \<noteq> tmp \<Longrightarrow> fs_file w' q = fs_file w q"
begin

lemma save_ok: "save x w = (Inr u, w') \<Longrightarrow> fs_file w' slot = Some (encode x)"
  using save_effect by fastforce

text \<open>
  A reader that decodes the file sees the old value or the new one: any property of
  the stored value that both satisfy survives every crash of the writer.
\<close>

lemma save_crash_invariant:
  assumes "save x w = (r, w')" and "P (fs_file w slot)" and "P (Some (encode x))"
  shows "P (fs_file w' slot)"
  using save_effect [OF assms(1)] assms(2,3) by auto

text \<open>A second slot with other paths keeps its contents.\<close>

lemma save_keeps: "save x w = (r, w') \<Longrightarrow> q \<notin> {slot, tmp} \<Longrightarrow> fs_file w' q = fs_file w q"
  using save_frame by simp

end

text \<open>The three ways the sources write such a file.\<close>

lemma replace_chmod_effect:
  assumes "io_bind (fs_replace tmp p bs) (\<lambda>_. fs_chmod p m) w = (r, w')" and "tmp \<noteq> p"
  shows "fs_file w' p = Some bs \<or> (\<not> is_ok r \<and> fs_file w' p = fs_file w p)"
    and "q \<noteq> p \<Longrightarrow> q \<noteq> tmp \<Longrightarrow> fs_file w' q = fs_file w q"
proof -
  have "(fs_file w' p = Some bs \<or> (\<not> is_ok r \<and> fs_file w' p = fs_file w p)) \<and>
        (\<forall>q. q \<noteq> p \<longrightarrow> q \<noteq> tmp \<longrightarrow> fs_file w' q = fs_file w q)"
    using assms(1)
  proof (cases rule: io_bind_cases)
    case (err e)
    with fs_replace_atomic [OF err(1) assms(2)] show ?thesis by simp
  next
    case (ok u w1)
    with fs_replace_atomic [OF ok(1) assms(2)] fs_chmod_files [of p m w1] show ?thesis by simp
  qed
  then show "fs_file w' p = Some bs \<or> (\<not> is_ok r \<and> fs_file w' p = fs_file w p)"
    and "q \<noteq> p \<Longrightarrow> q \<noteq> tmp \<Longrightarrow> fs_file w' q = fs_file w q" by auto
qed

lemma fs_chmod_ok_mode:
  "fs_chmod p m w = (Inr u, w') \<Longrightarrow> fs_file w p \<noteq> None \<Longrightarrow> fs_mode w' p = Some m"
  by (auto simp: fs_chmod_def syscall_def fs_mode_def fs_file_def
      split: if_splits option.splits node.splits)

lemma replace_chmod_mode:
  assumes "io_bind (fs_replace tmp p bs) (\<lambda>_. fs_chmod p m) w = (Inr u, w')" and "tmp \<noteq> p"
  shows "fs_mode w' p = Some m"
proof -
  from assms(1) obtain u1 w1 where 1: "fs_replace tmp p bs w = (Inr u1, w1)"
    and 2: "fs_chmod p m w1 = (Inr u, w')"
    by (auto simp: io_bind_eq_Inr)
  with fs_replace_atomic(1) [OF 1 assms(2)] show ?thesis
    by (auto intro: fs_chmod_ok_mode)
qed

lemma fs_rename_is_dir: "fs_rename a b w = (Inr u, w') \<Longrightarrow> fs_is_dir w' (butlast b)"
  by (cases b rule: rev_cases)
    (auto simp: fs_rename_def syscall_def fs_is_dir_def split: if_splits option.splits node.splits)

lemma fs_chmod_is_dir: "fs_is_dir (snd (fs_chmod p m w)) d = fs_is_dir w d"
  by (auto simp: fs_chmod_def syscall_def fs_is_dir_def split: option.splits node.splits)

lemma replace_chmod_is_dir:
  assumes "io_bind (fs_replace tmp p bs) (\<lambda>_. fs_chmod p m) w = (Inr u, w')"
  shows "fs_is_dir w' (butlast p)"
proof -
  from assms obtain w1 where "\<exists>u w2. fs_rename tmp p w2 = (Inr u, w1)" "fs_chmod p m w1 = (Inr u, w')"
    by (auto simp: fs_replace_def io_bind_eq_Inr)
  then show ?thesis by (metis fs_rename_is_dir fs_chmod_is_dir snd_conv)
qed

lemma dir_entries_iff: "n \<in> set (dir_entries w d) \<longleftrightarrow> fs_at w (d @ [n]) \<noteq> None"
proof -
  have "n \<in> set (dir_entries w d) \<longleftrightarrow> (\<exists>x. (d @ [n], x) \<in> set (w_nodes w))"
    by (force simp: dir_entries_def snoc_eq_iff_butlast)
  also have "\<dots> \<longleftrightarrow> fs_at w (d @ [n]) \<noteq> None"
    by (force simp: fs_at_def map_of_eq_None_iff)
  finally show ?thesis .
qed

lemma dir_entries_file: "fs_file w (d @ [n]) \<noteq> None \<Longrightarrow> n \<in> set (dir_entries w d)"
  by (auto simp: dir_entries_iff fs_file_def split: option.splits)

lemma fs_file_type_ok:
  "fs_file_type p w = (Inr t, w') \<Longrightarrow> fs_at w' = fs_at w \<and>
     (t = FtDir \<longleftrightarrow> fs_at w p = Some NDir) \<and> (t = FtFile \<longleftrightarrow> fs_file w p \<noteq> None)"
  by (auto simp: fs_file_type_def syscall_def fs_file_def split: if_splits option.splits node.splits)

lemma fs_file_type_files [world_simps]: "fs_file (snd (fs_file_type p w)) = fs_file w"
  by (auto simp: fs_file_type_def syscall_def split: option.splits node.splits)

lemma fs_remove_dir_all_files:
  "fs_remove_dir_all p w = (Inr u, w') \<Longrightarrow>
     fs_file w' = (\<lambda>q. if take (length p) q = p then None else fs_file w q) \<and>
     fs_at w' = (\<lambda>q. if take (length p) q = p then None else fs_at w q)"
proof -
  assume r: "fs_remove_dir_all p w = (Inr u, w')"
  have "map_of (filter (\<lambda>(q, n). take (length p) q \<noteq> p) xs) q = (if take (length p) q = p then None else map_of xs q)"
    for xs :: "(path \<times> node) list" and q
    by (induction xs) auto
  with r have "fs_at w' = (\<lambda>q. if take (length p) q = p then None else fs_at w q)"
    by (auto simp: fs_remove_dir_all_def syscall_def fs_at_def split: if_splits)
  then show ?thesis by (auto simp: fs_file_def fun_eq_iff)
qed

lemma fs_read_dir_ok:
  "fs_read_dir p w = (Inr names, w') \<Longrightarrow> names = dir_entries w p \<and> fs_file w' = fs_file w"
  by (auto simp: fs_read_dir_def syscall_def dir_entries_def split: if_splits)

section \<open>When calls succeed\<close>

text \<open>
  No call fails by itself, every node lies in a directory: the conditions under
  which the progress lemmas show that an operation completes.
\<close>

definition fault_free :: "world \<Rightarrow> bool" where
  "fault_free w \<longleftrightarrow> (\<forall>n. w_fault w n = None)"

definition fs_wf :: "world \<Rightarrow> bool" where
  "fs_wf w \<longleftrightarrow> (\<forall>p n. fs_at w p = Some n \<longrightarrow> fs_is_dir w (butlast p))"

lemma fault_free_upd [simp]:
  "fault_free (w\<lparr>w_tick := t\<rparr>) = fault_free w"
  "fault_free (w\<lparr>w_rpos := t\<rparr>) = fault_free w"
  "fault_free (w\<lparr>w_npos := t\<rparr>) = fault_free w"
  "fault_free (set_node p n w) = fault_free w"
  "fault_free (del_node p w) = fault_free w"
  by (simp_all add: fault_free_def set_node_def del_node_def)

lemma fs_is_dir_upd [simp]:
  "fs_is_dir (w\<lparr>w_tick := t\<rparr>) p = fs_is_dir w p"
  "fs_is_dir (w\<lparr>w_rpos := t\<rparr>) p = fs_is_dir w p"
  "fs_is_dir (w\<lparr>w_npos := t\<rparr>) p = fs_is_dir w p"
  by (simp_all add: fs_is_dir_def)

lemma fs_wf_upd [simp]:
  "fs_wf (w\<lparr>w_tick := t\<rparr>) = fs_wf w"
  "fs_wf (w\<lparr>w_rpos := t\<rparr>) = fs_wf w"
  "fs_wf (w\<lparr>w_npos := t\<rparr>) = fs_wf w"
  by (simp_all add: fs_wf_def)

lemma fs_wf_set_file:
  "fs_wf w \<Longrightarrow> fs_is_dir w (butlast p) \<Longrightarrow> fs_at w p \<noteq> Some NDir \<Longrightarrow> p \<noteq> [] \<Longrightarrow>
   fs_wf (set_node p (NFile m bs) w)"
  by (auto simp: fs_wf_def fs_is_dir_def)

lemma fs_wf_del_file: "fs_wf w \<Longrightarrow> fs_at w p \<noteq> Some NDir \<Longrightarrow> fs_wf (del_node p w)"
  by (auto simp: fs_wf_def fs_is_dir_def)

lemma fs_wf_ancestors: "fs_wf w \<Longrightarrow> fs_is_dir w (p @ q) \<Longrightarrow> fs_is_dir w p"
proof (induction q rule: rev_induct)
  case (snoc x q)
  then have "fs_is_dir w (butlast (p @ q @ [x]))"
    by (cases "p @ q @ [x] = []") (auto simp: fs_wf_def fs_is_dir_def)
  with snoc show ?case by (simp add: butlast_append)
qed simp

lemma mk_dirs_present:
  "fs_wf w \<Longrightarrow> fs_is_dir w (q @ xs) \<Longrightarrow> mk_dirs q xs w = (Inr (), w)"
proof (induction q xs w rule: mk_dirs.induct)
  case (2 q x xs w)
  then have "fs_is_dir w (q @ [x])"
    using fs_wf_ancestors [of w "q @ [x]" xs] by simp
  with 2 show ?case by (simp add: fs_is_dir_def)
qed simp

lemma fs_replace_progress:
  assumes "fault_free w" "fs_wf w" "fs_is_dir w d" "tmp = d @ [t]" "p = d @ [n]" "t \<noteq> n"
    and "fs_at w tmp \<noteq> Some NDir" "fs_at w p \<noteq> Some NDir"
  obtains w' m where "fs_replace tmp p bs w = (Inr (), w')" "fault_free w'" "fs_wf w'"
    "fs_at w' = (fs_at w)(tmp := None, p \<mapsto> NFile m bs)"
proof -
  have flt: "w_fault w k = None" for k using assms(1) by (simp add: fault_free_def)
  define w1 where "w1 = w\<lparr>w_tick := Suc (w_tick w)\<rparr>"
  have "mk_dirs [] d w1 = (Inr (), w1)"
    using assms(2,3) by (intro mk_dirs_present) (simp_all add: w1_def)
  then have s1: "fs_create_dir_all (butlast p) w = (Inr (), w1)"
    using assms(5) flt by (simp add: fs_create_dir_all_def syscall_def w1_def)
  define m where "m = (case fs_mode w tmp of Some m \<Rightarrow> m | None \<Rightarrow> w_newmode w)"
  define w2 where "w2 = set_node tmp (NFile m bs) (w\<lparr>w_tick := Suc (Suc (w_tick w))\<rparr>)"
  have s2: "fs_write tmp bs w1 = (Inr (), w2)"
    using assms flt
    by (simp add: fs_write_def syscall_def w1_def w2_def put_file_def m_def split: option.split)
  have wf2: "fs_wf w2" "fault_free w2" "fs_is_dir w2 d"
    using assms by (simp_all add: w2_def fs_wf_set_file fs_is_dir_def)
  define w3 where "w3 = set_node p (NFile m bs) (del_node tmp (w2\<lparr>w_tick := Suc (w_tick w2)\<rparr>))"
  have at2: "fs_at w2 = (fs_at w)(tmp \<mapsto> NFile m bs)" by (simp add: w2_def)
  have s3: "fs_rename tmp p w2 = (Inr (), w3)"
    using assms flt wf2 at2
    by (simp add: fs_rename_def syscall_def w3_def) (simp add: w2_def set_node_def)
  have wfd: "fs_wf (del_node tmp (w2\<lparr>w_tick := Suc (w_tick w2)\<rparr>))"
    by (rule fs_wf_del_file) (simp_all add: wf2 at2)
  have "fs_is_dir (del_node tmp (w2\<lparr>w_tick := Suc (w_tick w2)\<rparr>)) d"
    using wf2(3) assms(4) by (simp add: fs_is_dir_def)
  with wfd have "fs_wf w3"
    unfolding w3_def using assms at2 by (intro fs_wf_set_file) (simp_all)
  moreover have "fs_at w3 = (fs_at w)(tmp := None, p \<mapsto> NFile m bs)"
    using at2 by (simp add: w3_def fun_eq_iff)
  ultimately show thesis
    using that [of w3 m] s1 s2 s3 wf2 by (simp add: fs_replace_def w3_def)
qed

lemma fs_chmod_progress:
  assumes "fault_free w" "fs_wf w" "fs_at w p = Some (NFile m' bs)" "p \<noteq> []"
  obtains w' where "fs_chmod p m w = (Inr (), w')" "fault_free w'" "fs_wf w'"
    "fs_at w' = (fs_at w)(p \<mapsto> NFile m bs)"
proof -
  have "fs_is_dir w (butlast p)" using assms(2,3) by (simp add: fs_wf_def)
  then have "fs_wf (set_node p (NFile m bs) (w\<lparr>w_tick := Suc (w_tick w)\<rparr>))"
    using assms by (intro fs_wf_set_file) simp_all
  with assms that show thesis
    by (simp add: fs_chmod_def syscall_def fault_free_def [of w])
qed

lemma fs_read_progress:
  "fault_free w \<Longrightarrow> fs_file w p = Some bs \<Longrightarrow>
     fs_read p w = (Inr bs, w\<lparr>w_tick := Suc (w_tick w)\<rparr>)"
  by (simp add: fs_read_def syscall_def fault_free_def)

section \<open>Calls fail with an I/O error only\<close>

definition io_errors_only :: "'a io \<Rightarrow> bool" where
  "io_errors_only m \<longleftrightarrow> (\<forall>w e w'. m w = (Inl e, w') \<longrightarrow> e = IoError)"

lemma io_errors_only_bind [intro]:
  "io_errors_only m \<Longrightarrow> (\<And>x. io_errors_only (f x)) \<Longrightarrow> io_errors_only (io_bind m f)"
  unfolding io_errors_only_def by (metis io_bind_cases sum.inject(1))

lemma mk_dirs_errors: "mk_dirs q xs w = (Inl e, w') \<Longrightarrow> e = IoError"
  by (induction q xs w rule: mk_dirs.induct) (auto split: option.splits node.splits)

lemma io_errors_only_calls [intro, simp]:
  "io_errors_only (io_return x)" "io_errors_only (fs_read p)" "io_errors_only (fs_write p bs)"
  "io_errors_only (fs_rename a b)" "io_errors_only (fs_chmod p m)"
  "io_errors_only (fs_create_dir_all p)" "io_errors_only (fill_bytes n)"
  by (auto simp: io_errors_only_def fs_read_def fs_write_def fs_rename_def fs_chmod_def
      fs_create_dir_all_def fill_bytes_def syscall_def dest: mk_dirs_errors
      split: option.splits nat.splits node.splits if_splits)

lemma io_errors_only_replace [intro, simp]: "io_errors_only (fs_replace tmp p bs)"
  by (auto simp: fs_replace_def)

section \<open>Calls do not change the fault schedule\<close>

definition keeps_faults :: "'a io \<Rightarrow> bool" where
  "keeps_faults m \<longleftrightarrow> (\<forall>w. w_fault (snd (m w)) = w_fault w)"

lemma keeps_faults_bind [intro]:
  "keeps_faults m \<Longrightarrow> (\<And>x. keeps_faults (f x)) \<Longrightarrow> keeps_faults (io_bind m f)"
  unfolding keeps_faults_def io_bind_def
  by (metis (mono_tags, lifting) case_prod_beta' old.sum.simps(5,6) snd_conv sum.exhaust)

lemma keeps_faults_if [intro]:
  "keeps_faults f \<Longrightarrow> keeps_faults g \<Longrightarrow> keeps_faults (\<lambda>w. if P w then f w else g w)"
  by (simp add: keeps_faults_def)

lemma mk_dirs_faults [simp]: "w_fault (snd (mk_dirs q xs w)) = w_fault w"
  by (induction q xs w rule: mk_dirs.induct) (auto simp: set_node_def split: option.splits node.splits)

lemma keeps_faults_calls [intro, simp]:
  "keeps_faults (io_return x)" "keeps_faults (io_fail e)" "keeps_faults (io_lift r)"
  "keeps_faults (fs_read p)" "keeps_faults (fs_write p bs)" "keeps_faults (fs_rename a b)"
  "keeps_faults (fs_chmod p m)" "keeps_faults (fs_create_dir_all p)" "keeps_faults (fill_bytes n)"
  "keeps_faults (fs_remove_file p)" "keeps_faults (fs_read_dir p)" "keeps_faults (fs_remove_dir_all p)"
  "keeps_faults utc_now" "keeps_faults (fs_file_type p)" "keeps_faults (fs_open_create p)"
  by (auto simp: fs_file_type_def fs_open_create_def keeps_faults_def fs_read_def fs_write_def fs_rename_def fs_chmod_def put_file_def
      fs_create_dir_all_def fill_bytes_def fs_remove_file_def fs_read_dir_def utc_now_def
      fs_remove_dir_all_def syscall_def set_node_def del_node_def
      split: option.splits nat.splits node.splits)

lemma keeps_faults_replace [intro, simp]: "keeps_faults (fs_replace tmp p bs)"
  by (auto simp: fs_replace_def)

lemma keeps_faults_fault_free: "keeps_faults m \<Longrightarrow> fault_free w \<Longrightarrow> fault_free (snd (m w))"
  by (simp add: keeps_faults_def fault_free_def)

text \<open>A machine on which nothing fails, with the given tree: the setting of the examples.\<close>

definition calm_world :: "(path \<times> node) list \<Rightarrow> world" where
  "calm_world nodes = \<lparr>w_nodes = nodes, w_tick = 0, w_fault = (\<lambda>_. None), w_newmode = 6 * 64 + 4 * 8 + 4,
     w_rng = (\<lambda>n. of_nat n), w_rpos = 0, w_now = int, w_npos = 0\<rparr>"

lemma fault_free_calm [simp]: "fault_free (calm_world nodes)"
  by (simp add: fault_free_def calm_world_def)

end
