(* ===== verification/Clock.thy ===== *)
theory Clock
  imports Prelude
begin

text \<open>
  \<^verbatim>\<open>src/clock.rs\<close>: the vector clocks that identify versions of a share.  A clock
  is a \<open>BTreeMap<String, u64>\<close> from peer ids to counters; a missing entry counts
  as zero.

  \<open>increment\<close> adds one to a \<open>u64\<close>.  A release build (what \<^verbatim>\<open>install.sh\<close> makes)
  wraps around at the maximum, which is what word addition does here; a debug
  build panics at that single value.

  The contract of a clock towards the synchronisation protocol is the locale
  \<open>clock_algebra\<close>; its interpretation on the definitions translated from the
  source is \<open>vc\<close>.
\<close>

section \<open>Operations\<close>

type_synonym vector_clock = "(string, u64) btree_map"

datatype clock_ordering = Equal | SelfDominates | OtherDominates | Concurrent

definition vc_new :: vector_clock where
  "vc_new = []"

text \<open>\<open>.get(key).copied().unwrap_or(0)\<close>\<close>

definition count :: "vector_clock \<Rightarrow> string \<Rightarrow> u64" where
  "count c p = (case btree_get c p of None \<Rightarrow> 0 | Some v \<Rightarrow> v)"

definition increment :: "vector_clock \<Rightarrow> string \<Rightarrow> vector_clock" where
  "increment c peer = btree_insert peer (count c peer + 1) c"

text \<open>One turn of the loop of \<open>merge\<close>: \<open>entry(peer).or_insert(0)\<close>, then the maximum.\<close>

fun merge_entry :: "string \<times> u64 \<Rightarrow> vector_clock \<Rightarrow> vector_clock" where
  "merge_entry (peer, v) c =
     (let our = count c peer in btree_insert peer (if v > our then v else our) c)"

definition merge :: "vector_clock \<Rightarrow> vector_clock \<Rightarrow> vector_clock" where
  "merge self other = fold merge_entry other self"

text \<open>The loop of \<open>compare\<close> over the union of the key sets, with its two flags.\<close>

fun compare_loop ::
  "vector_clock \<Rightarrow> vector_clock \<Rightarrow> string list \<Rightarrow> bool \<Rightarrow> bool \<Rightarrow> bool \<times> bool" where
  "compare_loop self other [] self_ahead other_ahead = (self_ahead, other_ahead)"
| "compare_loop self other (key # keys) self_ahead other_ahead =
     (let s = count self key; other_s = count other key in
      compare_loop self other keys (self_ahead \<or> s > other_s) (other_ahead \<or> other_s > s))"

definition clock_keys :: "vector_clock \<Rightarrow> vector_clock \<Rightarrow> string list" where
  "clock_keys self other = foldl (\<lambda>ks k. bset_insert k ks) [] (map fst self @ map fst other)"

definition compare :: "vector_clock \<Rightarrow> vector_clock \<Rightarrow> clock_ordering" where
  "compare self other =
     (case compare_loop self other (clock_keys self other) False False of
        (False, False) \<Rightarrow> Equal
      | (True, False) \<Rightarrow> SelfDominates
      | (False, True) \<Rightarrow> OtherDominates
      | (True, True) \<Rightarrow> Concurrent)"

section \<open>The clock contract\<close>

text \<open>
  What the protocol relies on: a counter per peer, a pointwise maximum, and a
  comparison that decides the product order, on the clocks that satisfy the
  representation invariant.
\<close>

locale clock_algebra =
  fixes invar :: "'c \<Rightarrow> bool"
    and cnt :: "'c \<Rightarrow> 'p \<Rightarrow> 'n::linorder"
    and join :: "'c \<Rightarrow> 'c \<Rightarrow> 'c"
    and cmp :: "'c \<Rightarrow> 'c \<Rightarrow> clock_ordering"
  assumes invar_join: "invar a \<Longrightarrow> invar (join a b)"
    and cnt_join: "invar b \<Longrightarrow> cnt (join a b) p = max (cnt a p) (cnt b p)"
    and cmp_by_cnt: "cmp a b =
      (if \<exists>p. cnt b p < cnt a p
       then if \<exists>p. cnt a p < cnt b p then Concurrent else SelfDominates
       else if \<exists>p. cnt a p < cnt b p then OtherDominates else Equal)"
begin

lemma cmp_Equal: "cmp a b = Equal \<longleftrightarrow> (\<forall>p. cnt a p = cnt b p)"
  unfolding cmp_by_cnt by (auto simp: order.eq_iff linorder_not_less [symmetric])

lemma cmp_SelfDominates:
  "cmp a b = SelfDominates \<longleftrightarrow> (\<forall>p. cnt b p \<le> cnt a p) \<and> (\<exists>p. cnt b p < cnt a p)"
  unfolding cmp_by_cnt by (auto simp: linorder_not_less [symmetric])

lemma cmp_OtherDominates:
  "cmp a b = OtherDominates \<longleftrightarrow> (\<forall>p. cnt a p \<le> cnt b p) \<and> (\<exists>p. cnt a p < cnt b p)"
  unfolding cmp_by_cnt by (auto simp: linorder_not_less [symmetric])

lemma cmp_Concurrent:
  "cmp a b = Concurrent \<longleftrightarrow> (\<exists>p. cnt b p < cnt a p) \<and> (\<exists>p. cnt a p < cnt b p)"
  by (auto simp: cmp_by_cnt)

lemmas cmp_specs = cmp_Equal cmp_SelfDominates cmp_OtherDominates cmp_Concurrent

text \<open>The order the comparison decides.\<close>

lemma cmp_le_iff: "cmp a b \<in> {Equal, OtherDominates} \<longleftrightarrow> (\<forall>p. cnt a p \<le> cnt b p)"
  by (auto simp: cmp_specs) (metis order_le_less)

lemma cmp_ge_iff: "cmp a b \<in> {Equal, SelfDominates} \<longleftrightarrow> (\<forall>p. cnt b p \<le> cnt a p)"
  by (auto simp: cmp_specs) (metis order_le_less)

lemma cmp_flip:
  "cmp b a = (case cmp a b of Equal \<Rightarrow> Equal | SelfDominates \<Rightarrow> OtherDominates
     | OtherDominates \<Rightarrow> SelfDominates | Concurrent \<Rightarrow> Concurrent)"
  by (simp add: cmp_by_cnt)

lemma cmp_refl: "cmp a a = Equal"
  by (simp add: cmp_specs)

lemma cmp_cong: "cmp a a' = Equal \<Longrightarrow> cmp b b' = Equal \<Longrightarrow> cmp a b = cmp a' b'"
  by (simp add: cmp_by_cnt [of a b] cmp_by_cnt [of a' b'] cmp_Equal)

lemma dominates_trans:
  "cmp a b = SelfDominates \<Longrightarrow> cmp b c = SelfDominates \<Longrightarrow> cmp a c = SelfDominates"
  unfolding cmp_SelfDominates by (meson order.trans order.strict_trans2)

lemma join_upper:
  assumes "invar b"
  shows "cmp (join a b) a \<in> {Equal, SelfDominates}" and "cmp (join a b) b \<in> {Equal, SelfDominates}"
  using assms by (simp_all only: cmp_ge_iff cnt_join) simp_all

lemma join_least:
  assumes "invar b" and "cmp c a \<in> {Equal, SelfDominates}" and "cmp c b \<in> {Equal, SelfDominates}"
  shows "cmp c (join a b) \<in> {Equal, SelfDominates}"
  using assms by (simp only: cmp_ge_iff cnt_join) simp

lemma join_commute: "invar a \<Longrightarrow> invar b \<Longrightarrow> cmp (join a b) (join b a) = Equal"
  by (simp add: cmp_Equal cnt_join max.commute)

lemma join_assoc:
  "invar b \<Longrightarrow> invar c \<Longrightarrow> cmp (join (join a b) c) (join a (join b c)) = Equal"
  by (simp add: cmp_Equal cnt_join invar_join max.assoc)

lemma join_absorb: "invar b \<Longrightarrow> cmp a b = OtherDominates \<Longrightarrow> cmp (join a b) b = Equal"
  by (auto simp: cmp_specs cnt_join max_def intro: antisym)

lemma join_concurrent:
  assumes "invar b" and "cmp a b = Concurrent"
  shows "cmp (join a b) a = SelfDominates" and "cmp (join a b) b = SelfDominates"
  using assms by (auto simp: cmp_specs cnt_join less_max_iff_disj)

end

section \<open>The implementation meets the contract\<close>

lemma count_btree_insert [simp]: "count (btree_insert k v c) p = (if p = k then v else count c p)"
  by (simp add: count_def)

lemma count_merge_entry: "count (merge_entry e c) p = (if p = fst e then max (count c p) (snd e) else count c p)"
  by (cases e) (auto simp: Let_def max_def)

lemma count_fold_merge:
  "distinct (map fst es) \<Longrightarrow>
   count (fold merge_entry es c) p =
     (case map_of es p of None \<Rightarrow> count c p | Some v \<Rightarrow> max (count c p) v)"
proof (induction es arbitrary: c)
  case Nil
  then show ?case by simp
next
  case (Cons e es)
  then have "map_of es (fst e) = None"
    by (simp add: map_of_eq_None_iff)
  moreover have "count (fold merge_entry (e # es) c) p =
      (case map_of es p of None \<Rightarrow> count (merge_entry e c) p
       | Some v \<Rightarrow> max (count (merge_entry e c) p) v)"
    using Cons by simp
  ultimately show ?case
    by (cases e) (simp add: count_merge_entry del: merge_entry.simps split: option.split)
qed

lemma count_le_0 [simp]: "max x (0 :: u64) = x"
  by (simp add: max_def)

lemma count_merge: "btree_ok b \<Longrightarrow> count (merge a b) p = max (count a p) (count b p)"
  by (auto simp: merge_def count_fold_merge btree_ok_distinct count_def [of b] split: option.split)

lemma btree_ok_merge_entry: "btree_ok c \<Longrightarrow> btree_ok (merge_entry e c)"
  by (cases e) (simp add: Let_def)

lemma btree_ok_merge: "btree_ok a \<Longrightarrow> btree_ok (merge a b)"
  unfolding merge_def
  by (induction b arbitrary: a) (simp_all add: btree_ok_merge_entry del: merge_entry.simps)

lemma btree_ok_increment: "btree_ok c \<Longrightarrow> btree_ok (increment c p)"
  by (simp add: increment_def)

lemma set_clock_keys: "set (clock_keys a b) = fst ` set a \<union> fst ` set b"
proof -
  have "set (foldl (\<lambda>ks k. bset_insert k ks) acc xs) = set acc \<union> set xs" for acc xs :: "string list"
    by (induction xs arbitrary: acc) auto
  then show ?thesis
    by (simp add: clock_keys_def)
qed

lemma compare_loop_flags:
  "compare_loop a b ks f g =
     (f \<or> (\<exists>k \<in> set ks. count b k < count a k), g \<or> (\<exists>k \<in> set ks. count a k < count b k))"
  by (induction ks arbitrary: f g) (auto simp: Let_def)

lemma count_outside_keys: "p \<notin> set (clock_keys a b) \<Longrightarrow> count a p = 0 \<and> count b p = 0"
  by (auto simp: set_clock_keys count_def split: option.splits dest: map_of_SomeD)
    (metis fst_conv image_eqI map_of_SomeD)+

lemma compare_by_counts:
  "compare a b =
     (if \<exists>p. count b p < count a p
      then if \<exists>p. count a p < count b p then Concurrent else SelfDominates
      else if \<exists>p. count a p < count b p then OtherDominates else Equal)"
proof -
  have "(\<exists>k \<in> set (clock_keys a b). count b k < count a k) \<longleftrightarrow> (\<exists>p. count b p < count a p)"
    and "(\<exists>k \<in> set (clock_keys a b). count a k < count b k) \<longleftrightarrow> (\<exists>p. count a p < count b p)"
    using count_outside_keys [of _ a b] by fastforce+
  then show ?thesis
    by (simp add: compare_def compare_loop_flags)
qed

interpretation vc: clock_algebra btree_ok count merge compare
proof unfold_locales
  fix a b :: vector_clock and p
  show "btree_ok a \<Longrightarrow> btree_ok (merge a b)"
    by (rule btree_ok_merge)
  show "btree_ok b \<Longrightarrow> count (merge a b) p = max (count a p) (count b p)"
    by (rule count_merge)
  show "compare a b =
      (if \<exists>p. count b p < count a p
       then if \<exists>p. count a p < count b p then Concurrent else SelfDominates
       else if \<exists>p. count a p < count b p then OtherDominates else Equal)"
    by (rule compare_by_counts)
qed

section \<open>Properties\<close>

text \<open>
  C14. Comparing two clocks decides the product order of their counters: equal,
  strictly above, strictly below, or incomparable, and comparing the other way
  round gives the mirrored answer.
\<close>

theorem compare_decides_order:
  "(compare a b = Equal \<longleftrightarrow> (\<forall>p. count a p = count b p)) \<and>
   (compare a b = SelfDominates \<longleftrightarrow>
      (\<forall>p. count b p \<le> count a p) \<and> (\<exists>p. count b p < count a p)) \<and>
   (compare a b = OtherDominates \<longleftrightarrow> compare b a = SelfDominates) \<and>
   (compare a b = Concurrent \<longleftrightarrow>
      (\<exists>p. count b p < count a p) \<and> (\<exists>p. count a p < count b p))"
  using vc.cmp_Equal vc.cmp_SelfDominates vc.cmp_OtherDominates [of a b]
    vc.cmp_Concurrent by simp

text \<open>
  C24. Merging takes the least upper bound: the merged clock is above both
  arguments, below every clock above both, and strictly above both when they were
  concurrent (so the announce that follows a conflict dominates each side).
\<close>

theorem merge_least_upper_bound:
  assumes "btree_ok a" and "btree_ok b"
  shows "compare (merge a b) a \<in> {Equal, SelfDominates} \<and>
    compare (merge a b) b \<in> {Equal, SelfDominates} \<and>
    (\<forall>c. compare c a \<in> {Equal, SelfDominates} \<longrightarrow> compare c b \<in> {Equal, SelfDominates} \<longrightarrow>
       compare c (merge a b) \<in> {Equal, SelfDominates}) \<and>
    (compare a b = Concurrent \<longrightarrow>
       compare (merge a b) a = SelfDominates \<and> compare (merge a b) b = SelfDominates) \<and>
    btree_ok (merge a b)"
  using assms vc.join_upper [of b a] vc.join_least [of b] vc.join_concurrent [of b a]
    vc.invar_join [of a b] by blast

theorem merge_least_upper_bound_witness:
  "compare [(''p1'', 2), (''p2'', 1)] [(''p1'', 1), (''p3'', 1)] = Concurrent \<and>
   compare (merge [(''p1'', 2), (''p2'', 1)] [(''p1'', 1), (''p3'', 1)])
     [(''p1'', 2), (''p2'', 1)] = SelfDominates"
proof -
  have ok: "btree_ok [(''p1'', 2), (''p2'', 1 :: u64)]" "btree_ok [(''p1'', 1), (''p3'', 1 :: u64)]"
    by code_simp+
  have "compare [(''p1'', 2), (''p2'', 1)] [(''p1'', 1), (''p3'', 1)] = Concurrent"
    by code_simp
  then show ?thesis
    using merge_least_upper_bound [OF ok] by blast
qed

text \<open>
  C25. Incrementing a peer's counter changes that counter only, and the new clock
  dominates the old one -- except at the largest counter, where the \<open>u64\<close> wraps to
  zero and the new clock is the older one to every peer.
\<close>

theorem increment_dominates:
  "compare (increment c p) c = (if count c p = - 1 then OtherDominates else SelfDominates) \<and>
   count (increment c p) = (count c)(p := count c p + 1)"
proof -
  have cnt: "count (increment c p) = (count c)(p := count c p + 1)"
    by (auto simp: increment_def)
  have "count c p < count c p + 1 \<longleftrightarrow> count c p \<noteq> - 1"
    by (metis inc_less_eq_self_iff_eq not_le)
  then show ?thesis
    using cnt by (auto simp: compare_by_counts not_less)
qed

end
