(* ===== verification/Layout.thy ===== *)
theory Layout
  imports World
begin

text \<open>
  \<^verbatim>\<open>src/data_dir.rs\<close>: where the daemon keeps its state.  A share id is one path
  component, as \<open>share::id_from_topic\<close> makes it.
\<close>

text \<open>
  \<open>resolve\<close>; the platform's directory is what the \<open>directories\<close> crate answers.
\<close>

definition resolve :: "path option \<Rightarrow> path option \<Rightarrow> path result" where
  "resolve project_dirs override_path =
     (case override_path of
        Some p \<Rightarrow> Inr p
      | None \<Rightarrow> (case project_dirs of
          Some d \<Rightarrow> Inr d
        | None \<Rightarrow> Inl (Bail ''could not resolve platform project dirs'' [])))"

definition identity_path :: "path \<Rightarrow> path" where
  "identity_path data_dir = data_dir @ [''identity.key'']"

definition lock_path :: "path \<Rightarrow> path" where
  "lock_path data_dir = data_dir @ [''daemon.lock'']"

definition shares_dir :: "path \<Rightarrow> path" where
  "shares_dir data_dir = data_dir @ [''shares'']"

text \<open>The directory of one share and the files in it.\<close>

definition share_dir :: "path \<Rightarrow> string \<Rightarrow> path" where
  "share_dir data_dir share_id = shares_dir data_dir @ [share_id]"

lemma share_dir_inject [simp]: "share_dir dd s = share_dir dd' s' \<longleftrightarrow> dd = dd' \<and> s = s'"
  by (auto simp: share_dir_def shares_dir_def)

lemma share_file_inject [simp]:
  "share_dir dd s @ [f] = share_dir dd' s' @ [f'] \<longleftrightarrow> dd = dd' \<and> s = s' \<and> f = f'"
  by (auto simp: share_dir_def shares_dir_def)

end
