(* ===== verification/Crypto.thy ===== *)
theory Crypto
  imports Layout "HOL-Library.Sublist"
begin

text \<open>
  \<^verbatim>\<open>src/crypto.rs\<close>: the per-share keyring, its file \<open>keys.bin\<close>, and the encryption
  of file contents under it.

  The ciphers and hashes of other crates are the fields of \<open>crypto_crates\<close>, a
  parameter of the definitions that use them; what the code relies on is the
  predicate \<open>aead_ok\<close>.
\<close>

section \<open>Operations\<close>

definition KEY_LEN :: nat where "KEY_LEN = 32"
definition NONCE_LEN :: nat where "NONCE_LEN = 24"
definition TAG_LEN :: nat where "TAG_LEN = 16"
definition EPOCH_LEN :: nat where "EPOCH_LEN = 8"
definition HEADER_LEN :: nat where "HEADER_LEN = EPOCH_LEN + NONCE_LEN"

lemmas crypto_consts = KEY_LEN_def NONCE_LEN_def TAG_LEN_def EPOCH_LEN_def HEADER_LEN_def

type_synonym key = "byte list"

record crypto_crates =
  blake3 :: "byte list \<Rightarrow> byte list"
  aead_seal :: "key \<Rightarrow> byte list \<Rightarrow> byte list \<Rightarrow> byte list option"
  aead_open :: "key \<Rightarrow> byte list \<Rightarrow> byte list \<Rightarrow> byte list option"

record keyring =
  kr_keys :: "key list"

definition current_epoch :: "keyring \<Rightarrow> u64" where
  "current_epoch ring = of_nat (length (kr_keys ring))"

text \<open>\<open>last().expect(..)\<close>\<close>

definition current_key :: "keyring \<Rightarrow> key result" where
  "current_key ring = (if kr_keys ring = [] then Inl Panic else Inr (last (kr_keys ring)))"

definition key_for_epoch :: "keyring \<Rightarrow> u64 \<Rightarrow> key option" where
  "key_for_epoch ring epoch =
     (if epoch = 0 then None
      else let idx = unat (epoch - 1) in
        if idx < length (kr_keys ring) then Some (kr_keys ring ! idx) else None)"

definition export_keys :: "keyring \<Rightarrow> key list" where
  "export_keys ring = kr_keys ring"

definition keys_path :: "path \<Rightarrow> string \<Rightarrow> path" where
  "keys_path data_dir share_id = share_dir data_dir share_id @ [''keys.bin'']"

text \<open>\<open>raw.chunks_exact(n)\<close>\<close>

fun chunks_exact :: "nat \<Rightarrow> 'a list \<Rightarrow> 'a list list" where
  "chunks_exact n xs =
     (if n = 0 \<or> length xs < n then [] else take n xs # chunks_exact n (drop n xs))"

declare chunks_exact.simps [simp del]

definition save_keyring :: "path \<Rightarrow> string \<Rightarrow> keyring \<Rightarrow> unit io" where
  "save_keyring data_dir share_id ring =
     (let path = keys_path data_dir share_id;
          bytes = concat (kr_keys ring);
          tmp = with_extension path ''bin.tmp''
      in io_bind (fs_replace tmp path bytes) (\<lambda>_.
         fs_chmod path mode_0600))"

definition load_or_create_keyring :: "path \<Rightarrow> string \<Rightarrow> keyring io" where
  "load_or_create_keyring data_dir share_id w =
     (let path = keys_path data_dir share_id in
      if fs_exists w path then
        io_bind (fs_read path) (\<lambda>raw.
          if raw = [] \<or> length raw mod KEY_LEN \<noteq> 0
          then io_fail (Bail ''keys.bin has invalid length'' [length raw])
          else io_return \<lparr>kr_keys = chunks_exact KEY_LEN raw\<rparr>) w
      else
        io_bind (fill_bytes KEY_LEN) (\<lambda>k.
        let ring = \<lparr>kr_keys = [k]\<rparr> in
        io_bind (save_keyring data_dir share_id ring) (\<lambda>_.
        io_return ring)) w)"

definition install_keyring :: "path \<Rightarrow> string \<Rightarrow> key list \<Rightarrow> unit io" where
  "install_keyring data_dir share_id keys w =
     (if fs_exists w (keys_path data_dir share_id)
      then io_fail (Bail ''keys.bin already exists; refusing to overwrite'' []) w
      else if keys = [] then io_fail (Bail ''cannot install an empty keyring'' []) w
      else save_keyring data_dir share_id \<lparr>kr_keys = keys\<rparr> w)"

definition rotate_keyring :: "path \<Rightarrow> string \<Rightarrow> u64 io" where
  "rotate_keyring data_dir share_id =
     io_bind (load_or_create_keyring data_dir share_id) (\<lambda>ring.
     io_bind (fill_bytes KEY_LEN) (\<lambda>k.
     let ring' = ring\<lparr>kr_keys := kr_keys ring @ [k]\<rparr> in
     io_bind (save_keyring data_dir share_id ring') (\<lambda>_.
     io_return (current_epoch ring'))))"

datatype install_outcome = Installed | Idempotent | Stale | Gap u64 u64

definition install_epoch_key ::
  "path \<Rightarrow> string \<Rightarrow> u64 \<Rightarrow> key \<Rightarrow> install_outcome io" where
  "install_epoch_key data_dir share_id epoch key =
     io_bind (load_or_create_keyring data_dir share_id) (\<lambda>ring.
     let current = current_epoch ring in
     if epoch = current then
       (case key_for_epoch ring epoch of
          None \<Rightarrow> io_fail Panic
        | Some existing \<Rightarrow>
            if existing = key then io_return Idempotent
            else io_fail (Bail ''epoch already populated with a different key'' [unat epoch]))
     else if epoch < current then io_return Stale
     else if epoch > current + 1 then io_return (Gap current epoch)
     else
       io_bind (save_keyring data_dir share_id (ring\<lparr>kr_keys := kr_keys ring @ [key]\<rparr>)) (\<lambda>_.
       io_return Installed))"

definition encrypt :: "('z) crypto_crates_scheme \<Rightarrow> keyring \<Rightarrow> byte list \<Rightarrow> byte list io" where
  "encrypt C ring plaintext =
     (let epoch = current_epoch ring in
      io_bind (io_lift (current_key ring)) (\<lambda>key.
      io_bind (fill_bytes NONCE_LEN) (\<lambda>nonce_bytes.
      case aead_seal C key nonce_bytes plaintext of
        None \<Rightarrow> io_fail (Bail ''encryption failed'' [])
      | Some ct \<Rightarrow> io_return (to_le_bytes epoch @ nonce_bytes @ ct))))"

definition decrypt :: "('z) crypto_crates_scheme \<Rightarrow> keyring \<Rightarrow> byte list \<Rightarrow> byte list result" where
  "decrypt C ring blob =
     (if length blob < HEADER_LEN + TAG_LEN
      then Inl (Bail ''blob too short'' [length blob, HEADER_LEN + TAG_LEN])
      else
        let epoch = from_le_bytes (take EPOCH_LEN blob) in
        case key_for_epoch ring epoch of
          None \<Rightarrow> Inl (Bail ''no key for epoch'' [unat epoch, unat (current_epoch ring)])
        | Some key \<Rightarrow>
            let nonce = take (HEADER_LEN - EPOCH_LEN) (drop EPOCH_LEN blob) in
            case aead_open C key nonce (drop HEADER_LEN blob) of
              None \<Rightarrow> Inl (Bail ''AEAD authentication failed (tampered or wrong key for epoch)'' [])
            | Some pt \<Rightarrow> Inr pt)"

section \<open>What the code relies on\<close>

text \<open>
  XChaCha20-Poly1305 as its crate documents it: sealing appends a 16 byte tag, and
  opening under the same key and nonce returns the message.
\<close>

definition aead_ok :: "('z) crypto_crates_scheme \<Rightarrow> bool" where
  "aead_ok C \<longleftrightarrow> (\<forall>k n m ct. length k = KEY_LEN \<longrightarrow> length n = NONCE_LEN \<longrightarrow>
     aead_seal C k n m = Some ct \<longrightarrow>
     length ct = length m + TAG_LEN \<and> aead_open C k n ct = Some m)"

section \<open>The keyring on disk\<close>

definition keys_ok :: "key list \<Rightarrow> bool" where
  "keys_ok ks \<longleftrightarrow> ks \<noteq> [] \<and> (\<forall>k \<in> set ks. length k = KEY_LEN)"

abbreviation ring_ok :: "keyring \<Rightarrow> bool" where
  "ring_ok ring \<equiv> keys_ok (kr_keys ring)"

definition parse_keys :: "byte list \<Rightarrow> key list option" where
  "parse_keys raw =
     (if raw = [] \<or> length raw mod KEY_LEN \<noteq> 0 then None else Some (chunks_exact KEY_LEN raw))"

text \<open>The abstract state: the keys stored for a share, if its file is well-formed.\<close>

definition disk_keys :: "world \<Rightarrow> path \<Rightarrow> string \<Rightarrow> key list option" where
  "disk_keys w data_dir share_id = Option.bind (fs_file w (keys_path data_dir share_id)) parse_keys"

abbreviation keys_tmp :: "path \<Rightarrow> string \<Rightarrow> path" where
  "keys_tmp dd sid \<equiv> with_extension (keys_path dd sid) ''bin.tmp''"

lemma keys_tmp_eq: "keys_tmp dd sid = share_dir dd sid @ [''keys.bin.tmp'']"
  by (simp add: keys_path_def file_stem_def Let_def)

lemma keys_tmp_neq [simp]: "keys_tmp dd sid \<noteq> keys_path dd sid"
  unfolding keys_tmp_eq by (simp add: keys_path_def)

interpretation keys_file:
  file_slot "keys_path dd sid" "keys_tmp dd sid" "\<lambda>ring. concat (kr_keys ring)"
    "save_keyring dd sid" for dd sid
proof unfold_locales
  fix x w r w' q
  assume s: "save_keyring dd sid x w = (r, w')"
  then show "fs_file w' (keys_path dd sid) = Some (concat (kr_keys x)) \<or>
      \<not> is_ok r \<and> fs_file w' (keys_path dd sid) = fs_file w (keys_path dd sid)"
    unfolding save_keyring_def Let_def by (rule replace_chmod_effect(1)) simp
  show "q \<noteq> keys_path dd sid \<Longrightarrow> q \<noteq> keys_tmp dd sid \<Longrightarrow> fs_file w' q = fs_file w q"
    using s unfolding save_keyring_def Let_def by (rule replace_chmod_effect(2)) simp
qed

lemma chunks_exact_concat:
  assumes "\<forall>x \<in> set xs. length x = n" and "0 < n"
  shows "chunks_exact n (concat xs) = xs"
  using assms(1)
proof (induction xs)
  case Nil
  with assms(2) show ?case by (simp add: chunks_exact.simps)
next
  case (Cons x xs)
  with assms(2) show ?case by (subst chunks_exact.simps) simp
qed

lemma length_concat_fixed:
  "\<forall>x \<in> set xs. length x = n \<Longrightarrow> length (concat xs) = length xs * n"
  by (induction xs) auto

lemma parse_keys_concat:
  assumes "ring_ok ring"
  shows "parse_keys (concat (kr_keys ring)) = Some (kr_keys ring)"
proof -
  have len: "\<forall>k \<in> set (kr_keys ring). length k = KEY_LEN" and ne: "kr_keys ring \<noteq> []"
    using assms by (auto simp: keys_ok_def)
  have pos: "0 < KEY_LEN" by (simp add: KEY_LEN_def)
  have "length (concat (kr_keys ring)) = length (kr_keys ring) * KEY_LEN"
    using len by (rule length_concat_fixed)
  moreover from len ne pos have "concat (kr_keys ring) \<noteq> []"
    by (cases "kr_keys ring") auto
  ultimately show ?thesis
    using chunks_exact_concat [OF len pos] by (simp add: parse_keys_def)
qed

lemma chunks_exact_lengths: "k \<in> set (chunks_exact n xs) \<Longrightarrow> length k = n"
proof (induction n xs rule: chunks_exact.induct)
  case (1 n xs)
  show ?case
  proof (cases "n = 0 \<or> length xs < n")
    case True
    with "1.prems" show ?thesis by (simp add: chunks_exact.simps [of n xs])
  next
    case False
    with "1.prems" have "k = take n xs \<or> k \<in> set (chunks_exact n (drop n xs))"
      by (simp add: chunks_exact.simps [of n xs])
    with False "1.IH" [OF False] show ?thesis by auto
  qed
qed

lemma concat_chunks_exact: "0 < n \<Longrightarrow> n dvd length xs \<Longrightarrow> concat (chunks_exact n xs) = xs"
proof (induction n xs rule: chunks_exact.induct)
  case (1 n xs)
  show ?case
  proof (cases "length xs < n")
    case True
    with "1.prems" have "xs = []" by (auto dest: nat_dvd_not_less)
    with "1.prems"(1) show ?thesis by (simp add: chunks_exact.simps)
  next
    case False
    with "1.prems" have "n dvd length (drop n xs)" by (simp add: dvd_diff_nat)
    with False "1.prems"(1) "1.IH" have "concat (chunks_exact n (drop n xs)) = drop n xs" by simp
    with False "1.prems"(1) show ?thesis by (simp add: chunks_exact.simps [of n xs])
  qed
qed

lemma parse_keys_ring_ok:
  assumes "parse_keys raw = Some ks"
  shows "keys_ok ks" and "concat ks = raw"
proof -
  from assms have raw: "raw \<noteq> []" "KEY_LEN dvd length raw" and ks: "ks = chunks_exact KEY_LEN raw"
    by (auto simp: parse_keys_def mod_eq_0_iff_dvd split: if_splits)
  have "0 < KEY_LEN" by (simp add: KEY_LEN_def)
  with raw ks concat_chunks_exact show c: "concat ks = raw" by simp
  with raw have "ks \<noteq> []" by auto
  with ks show "keys_ok ks"
    by (auto simp: keys_ok_def dest: chunks_exact_lengths)
qed

text \<open>Keys are only ever appended: the order in which stored keyrings grow.\<close>

definition keys_grow :: "world \<Rightarrow> world \<Rightarrow> path \<Rightarrow> string \<Rightarrow> bool" where
  "keys_grow w w' dd sid \<longleftrightarrow>
     (\<forall>ks. disk_keys w dd sid = Some ks \<longrightarrow> (\<exists>ks'. disk_keys w' dd sid = Some ks' \<and> prefix ks ks'))"

lemma keys_grow_trans: "keys_grow w w1 dd sid \<Longrightarrow> keys_grow w1 w2 dd sid \<Longrightarrow> keys_grow w w2 dd sid"
  unfolding keys_grow_def by (meson prefix_order.trans)

lemma keys_grow_files: "fs_file w' = fs_file w \<Longrightarrow> keys_grow w w' dd sid"
  by (simp add: keys_grow_def disk_keys_def)

lemma save_keyring_ok:
  "save_keyring dd sid ring w = (Inr u, w') \<Longrightarrow> ring_ok ring \<Longrightarrow> disk_keys w' dd sid = Some (kr_keys ring)"
  by (simp add: disk_keys_def keys_file.save_ok parse_keys_concat)

text \<open>Saving a longer ring over the stored one only adds keys, even when it fails.\<close>

lemma save_keyring_grow:
  assumes "save_keyring dd sid ring w = (r, w')" and "ring_ok ring"
    and "\<And>ks. disk_keys w dd sid = Some ks \<Longrightarrow> prefix ks (kr_keys ring)"
  shows "keys_grow w w' dd sid"
  using keys_file.save_effect [OF assms(1)] assms(2,3)
  by (auto simp: keys_grow_def disk_keys_def parse_keys_concat)

lemma load_existing:
  assumes "load_or_create_keyring dd sid w = (r, w')" and "fs_exists w (keys_path dd sid)"
  shows "fs_file w' = fs_file w" and "r = Inr ring \<Longrightarrow> disk_keys w dd sid = Some (kr_keys ring)"
proof -
  from assms have "io_bind (fs_read (keys_path dd sid)) (\<lambda>raw.
      if raw = [] \<or> length raw mod KEY_LEN \<noteq> 0
      then io_fail (Bail ''keys.bin has invalid length'' [length raw])
      else io_return \<lparr>kr_keys = chunks_exact KEY_LEN raw\<rparr>) w = (r, w')"
    by (simp add: load_or_create_keyring_def)
  then have "fs_file w' = fs_file w \<and> (r = Inr ring \<longrightarrow> disk_keys w dd sid = Some (kr_keys ring))"
  proof (cases rule: io_bind_cases)
    case (err e)
    then show ?thesis using fs_read_files [of "keys_path dd sid" w] by simp
  next
    case (ok raw w1)
    then show ?thesis
      using fs_read_ok [OF ok(1)] fs_read_files [of "keys_path dd sid" w]
      by (auto simp: disk_keys_def parse_keys_def split: if_splits)
  qed
  then show "fs_file w' = fs_file w" and "r = Inr ring \<Longrightarrow> disk_keys w dd sid = Some (kr_keys ring)"
    by auto
qed

lemma load_fresh:
  assumes "load_or_create_keyring dd sid w = (r, w')" and "\<not> fs_exists w (keys_path dd sid)"
  shows "(r = Inr ring \<longrightarrow> disk_keys w' dd sid = Some (kr_keys ring) \<and> length (kr_keys ring) = 1) \<and>
    (\<forall>q. q \<noteq> keys_path dd sid \<longrightarrow> q \<noteq> keys_tmp dd sid \<longrightarrow> fs_file w' q = fs_file w q)"
proof -
  obtain k w1 where 1: "fill_bytes KEY_LEN w = (Inr k, w1)" "length k = KEY_LEN" "fs_at w1 = fs_at w"
    using fill_bytes_result by (metis surj_pair)
  then have f1: "fs_file w1 = fs_file w" by (metis fs_view_cong)
  let ?ring = "\<lparr>kr_keys = [k]\<rparr>"
  from assms 1 have "io_bind (save_keyring dd sid ?ring) (\<lambda>_. io_return ?ring) w1 = (r, w')"
    by (simp add: load_or_create_keyring_def Let_def)
  moreover have "ring_ok ?ring" using 1 by (simp add: keys_ok_def)
  ultimately show ?thesis
    using f1 by (cases rule: io_bind_cases)
      (auto dest: save_keyring_ok keys_file.save_frame)
qed

lemma load_ok:
  assumes "load_or_create_keyring dd sid w = (Inr ring, w')"
  shows "disk_keys w' dd sid = Some (kr_keys ring)" and "ring_ok ring"
proof -
  show d: "disk_keys w' dd sid = Some (kr_keys ring)"
  proof (cases "fs_exists w (keys_path dd sid)")
    case True
    with load_existing [OF assms] show ?thesis by (simp add: disk_keys_def)
  next
    case False
    with load_fresh [OF assms] show ?thesis by simp
  qed
  then show "ring_ok ring"
    by (auto simp: disk_keys_def bind_eq_Some_conv dest: parse_keys_ring_ok)
qed

lemma disk_keys_exists: "disk_keys w dd sid = Some ks \<Longrightarrow> fs_exists w (keys_path dd sid)"
  by (auto simp: disk_keys_def fs_file_def fs_exists_def bind_eq_Some_conv split: option.splits)

lemma load_grow:
  assumes "load_or_create_keyring dd sid w = (r, w')"
  shows "keys_grow w w' dd sid"
proof (cases "fs_exists w (keys_path dd sid)")
  case True
  with load_existing [OF assms] show ?thesis by (simp add: keys_grow_files)
next
  case False
  then show ?thesis by (auto simp: keys_grow_def dest: disk_keys_exists)
qed

text \<open>A stored ring is what loading returns, and loading it changes no file.\<close>

lemma load_stored:
  assumes "load_or_create_keyring dd sid w = (Inr ring, w')" and "disk_keys w dd sid = Some ks"
  shows "kr_keys ring = ks" and "fs_file w' = fs_file w"
  using load_existing [OF assms(1) disk_keys_exists [OF assms(2)]] assms(2) by auto

lemma append_key_grow:
  assumes "load_or_create_keyring dd sid w = (Inr ring, w1)" and "fs_file w2 = fs_file w1"
    and "save_keyring dd sid (ring\<lparr>kr_keys := kr_keys ring @ [k]\<rparr>) w2 = (r, w')"
    and "length k = KEY_LEN"
  shows "keys_grow w w' dd sid"
proof -
  have d: "disk_keys w2 dd sid = Some (kr_keys ring)" and ok: "keys_ok (kr_keys ring @ [k])"
    using load_ok [OF assms(1)] assms(2,4) by (simp_all add: disk_keys_def keys_ok_def)
  have "keys_grow w2 w' dd sid"
    using save_keyring_grow [OF assms(3)] ok d by simp
  then show ?thesis
    using load_grow [OF assms(1)] keys_grow_files [OF assms(2)] by (blast intro: keys_grow_trans)
qed

lemma rotate_keyring_grow:
  assumes "rotate_keyring dd sid w = (r, w')"
  shows "keys_grow w w' dd sid"
  using assms unfolding rotate_keyring_def
proof (cases rule: io_bind_cases)
  case (err e)
  then show ?thesis by (simp add: load_grow)
next
  case (ok ring w1)
  obtain k w2 where f: "fill_bytes KEY_LEN w1 = (Inr k, w2)" "length k = KEY_LEN" "fs_at w2 = fs_at w1"
    using fill_bytes_result by (metis surj_pair)
  from ok(2) f(1) obtain r' where
    "save_keyring dd sid (ring\<lparr>kr_keys := kr_keys ring @ [k]\<rparr>) w2 = (r', w')"
    by (auto simp: Let_def elim: io_bind_cases)
  with ok(1) f show ?thesis
    using append_key_grow fs_view_cong by blast
qed

lemma install_epoch_key_grow:
  assumes "install_epoch_key dd sid e k w = (r, w')" and "length k = KEY_LEN"
  shows "keys_grow w w' dd sid"
  using assms(1) unfolding install_epoch_key_def
proof (cases rule: io_bind_cases)
  case (err e)
  then show ?thesis by (simp add: load_grow)
next
  case (ok ring w1)
  from ok(2) have "w' = w1 \<or> (\<exists>r'. save_keyring dd sid (ring\<lparr>kr_keys := kr_keys ring @ [k]\<rparr>) w1 = (r', w'))"
    by (auto simp: Let_def split: if_splits option.splits elim: io_bind_cases)
  with ok(1) assms(2) show ?thesis
    using append_key_grow [OF ok(1) refl] load_grow [OF ok(1)] by blast
qed

lemma install_keyring_grow:
  assumes "install_keyring dd sid ks w = (r, w')"
  shows "keys_grow w w' dd sid"
  using assms by (auto simp: install_keyring_def keys_grow_def split: if_splits dest: disk_keys_exists)

lemma unat_epoch_bound: "n \<le> 2 ^ 58 \<Longrightarrow> unat (of_nat n :: u64) = n"
  by (simp add: unat_of_nat)

lemma io_errors_only_save_keyring [intro, simp]: "io_errors_only (save_keyring dd sid ring)"
  by (auto simp: save_keyring_def Let_def)

lemma load_stored_errors:
  assumes "load_or_create_keyring dd sid w = (Inl e, w')" and "disk_keys w dd sid = Some ks"
  shows "e = IoError" and "fs_file w' = fs_file w"
proof -
  have ex: "fs_exists w (keys_path dd sid)" by (rule disk_keys_exists [OF assms(2)])
  from assms(1) ex have "io_bind (fs_read (keys_path dd sid)) (\<lambda>raw.
      if raw = [] \<or> length raw mod KEY_LEN \<noteq> 0
      then io_fail (Bail ''keys.bin has invalid length'' [length raw])
      else io_return \<lparr>kr_keys = chunks_exact KEY_LEN raw\<rparr>) w = (Inl e, w')"
    by (simp add: load_or_create_keyring_def)
  then show "e = IoError"
  proof (cases rule: io_bind_cases)
    case (err e')
    then show ?thesis using io_errors_only_calls(2) unfolding io_errors_only_def by blast
  next
    case (ok raw w1)
    with fs_read_ok [OF ok(1)] assms(2) show ?thesis
      by (auto simp: disk_keys_def parse_keys_def split: if_splits)
  qed
  show "fs_file w' = fs_file w" using load_existing(1) [OF assms(1) ex] .
qed

lemma keeps_faults_save_keyring [intro, simp]: "keeps_faults (save_keyring dd sid ring)"
  by (auto simp: save_keyring_def Let_def)

lemma key_for_epoch_nth:
  "key_for_epoch ring e = (if e \<noteq> 0 \<and> unat e \<le> length (kr_keys ring)
     then Some (kr_keys ring ! (unat e - 1)) else None)"
proof (cases "e = 0")
  case False
  then have "unat (e - 1) = unat e - 1"
    by (simp add: unat_minus_one)
  moreover have "0 < unat e" using False by (simp add: unat_gt_0)
  ultimately show ?thesis using False by (auto simp: key_for_epoch_def Let_def)
qed (simp add: key_for_epoch_def)

lemma key_for_epoch_mono:
  assumes "key_for_epoch r1 e = Some k" and "prefix (kr_keys r1) (kr_keys r2)"
  shows "key_for_epoch r2 e = Some k"
proof -
  from assms(2) obtain zs where zs: "kr_keys r2 = kr_keys r1 @ zs" by (auto simp: prefix_def)
  from assms(1) have e: "e \<noteq> 0" "unat e \<le> length (kr_keys r1)" "k = kr_keys r1 ! (unat e - 1)"
    by (auto simp: key_for_epoch_nth split: if_splits)
  then have "unat e - 1 < length (kr_keys r1)"
    by (metis One_nat_def diff_Suc_less le_zero_eq nat_less_le not_le order_less_le_trans unat_eq_zero)
  with e zs show ?thesis by (simp add: key_for_epoch_nth nth_append)
qed

lemma key_for_current_epoch:
  assumes "ring_ok ring" and "length (kr_keys ring) < 2 ^ 58"
  shows "key_for_epoch ring (current_epoch ring) = Some (last (kr_keys ring))"
proof -
  have "unat (current_epoch ring) = length (kr_keys ring)"
    using assms(2) by (simp add: current_epoch_def unat_epoch_bound)
  moreover from this assms(1) have "current_epoch ring \<noteq> 0"
    by (auto simp: keys_ok_def)
  ultimately show ?thesis
    using assms(1) by (simp add: key_for_epoch_nth keys_ok_def last_conv_nth)
qed

text \<open>Saving succeeds where nothing fails and no directory is in the way.\<close>

text \<open>
  A share whose keyring is stored and whose file system cooperates: loading returns the
  ring, and saving a longer one leads to such a state again.
\<close>

definition share_ready :: "world \<Rightarrow> path \<Rightarrow> string \<Rightarrow> key list \<Rightarrow> bool" where
  "share_ready w dd sid ks \<longleftrightarrow> fault_free w \<and> fs_wf w \<and>
     fs_at w (keys_tmp dd sid) \<noteq> Some NDir \<and> disk_keys w dd sid = Some ks"

lemma load_ready:
  assumes "share_ready w dd sid ks"
  shows "\<exists>w'. load_or_create_keyring dd sid w = (Inr \<lparr>kr_keys = ks\<rparr>, w') \<and> share_ready w' dd sid ks"
proof -
  from assms obtain raw where raw: "fs_file w (keys_path dd sid) = Some raw" "parse_keys raw = Some ks"
    by (auto simp: share_ready_def disk_keys_def bind_eq_Some_conv)
  have "fs_exists w (keys_path dd sid)"
    using assms by (auto simp: share_ready_def dest: disk_keys_exists)
  then have "load_or_create_keyring dd sid w = (Inr \<lparr>kr_keys = ks\<rparr>, w\<lparr>w_tick := Suc (w_tick w)\<rparr>)"
    using raw fs_read_progress [OF _ raw(1)] assms
    by (auto simp: load_or_create_keyring_def parse_keys_def share_ready_def split: if_splits)
  moreover have "share_ready (w\<lparr>w_tick := Suc (w_tick w)\<rparr>) dd sid ks"
    using assms by (simp add: share_ready_def disk_keys_def)
  ultimately show ?thesis by blast
qed

lemma save_ready:
  assumes "share_ready w dd sid ks" and "ring_ok ring"
  shows "\<exists>w'. save_keyring dd sid ring w = (Inr (), w') \<and> share_ready w' dd sid (kr_keys ring)"
proof -
  let ?bs = "concat (kr_keys ring)"
  from assms(1) have w: "fault_free w" "fs_wf w" "fs_at w (keys_tmp dd sid) \<noteq> Some NDir"
    and d: "disk_keys w dd sid = Some ks" by (simp_all add: share_ready_def)
  from d obtain m0 raw where at0: "fs_at w (keys_path dd sid) = Some (NFile m0 raw)"
    by (auto simp: disk_keys_def fs_file_def bind_eq_Some_conv split: option.splits node.splits)
  have dir: "fs_is_dir w (share_dir dd sid)"
    using w(2) at0 by (fastforce simp: fs_wf_def keys_path_def)
  obtain w1 m where 1: "fs_replace (keys_tmp dd sid) (keys_path dd sid) ?bs w = (Inr (), w1)"
    and wf: "fault_free w1" "fs_wf w1"
    and at: "fs_at w1 = (fs_at w)(keys_tmp dd sid := None, keys_path dd sid \<mapsto> NFile m ?bs)"
    by (rule fs_replace_progress [OF w(1,2) dir keys_tmp_eq keys_path_def _ w(3)]) (simp_all add: at0)
  obtain w2 where 2: "fs_chmod (keys_path dd sid) mode_0600 w1 = (Inr (), w2)"
    and wf2: "fault_free w2" "fs_wf w2"
    and at2: "fs_at w2 = (fs_at w1)(keys_path dd sid \<mapsto> NFile mode_0600 ?bs)"
    by (rule fs_chmod_progress [OF wf, of "keys_path dd sid" m ?bs]) (simp_all add: at keys_path_def)
  have s: "save_keyring dd sid ring w = (Inr (), w2)" using 1 2 by (simp add: save_keyring_def Let_def)
  moreover have "share_ready w2 dd sid (kr_keys ring)"
    using wf2 save_keyring_ok [OF s assms(2)] by (simp add: share_ready_def at2 at)
  ultimately show ?thesis by blast
qed

lemma disk_keys_ok: "disk_keys w dd sid = Some ks \<Longrightarrow> keys_ok ks"
  by (auto simp: disk_keys_def bind_eq_Some_conv dest: parse_keys_ring_ok)

lemma share_ready_keys_ok: "share_ready w dd sid ks \<Longrightarrow> keys_ok ks"
  by (auto simp: share_ready_def dest: disk_keys_ok)

text \<open>On such a share the outcome of installing an epoch key is decided by its number.\<close>

lemma install_ready:
  assumes "share_ready w dd sid ks" and "length ks < 2 ^ 58" and "length k = KEY_LEN"
  shows "unat e = length ks + 1 \<Longrightarrow>
      \<exists>w'. install_epoch_key dd sid e k w = (Inr Installed, w') \<and> share_ready w' dd sid (ks @ [k])"
    and "length ks + 1 < unat e \<Longrightarrow>
      \<exists>a b w'. install_epoch_key dd sid e k w = (Inr (Gap a b), w') \<and> share_ready w' dd sid ks"
    and "unat e < length ks \<or> unat e = length ks \<and> last ks = k \<Longrightarrow>
      \<exists>r w'. install_epoch_key dd sid e k w = (Inr r, w') \<and> r \<in> {Stale, Idempotent} \<and> share_ready w' dd sid ks"
proof -
  obtain w1 where l: "load_or_create_keyring dd sid w = (Inr \<lparr>kr_keys = ks\<rparr>, w1)"
    and w1: "share_ready w1 dd sid ks" using load_ready [OF assms(1)] by blast
  let ?ring = "\<lparr>kr_keys = ks\<rparr>"
  have rok: "ring_ok ?ring" using share_ready_keys_ok [OF assms(1)] by simp
  have cur: "unat (current_epoch ?ring) = length ks" "unat (current_epoch ?ring + 1) = length ks + 1"
    using assms(2) unat_epoch_bound [of "length ks"] unat_epoch_bound [of "length ks + 1"]
    by (simp_all add: current_epoch_def add.commute)
  have eq: "e = current_epoch ?ring \<longleftrightarrow> unat e = length ks"
    by (metis cur(1) word_unat_eq_iff)
  have lt: "e < current_epoch ?ring \<longleftrightarrow> unat e < length ks"
      "current_epoch ?ring + 1 < e \<longleftrightarrow> length ks + 1 < unat e"
    by (simp_all add: word_less_nat_alt cur)
  have kc: "key_for_epoch ?ring (current_epoch ?ring) = Some (last ks)"
    using key_for_current_epoch [OF rok] assms(2) by simp
  show "\<exists>w'. install_epoch_key dd sid e k w = (Inr Installed, w') \<and> share_ready w' dd sid (ks @ [k])"
    if "unat e = length ks + 1"
  proof -
    have "ring_ok \<lparr>kr_keys = ks @ [k]\<rparr>" using rok assms(3) by (simp add: keys_ok_def)
    from save_ready [OF w1 this] obtain w2 where
      "save_keyring dd sid \<lparr>kr_keys = ks @ [k]\<rparr> w1 = (Inr (), w2)" "share_ready w2 dd sid (ks @ [k])" by auto
    with l eq lt that show ?thesis by (simp add: install_epoch_key_def Let_def)
  qed
  show "\<exists>a b w'. install_epoch_key dd sid e k w = (Inr (Gap a b), w') \<and> share_ready w' dd sid ks"
    if "length ks + 1 < unat e"
    using l eq lt that w1 by (simp add: install_epoch_key_def Let_def)
  show "\<exists>r w'. install_epoch_key dd sid e k w = (Inr r, w') \<and> r \<in> {Stale, Idempotent} \<and> share_ready w' dd sid ks"
    if "unat e < length ks \<or> unat e = length ks \<and> last ks = k"
    using l eq lt that w1 kc by (auto simp: install_epoch_key_def Let_def)
qed

lemma rotate_keyring_progress:
  assumes "fault_free w" "fs_wf w" "fs_at w (keys_tmp dd sid) \<noteq> Some NDir"
    and "disk_keys w dd sid = Some ks" "rotate_keyring dd sid w = (r, w')"
  shows "is_ok r"
proof -
  have "share_ready w dd sid ks" using assms by (simp add: share_ready_def)
  then obtain w1 where l: "load_or_create_keyring dd sid w = (Inr \<lparr>kr_keys = ks\<rparr>, w1)"
    and w1: "share_ready w1 dd sid ks" using load_ready by blast
  obtain k w2 where f: "fill_bytes KEY_LEN w1 = (Inr k, w2)" "length k = KEY_LEN"
    and w2: "w2 = w1\<lparr>w_rpos := w_rpos w1 + KEY_LEN\<rparr>"
    by (simp add: fill_bytes_def)
  have "share_ready w2 dd sid ks" using w1 by (simp add: share_ready_def disk_keys_def w2)
  moreover have "ring_ok \<lparr>kr_keys = ks @ [k]\<rparr>"
    using share_ready_keys_ok [OF w1] f(2) by (simp add: keys_ok_def)
  ultimately obtain w3 where "save_keyring dd sid \<lparr>kr_keys = ks @ [k]\<rparr> w2 = (Inr (), w3)"
    using save_ready by blast
  with assms(5) l f show ?thesis by (auto simp: rotate_keyring_def Let_def)
qed

lemma rotate_keyring_ok:
  assumes "disk_keys w dd sid = Some ks" and "length ks < 2 ^ 58"
    and "rotate_keyring dd sid w = (Inr e, w')"
  shows "unat e = length ks + 1" and "\<exists>k. length k = KEY_LEN \<and> disk_keys w' dd sid = Some (ks @ [k])"
proof -
  from assms(3) obtain ring w1 k w2 u where
    l: "load_or_create_keyring dd sid w = (Inr ring, w1)" and
    f: "fill_bytes KEY_LEN w1 = (Inr k, w2)" and
    s: "save_keyring dd sid (ring\<lparr>kr_keys := kr_keys ring @ [k]\<rparr>) w2 = (Inr u, w')" and
    e: "e = current_epoch (ring\<lparr>kr_keys := kr_keys ring @ [k]\<rparr>)"
    by (auto simp: rotate_keyring_def Let_def io_bind_eq_Inr)
  have ks: "kr_keys ring = ks" using load_stored [OF l assms(1)] by simp
  have k: "length k = KEY_LEN" using fill_bytes_result [OF f] by simp
  have ok: "keys_ok (ks @ [k])" using load_ok(2) [OF l] ks k by (simp add: keys_ok_def)
  have "disk_keys w' dd sid = Some (ks @ [k])"
    using save_keyring_ok [OF s] ok ks by simp
  with k show "\<exists>k. length k = KEY_LEN \<and> disk_keys w' dd sid = Some (ks @ [k])" by blast
  show "unat e = length ks + 1"
    using e ks assms(2) unat_epoch_bound [of "length (ks @ [k])"] by (simp add: current_epoch_def)
qed

text \<open>The key operations touch no file but the share's own keyring.\<close>

lemma load_frame:
  assumes "load_or_create_keyring dd sid w = (r, w')" and "q \<notin> {keys_path dd sid, keys_tmp dd sid}"
  shows "fs_file w' q = fs_file w q"
  using assms load_existing(1) [OF assms(1)] load_fresh [OF assms(1)] by (cases "fs_exists w (keys_path dd sid)") auto

lemma rotate_keyring_frame:
  assumes "rotate_keyring dd sid w = (r, w')" and "q \<notin> {keys_path dd sid, keys_tmp dd sid}"
  shows "fs_file w' q = fs_file w q"
  using assms(1) unfolding rotate_keyring_def
proof (cases rule: io_bind_cases)
  case (err e)
  with load_frame assms(2) show ?thesis by blast
next
  case (ok ring w1)
  obtain k w2 where f: "fill_bytes KEY_LEN w1 = (Inr k, w2)" "fs_file w2 = fs_file w1"
    using fill_bytes_files [of KEY_LEN w1] by (metis fill_bytes_result snd_conv surj_pair)
  from ok(2) f(1) obtain r' where "save_keyring dd sid (ring\<lparr>kr_keys := kr_keys ring @ [k]\<rparr>) w2 = (r', w')"
    by (auto simp: Let_def elim: io_bind_cases)
  with keys_file.save_keeps assms(2) f(2) load_frame [OF ok(1) assms(2)] show ?thesis by metis
qed

text \<open>Parsing a blob that \<open>encrypt\<close> laid out.\<close>

lemma decrypt_layout:
  assumes "length n = NONCE_LEN" and "TAG_LEN \<le> length ct" and "key_for_epoch ring e = Some k"
    and "aead_open C k n ct = Some pt"
  shows "decrypt C ring (to_le_bytes e @ n @ ct) = Inr pt"
proof -
  let ?b = "to_le_bytes e @ n @ ct"
  have "take EPOCH_LEN ?b = to_le_bytes e" "take (HEADER_LEN - EPOCH_LEN) (drop EPOCH_LEN ?b) = n"
    "drop HEADER_LEN ?b = ct" "\<not> length ?b < HEADER_LEN + TAG_LEN"
    using assms(1,2) by (simp_all add: crypto_consts)
  with assms(3,4) show ?thesis by (simp only: decrypt_def Let_def) simp
qed

text \<open>What \<open>encrypt\<close> sealed opens with the ring and with every ring that extends it.\<close>

lemma encrypt_blob:
  assumes "aead_ok C" and "ring_ok ring" and "encrypt C ring pt w = (Inr blob, w')"
  obtains n ct where "length n = NONCE_LEN" "length ct = length pt + TAG_LEN"
    "aead_open C (last (kr_keys ring)) n ct = Some pt" "blob = to_le_bytes (current_epoch ring) @ n @ ct"
proof -
  let ?k = "last (kr_keys ring)"
  obtain n w1 where n: "fill_bytes NONCE_LEN w = (Inr n, w1)" "length n = NONCE_LEN"
    using fill_bytes_result by (metis surj_pair)
  have k: "current_key ring = Inr ?k" "length ?k = KEY_LEN"
    using assms(2) by (auto simp: current_key_def keys_ok_def)
  from assms(3) n k obtain ct where ct: "aead_seal C ?k n pt = Some ct"
    and blob: "blob = to_le_bytes (current_epoch ring) @ n @ ct"
    by (auto simp: encrypt_def Let_def io_bind_def split: option.splits)
  have "length ct = length pt + TAG_LEN" "aead_open C ?k n ct = Some pt"
    using assms(1) ct n(2) k(2) unfolding aead_ok_def by blast+
  with n(2) blob show thesis by (intro that)
qed

lemma sealed_opens:
  assumes "aead_ok C" and "ring_ok ring" and "length (kr_keys ring) < 2 ^ 58"
    and "encrypt C ring pt w = (Inr blob, w')" and "prefix (kr_keys ring) (kr_keys later)"
  shows "decrypt C later blob = Inr pt"
  using assms(1,2,4)
proof (rule encrypt_blob)
  fix n ct
  assume *: "length n = NONCE_LEN" "length ct = length pt + TAG_LEN" "aead_open C (last (kr_keys ring)) n ct = Some pt"
    and blob: "blob = to_le_bytes (current_epoch ring) @ n @ ct"
  have "key_for_epoch later (current_epoch ring) = Some (last (kr_keys ring))"
    using key_for_current_epoch [OF assms(2,3)] assms(5) by (rule key_for_epoch_mono)
  with * show ?thesis unfolding blob by (intro decrypt_layout) simp_all
qed

text \<open>A ring that ends before the epoch of the message does not open it.\<close>

lemma sealed_locked:
  assumes "aead_ok C" and "ring_ok ring" and "length (kr_keys ring) \<le> 2 ^ 58"
    and "encrypt C ring pt w = (Inr blob, w')" and "length ks < length (kr_keys ring)"
  shows "decrypt C \<lparr>kr_keys = ks\<rparr> blob = Inl (Bail ''no key for epoch'' [length (kr_keys ring), length ks])"
  using assms(1,2,4)
proof (rule encrypt_blob)
  fix n ct
  assume *: "length n = NONCE_LEN" "length ct = length pt + TAG_LEN"
    and blob: "blob = to_le_bytes (current_epoch ring) @ n @ ct"
  have ue: "unat (current_epoch ring) = length (kr_keys ring)" "unat (current_epoch \<lparr>kr_keys = ks\<rparr>) = length ks"
    using assms(3,5) by (simp_all add: current_epoch_def unat_epoch_bound)
  then have "key_for_epoch \<lparr>kr_keys = ks\<rparr> (current_epoch ring) = None" using assms(5) by (simp add: key_for_epoch_nth)
  moreover have "\<not> length blob < HEADER_LEN + TAG_LEN" "from_le_bytes (take EPOCH_LEN blob) = current_epoch ring"
    using * by (simp_all add: blob crypto_consts)
  ultimately show ?thesis using ue by (simp add: decrypt_def)
qed

section \<open>Properties\<close>

text \<open>A share with one stored key, and a cipher for the examples: the tag is all zeros.\<close>

definition demo_share :: world where
  "demo_share = calm_world
     [([''d''], NDir), ([''d'', ''shares''], NDir), ([''d'', ''shares'', ''s''], NDir),
      ([''d'', ''shares'', ''s'', ''keys.bin''], NFile 384 (replicate 32 7))]"

definition demo_crypto :: crypto_crates where
  "demo_crypto = \<lparr>blake3 = (\<lambda>m. take 32 (m @ replicate 32 0)),
     aead_seal = (\<lambda>k n m. Some (m @ replicate 16 0)),
     aead_open = (\<lambda>k n c. if drop (length c - 16) c = replicate 16 0
        then Some (take (length c - 16) c) else None)\<rparr>"

lemma demo_aead_ok: "aead_ok demo_crypto"
  by (simp add: aead_ok_def demo_crypto_def crypto_consts)

lemma demo_disk_keys: "disk_keys demo_share [''d''] ''s'' = Some [replicate 32 7]"
  by code_simp

text \<open>
  A keyring survives a restart: once saving it has succeeded, loading returns
  exactly the same keys and changes no file.
\<close>

theorem keyring_round_trip:
  assumes "ring_ok ring" and "save_keyring dd sid ring w = (Inr u, w')" and "fault_free w'"
  shows "\<exists>w''. load_or_create_keyring dd sid w' = (Inr ring, w'') \<and> fs_file w'' = fs_file w'"
proof -
  let ?raw = "concat (kr_keys ring)"
  have f: "fs_file w' (keys_path dd sid) = Some ?raw"
    using assms(2) by (rule keys_file.save_ok)
  have ex: "fs_exists w' (keys_path dd sid)"
    using f by (auto simp: fs_file_def fs_exists_def split: option.splits)
  have "?raw \<noteq> [] \<and> length ?raw mod KEY_LEN = 0 \<and> chunks_exact KEY_LEN ?raw = kr_keys ring"
    using parse_keys_concat [OF assms(1)] by (auto simp: parse_keys_def split: if_splits)
  then show ?thesis
    using ex fs_read_progress [OF assms(3) f] by (simp add: load_or_create_keyring_def)
qed

theorem keyring_round_trip_witness:
  "\<exists>w'. load_or_create_keyring [''d''] ''s''
     (snd (save_keyring [''d''] ''s'' \<lparr>kr_keys = [replicate 32 7]\<rparr> (calm_world []))) =
     (Inr \<lparr>kr_keys = [replicate 32 7]\<rparr>, w')"
proof -
  let ?r = "\<lparr>kr_keys = [replicate 32 7]\<rparr>"
  have ok: "ring_ok ?r" by (simp add: keys_ok_def KEY_LEN_def)
  have "fst (save_keyring [''d''] ''s'' ?r (calm_world [])) = Inr ()" by code_simp
  then have s: "save_keyring [''d''] ''s'' ?r (calm_world []) =
      (Inr (), snd (save_keyring [''d''] ''s'' ?r (calm_world [])))"
    by (metis prod.collapse)
  have "fault_free (snd (save_keyring [''d''] ''s'' ?r (calm_world [])))"
    by (intro keeps_faults_fault_free) simp_all
  with keyring_round_trip [OF ok s] show ?thesis by blast
qed

text \<open>
  C22. Crash safety of \<open>keys.bin\<close>: whichever system calls fail while a keyring is
  saved, the file holds its old contents or exactly the new keys, the file of every
  other share is untouched, and a save that reports success leaves mode 0600.
\<close>

theorem save_keyring_crash_safe:
  assumes "save_keyring dd sid ring w = (r, w')"
  shows "fs_file w' (keys_path dd sid) \<in> {fs_file w (keys_path dd sid), Some (concat (kr_keys ring))} \<and>
    (is_ok r \<longrightarrow> fs_file w' (keys_path dd sid) = Some (concat (kr_keys ring)) \<and>
       fs_mode w' (keys_path dd sid) = Some mode_0600) \<and>
    (sid' \<noteq> sid \<longrightarrow> fs_file w' (keys_path dd sid') = fs_file w (keys_path dd sid'))"
proof -
  have m: "is_ok r \<longrightarrow> fs_mode w' (keys_path dd sid) = Some mode_0600"
  proof (cases r)
    case (Inr u)
    with assms have "io_bind (fs_replace (keys_tmp dd sid) (keys_path dd sid) (concat (kr_keys ring)))
        (\<lambda>_. fs_chmod (keys_path dd sid) mode_0600) w = (Inr u, w')"
      by (simp add: save_keyring_def Let_def)
    then show ?thesis
      by (simp add: replace_chmod_mode)
  qed simp
  have "sid' \<noteq> sid \<Longrightarrow> keys_path dd sid' \<notin> {keys_path dd sid, keys_tmp dd sid}"
    unfolding keys_tmp_eq by (simp add: keys_path_def)
  with m keys_file.save_effect [OF assms] keys_file.save_keeps [OF assms] show ?thesis
    by auto
qed

theorem save_keyring_crash_safe_witness:
  "fst (save_keyring [''d''] ''s'' \<lparr>kr_keys = [replicate 32 7, replicate 32 8]\<rparr>
     (demo_share\<lparr>w_fault := (\<lambda>n. if n = 1 then Some 20 else None)\<rparr>)) = Inl IoError \<and>
   fs_file (snd (save_keyring [''d''] ''s'' \<lparr>kr_keys = [replicate 32 7, replicate 32 8]\<rparr>
     (demo_share\<lparr>w_fault := (\<lambda>n. if n = 1 then Some 20 else None)\<rparr>))) (keys_path [''d''] ''s'') \<in>
     {Some (replicate 32 7), Some (replicate 32 7 @ replicate 32 8)}"
proof -
  let ?w = "demo_share\<lparr>w_fault := (\<lambda>n. if n = 1 then Some 20 else None)\<rparr>"
    and ?ring = "\<lparr>kr_keys = [replicate 32 7, replicate 32 8]\<rparr>"
  have "fst (save_keyring [''d''] ''s'' ?ring ?w) = Inl IoError" by code_simp
  moreover have "fs_file ?w (keys_path [''d''] ''s'') = Some (replicate 32 7)" by code_simp
  ultimately show ?thesis
    using save_keyring_crash_safe [of "[''d'']" "''s''" ?ring ?w, OF surjective_pairing] by simp
qed



text \<open>
  C18. Decryption inverts encryption: a blob sealed under the current epoch opens to
  its plaintext with that keyring and with every keyring that extends it, so content
  written before a key rotation stays readable after it.
\<close>

theorem decrypt_encrypt:
  assumes "aead_ok C" and "ring_ok ring" and "length (kr_keys ring) < 2 ^ 58"
    and "encrypt C ring pt w = (Inr blob, w')" and "prefix (kr_keys ring) (kr_keys later)"
  shows "decrypt C later blob = Inr pt"
  using assms by (rule sealed_opens)

theorem decrypt_encrypt_witness:
  "\<exists>blob. fst (encrypt demo_crypto \<lparr>kr_keys = [replicate 32 7]\<rparr> (as_bytes ''hello'') demo_share) = Inr blob \<and>
     decrypt demo_crypto \<lparr>kr_keys = [replicate 32 7, replicate 32 8]\<rparr> blob = Inr (as_bytes ''hello'')"
proof -
  let ?r = "\<lparr>kr_keys = [replicate 32 7]\<rparr>"
  have "is_ok (fst (encrypt demo_crypto ?r (as_bytes ''hello'') demo_share))" by code_simp
  then obtain blob where "fst (encrypt demo_crypto ?r (as_bytes ''hello'') demo_share) = Inr blob"
    by (auto simp: is_ok_iff)
  moreover from this have "encrypt demo_crypto ?r (as_bytes ''hello'') demo_share =
      (Inr blob, snd (encrypt demo_crypto ?r (as_bytes ''hello'') demo_share))"
    by (metis prod.collapse)
  ultimately show ?thesis
    using decrypt_encrypt [OF demo_aead_ok, of ?r "as_bytes ''hello''" demo_share blob _
        "\<lparr>kr_keys = [replicate 32 7, replicate 32 8]\<rparr>"]
    by (simp add: keys_ok_def KEY_LEN_def)
qed



text \<open>
  Rotating the key of a share with a stored keyring appends exactly one new key
  of 32 bytes and returns the number of the epoch it belongs to; when no system call
  fails it does succeed.
\<close>

theorem rotate_keyring_appends:
  assumes "disk_keys w dd sid = Some ks" and "length ks < 2 ^ 58"
    and "rotate_keyring dd sid w = (r, w')"
  shows "(\<forall>e. r = Inr e \<longrightarrow> unat e = length ks + 1 \<and>
      (\<exists>k. length k = KEY_LEN \<and> disk_keys w' dd sid = Some (ks @ [k]))) \<and>
    (fault_free w \<and> fs_wf w \<and> fs_at w (keys_tmp dd sid) \<noteq> Some NDir \<longrightarrow> is_ok r)"
  using rotate_keyring_ok [OF assms(1,2)] rotate_keyring_progress [OF _ _ _ assms(1,3)] assms(3) by blast

theorem rotate_keyring_appends_witness:
  "\<exists>e k. fst (rotate_keyring [''d''] ''s'' demo_share) = Inr e \<and> unat e = 2 \<and>
     disk_keys (snd (rotate_keyring [''d''] ''s'' demo_share)) [''d''] ''s'' = Some [replicate 32 7, k]"
proof -
  have "is_ok (fst (rotate_keyring [''d''] ''s'' demo_share))" by code_simp
  then obtain e where "fst (rotate_keyring [''d''] ''s'' demo_share) = Inr e" by (auto simp: is_ok_iff)
  with rotate_keyring_appends [OF demo_disk_keys _ surjective_pairing] show ?thesis by auto
qed

text \<open>
  C21. The decision table of installing a remote epoch key: only the epoch right after
  the current one is appended; the current epoch is idempotent for the same key and a
  conflict for another; older ones are stale, later ones a gap.  Nothing but an append
  changes the stored keys, and besides the conflict only a failing system call is an
  error.
\<close>

theorem install_epoch_key_decision:
  assumes "disk_keys w dd sid = Some ks" and "length ks < 2 ^ 58" and "length k = KEY_LEN"
    and "install_epoch_key dd sid e k w = (r, w')"
  shows "(r = Inl IoError \<or>
      r = (if unat e = length ks then
             if last ks = k then Inr Idempotent
             else Inl (Bail ''epoch already populated with a different key'' [unat e])
           else if unat e < length ks then Inr Stale
           else if length ks + 1 < unat e then Inr (Gap (of_nat (length ks)) e)
           else Inr Installed)) \<and>
    (r = Inr Installed \<longrightarrow> disk_keys w' dd sid = Some (ks @ [k])) \<and>
    (unat e \<noteq> length ks + 1 \<longrightarrow> fs_file w' = fs_file w)"
  using assms(4) unfolding install_epoch_key_def
proof (cases rule: io_bind_cases)
  case (err e')
  with load_stored_errors [OF err(1) assms(1)] show ?thesis by simp
next
  case (ok ring w1)
  let ?ring = "ring\<lparr>kr_keys := kr_keys ring @ [k]\<rparr>"
  have ks: "kr_keys ring = ks" and f: "fs_file w1 = fs_file w"
    using load_stored [OF ok(1) assms(1)] by simp_all
  have rok: "ring_ok ring" by (rule load_ok(2) [OF ok(1)])
  have cur: "unat (current_epoch ring) = length ks" "unat (current_epoch ring + 1) = length ks + 1"
    using assms(2) ks unat_epoch_bound [of "length ks"] unat_epoch_bound [of "length ks + 1"]
    by (simp_all add: current_epoch_def add.commute)
  have kc: "key_for_epoch ring (current_epoch ring) = Some (last ks)"
    using key_for_current_epoch [OF rok] assms(2) ks by simp
  have eq: "e = current_epoch ring \<longleftrightarrow> unat e = length ks"
    by (metis cur(1) word_unat_eq_iff)
  have lt: "e < current_epoch ring \<longleftrightarrow> unat e < length ks"
      "current_epoch ring + 1 < e \<longleftrightarrow> length ks + 1 < unat e"
    by (simp_all add: word_less_nat_alt cur)
  show ?thesis
  proof (cases "unat e = length ks + 1")
    case True
    with ok(2) eq lt have "io_bind (save_keyring dd sid ?ring) (\<lambda>_. io_return Installed) w1 = (r, w')"
      by (simp add: Let_def)
    then show ?thesis
    proof (cases rule: io_bind_cases)
      case (err e')
      then have "e' = IoError" using io_errors_only_save_keyring unfolding io_errors_only_def by blast
      with err True show ?thesis by simp
    next
      case s: (ok u w2)
      have "disk_keys w2 dd sid = Some (ks @ [k])"
        using save_keyring_ok [OF s(1)] rok ks assms(3) by (simp add: keys_ok_def)
      with s True show ?thesis by simp
    qed
  next
    case False
    with ok(2) eq lt kc f show ?thesis
      by (auto simp: Let_def current_epoch_def ks split: if_splits)
  qed
qed

theorem install_epoch_key_decision_witness:
  "fst (install_epoch_key [''d''] ''s'' 5 (replicate 32 9) demo_share) \<in> {Inl IoError, Inr (Gap 1 5)} \<and>
   fs_file (snd (install_epoch_key [''d''] ''s'' 5 (replicate 32 9) demo_share)) = fs_file demo_share"
  using install_epoch_key_decision [OF demo_disk_keys _ _ surjective_pairing, of "replicate 32 9" 5]
  by (simp add: KEY_LEN_def)

end
