(* ===== verification/Causal.thy ===== *)
theory Causal
  imports Prelude
begin

text \<open>
  The contract of a log that applies operations only after the operations they depend
  on and buffers the others, and what follows from it: the operations applied are the
  largest causally closed part of the operations received, whatever the order of
  arrival.  \<open>Auth\<close> interprets it on the membership log.
\<close>

section \<open>Causal order\<close>

text \<open>Every operation of the list comes after all it depends on.\<close>

definition causal_list :: "('op \<Rightarrow> 'i) \<Rightarrow> ('op \<Rightarrow> 'i list) \<Rightarrow> 'op list \<Rightarrow> bool" where
  "causal_list ident deps ops \<longleftrightarrow>
     (\<forall>before op after. ops = before @ op # after \<longrightarrow> set (deps op) \<subseteq> ident ` set before)"

lemma causal_list_Nil [simp, intro]: "causal_list ident deps []"
  by (simp add: causal_list_def)

lemma causal_list_snoc:
  "causal_list ident deps (ops @ [op]) \<longleftrightarrow>
     causal_list ident deps ops \<and> set (deps op) \<subseteq> ident ` set ops"
proof
  assume c: "causal_list ident deps (ops @ [op])"
  have "set (deps q) \<subseteq> ident ` set a" if "ops = a @ q # b" for a q b
    using c that by (auto simp: causal_list_def)
  moreover have "set (deps op) \<subseteq> ident ` set ops"
    using c by (auto simp: causal_list_def)
  ultimately show "causal_list ident deps ops \<and> set (deps op) \<subseteq> ident ` set ops"
    by (auto simp: causal_list_def)
next
  assume c: "causal_list ident deps ops \<and> set (deps op) \<subseteq> ident ` set ops"
  show "causal_list ident deps (ops @ [op])"
    unfolding causal_list_def
  proof (intro allI impI)
    fix a q b assume eq: "ops @ [op] = a @ q # b"
    show "set (deps q) \<subseteq> ident ` set a"
    proof (cases b rule: rev_cases)
      case Nil
      with eq c show ?thesis by simp
    next
      case (snoc b' x)
      with eq have "ops = a @ q # b'" by simp
      with c show ?thesis by (auto simp: causal_list_def)
    qed
  qed
qed

lemma causal_list_append_D: "causal_list ident deps (xs @ ys) \<Longrightarrow> causal_list ident deps xs"
  by (induction ys rule: rev_induct) (auto simp: causal_list_snoc simp flip: append_assoc)

text \<open>
  The operations of a set that can be delivered at all: their dependencies are met by
  operations that can be delivered.
\<close>

inductive_set deliverable :: "('op \<Rightarrow> 'i) \<Rightarrow> ('op \<Rightarrow> 'i list) \<Rightarrow> 'op set \<Rightarrow> 'op set"
  for ident deps S where
  deliver: "op \<in> S \<Longrightarrow> (\<And>d. d \<in> set (deps op) \<Longrightarrow> \<exists>q. q \<in> deliverable ident deps S \<and> ident q = d) \<Longrightarrow>
    op \<in> deliverable ident deps S"

inductive_cases deliverableE: "op \<in> deliverable ident deps S"

lemma deliverable_subset: "deliverable ident deps S \<subseteq> S"
  by (auto elim: deliverableE)

lemma causal_list_deliverable:
  "causal_list ident deps ops \<Longrightarrow> set ops \<subseteq> S \<Longrightarrow> set ops \<subseteq> deliverable ident deps S"
proof (induction ops rule: rev_induct)
  case (snoc op ops)
  then have "set ops \<subseteq> deliverable ident deps S" and "set (deps op) \<subseteq> ident ` set ops"
    by (simp_all add: causal_list_snoc)
  then have "\<exists>q. q \<in> deliverable ident deps S \<and> ident q = d" if "d \<in> set (deps op)" for d
    using that by blast
  with snoc.prems \<open>set ops \<subseteq> deliverable ident deps S\<close> show ?case
    by (auto intro: deliver)
qed simp

section \<open>The contract\<close>

primrec receive_all :: "('s \<Rightarrow> 'op \<Rightarrow> 's option) \<Rightarrow> 'op list \<Rightarrow> 's \<Rightarrow> 's option" where
  "receive_all receive [] s = Some s"
| "receive_all receive (op # ops) s = Option.bind (receive s op) (receive_all receive ops)"

text \<open>
  \<open>receive\<close> answers \<open>None\<close> where the log refuses an operation for good.
\<close>

locale causal_delivery =
  fixes ident :: "'op \<Rightarrow> 'i"
    and deps :: "'op \<Rightarrow> 'i list"
    and applied :: "'s \<Rightarrow> 'op list"
    and waiting :: "'s \<Rightarrow> 'op list"
    and invar :: "'s \<Rightarrow> bool"
    and receive :: "'s \<Rightarrow> 'op \<Rightarrow> 's option"
  assumes invar_receive: "invar s \<Longrightarrow> receive s op = Some s' \<Longrightarrow> invar s'"
    and receive_known: "invar s \<Longrightarrow> receive s op = Some s' \<Longrightarrow>
      ident op \<in> ident ` (set (applied s) \<union> set (waiting s)) \<Longrightarrow> s' = s"
    and receive_new: "invar s \<Longrightarrow> receive s op = Some s' \<Longrightarrow>
      ident op \<notin> ident ` (set (applied s) \<union> set (waiting s)) \<Longrightarrow>
      set (applied s') \<union> set (waiting s') = insert op (set (applied s) \<union> set (waiting s))"
    and applied_causal: "invar s \<Longrightarrow> causal_list ident deps (applied s)"
    and waiting_stuck: "invar s \<Longrightarrow> op \<in> set (waiting s) \<Longrightarrow> \<not> set (deps op) \<subseteq> ident ` set (applied s)"
begin

lemma invar_receive_all: "invar s \<Longrightarrow> receive_all receive ops s = Some s' \<Longrightarrow> invar s'"
  by (induction ops arbitrary: s) (auto simp: bind_eq_Some_conv intro: invar_receive)

lemma receive_holds:
  assumes "invar s" and "receive s op = Some s'"
    and "inj_on ident (insert op (set (applied s) \<union> set (waiting s)))"
  shows "set (applied s') \<union> set (waiting s') = insert op (set (applied s) \<union> set (waiting s))"
proof (cases "ident op \<in> ident ` (set (applied s) \<union> set (waiting s))")
  case True
  with assms(3) have "op \<in> set (applied s) \<union> set (waiting s)"
    by (metis image_iff inj_on_def insertCI)
  with receive_known [OF assms(1,2) True] show ?thesis by auto
next
  case False
  then show ?thesis by (rule receive_new [OF assms(1,2)])
qed

lemma receive_all_holds:
  assumes "invar s" and "receive_all receive ops s = Some s'"
    and "inj_on ident (set ops \<union> set (applied s) \<union> set (waiting s))"
  shows "set (applied s') \<union> set (waiting s') = set ops \<union> set (applied s) \<union> set (waiting s)"
  using assms
proof (induction ops arbitrary: s)
  case (Cons op ops)
  then obtain s1 where s1: "receive s op = Some s1" and rest: "receive_all receive ops s1 = Some s'"
    by (auto simp: bind_eq_Some_conv)
  have "inj_on ident (insert op (set (applied s) \<union> set (waiting s)))"
    using Cons.prems(3) by (rule inj_on_subset) auto
  then have h: "set (applied s1) \<union> set (waiting s1) = insert op (set (applied s) \<union> set (waiting s))"
    by (rule receive_holds [OF Cons.prems(1) s1])
  then have "inj_on ident (set ops \<union> set (applied s1) \<union> set (waiting s1))"
    using Cons.prems(3) by (auto simp: Un_assoc)
  with Cons.IH [OF invar_receive [OF Cons.prems(1) s1] rest] h show ?case by auto
qed auto

text \<open>Whatever the order, exactly the deliverable operations are applied.\<close>

lemma applied_deliverable:
  assumes "invar s"
  shows "set (applied s) = deliverable ident deps (set (applied s) \<union> set (waiting s))"
proof
  show "set (applied s) \<subseteq> deliverable ident deps (set (applied s) \<union> set (waiting s))"
    using applied_causal [OF assms] by (rule causal_list_deliverable) simp
  show "deliverable ident deps (set (applied s) \<union> set (waiting s)) \<subseteq> set (applied s)"
  proof
    fix op assume "op \<in> deliverable ident deps (set (applied s) \<union> set (waiting s))"
    then show "op \<in> set (applied s)"
    proof (induction rule: deliverable.induct)
      case (deliver op)
      then have "set (deps op) \<subseteq> ident ` set (applied s)" by fastforce
      with deliver(1) waiting_stuck [OF assms] show ?case by auto
    qed
  qed
qed

lemma receive_all_applies:
  assumes "invar s" and "applied s = []" and "waiting s = []"
    and "receive_all receive ops s = Some s'" and "inj_on ident (set ops)"
  shows "set (applied s') = deliverable ident deps (set ops)"
    and "set (waiting s') = set ops - deliverable ident deps (set ops)"
proof -
  have all: "set (applied s') \<union> set (waiting s') = set ops"
    using receive_all_holds [OF assms(1,4)] assms(2,3,5) by simp
  have inv: "invar s'" using invar_receive_all [OF assms(1,4)] .
  show a: "set (applied s') = deliverable ident deps (set ops)"
    using applied_deliverable [OF inv] all by simp
  have "op \<notin> set (applied s')" if "op \<in> set (waiting s')" for op
  proof
    assume "op \<in> set (applied s')"
    then obtain xs ys where "applied s' = xs @ op # ys" by (auto dest: split_list)
    then have "set (deps op) \<subseteq> ident ` set (applied s')"
      using applied_causal [OF inv] by (fastforce simp: causal_list_def)
    with waiting_stuck [OF inv that] show False by simp
  qed
  with a all show "set (waiting s') = set ops - deliverable ident deps (set ops)" by auto
qed

end

end
