(* ===== verification/Auth.thy ===== *)
theory Auth
  imports Crypto Causal
begin

text \<open>
  \<^verbatim>\<open>src/auth.rs\<close>: identities, signed membership operations, the causally ordered log
  of a share (\<open>AuthState\<close>) and its file \<open>auth.log\<close>.

  The group CRDT of \<open>p2panda-auth\<close>, Ed25519 and \<open>bincode\<close> are fields of
  \<open>auth_crates\<close>, a parameter of the definitions; \<open>'c\<close> is the CRDT's own state.
  \<open>crdt_process\<close> answers \<open>None\<close> where the library returns an error.  Encoding the
  signed part of an operation is total, as the source's \<open>expect\<close> asserts.

  The contract of the log towards the daemon -- operations are applied after what they
  depend on, and what is applied depends on the set of operations received, not on
  their order -- is the locale \<open>causal_delivery\<close>, interpreted on \<open>apply_remote\<close>.
\<close>

section \<open>Identities\<close>

datatype member_id = MemberId (member_bytes: "byte list")

datatype op_id = OpId (op_bytes: "byte list")

text \<open>The derived \<open>Ord\<close>: byte-wise lexicographic.\<close>

instantiation member_id :: linorder
begin

definition less_eq_member_id :: "member_id \<Rightarrow> member_id \<Rightarrow> bool" where
  "less_eq_member_id a b \<longleftrightarrow> member_bytes a \<le> member_bytes b"

definition less_member_id :: "member_id \<Rightarrow> member_id \<Rightarrow> bool" where
  "less_member_id a b \<longleftrightarrow> member_bytes a < member_bytes b"

instance
  by standard
    (auto simp: less_eq_member_id_def less_member_id_def member_id.expand less_le_not_le)

end

definition hex_digit :: "nat \<Rightarrow> char" where
  "hex_digit n = ''0123456789abcdef'' ! n"

text \<open>\<open>format!("{:02x}", b)\<close>\<close>

definition byte_hex :: "byte \<Rightarrow> string" where
  "byte_hex b = [hex_digit (unat b div 16), hex_digit (unat b mod 16)]"

definition bytes_hex :: "byte list \<Rightarrow> string" where
  "bytes_hex bs = concat (map byte_hex bs)"

definition member_to_hex :: "member_id \<Rightarrow> string" where
  "member_to_hex m = bytes_hex (member_bytes m)"

definition op_to_hex :: "op_id \<Rightarrow> string" where
  "op_to_hex i = bytes_hex (op_bytes i)"

definition hex_val :: "char \<Rightarrow> nat option" where
  "hex_val c = (let n = of_char c in
     if 48 \<le> n \<and> n \<le> 57 then Some (n - 48)
     else if 97 \<le> n \<and> n \<le> 102 then Some (n - 87)
     else if 65 \<le> n \<and> n \<le> 70 then Some (n - 55)
     else None)"

fun hex_num :: "nat \<Rightarrow> string \<Rightarrow> nat option" where
  "hex_num acc [] = (if acc < 256 then Some acc else None)"
| "hex_num acc (c # cs) = (case hex_val c of None \<Rightarrow> None | Some d \<Rightarrow> hex_num (16 * acc + d) cs)"

text \<open>\<open>u8::from_str_radix(s, 16)\<close>, which also accepts a leading plus sign.\<close>

definition u8_from_str_radix_16 :: "string \<Rightarrow> byte option" where
  "u8_from_str_radix_16 s =
     (let digits = (if length s > 1 \<and> hd s = CHR ''+'' then tl s else s) in
      if digits = [] then None else map_option of_nat (hex_num 0 digits))"

fun from_hex_loop :: "string \<Rightarrow> nat \<Rightarrow> nat \<Rightarrow> byte list result" where
  "from_hex_loop s i 0 = Inr []"
| "from_hex_loop s i (Suc n) =
     (case str_slice s (i * 2) (i * 2 + 2) of
        Inl e \<Rightarrow> Inl e
      | Inr t \<Rightarrow> (case u8_from_str_radix_16 t of
          None \<Rightarrow> Inl (Bail ''invalid hex byte at'' [i * 2])
        | Some b \<Rightarrow> (case from_hex_loop s (Suc i) n of
            Inl e \<Rightarrow> Inl e
          | Inr bs \<Rightarrow> Inr (b # bs))))"

definition from_hex :: "string \<Rightarrow> member_id result" where
  "from_hex s =
     (if length s \<noteq> 64 then Inl (Bail ''member id hex must be 64 chars'' [length s])
      else case from_hex_loop s 0 32 of Inl e \<Rightarrow> Inl e | Inr bs \<Rightarrow> Inr (MemberId bs))"

section \<open>Roles\<close>

datatype auth_role = Owner | Writer | Reader

text \<open>\<open>p2panda_auth::AccessLevel\<close>, the four levels \<open>from_access\<close> matches on.\<close>

datatype access = Pull | Read | Write | Manage

fun to_access :: "auth_role \<Rightarrow> access" where
  "to_access Owner = Manage"
| "to_access Writer = Write"
| "to_access Reader = Read"

fun from_access :: "access \<Rightarrow> auth_role" where
  "from_access Manage = Owner"
| "from_access Write = Writer"
| "from_access Read = Reader"
| "from_access Pull = Reader"

fun auth_role_display :: "auth_role \<Rightarrow> string" where
  "auth_role_display Owner = ''owner''"
| "auth_role_display Writer = ''writer''"
| "auth_role_display Reader = ''reader''"

section \<open>Signed operations\<close>

text \<open>
  The group actions the source builds; \<open>OtherAction\<close> stands for the variants of the
  library that it only passes through.
\<close>

datatype group_member = Individual member_id | SubGroup member_id

datatype group_action =
    Create "(group_member \<times> access) list"
  | Add group_member access
  | Remove group_member
  | OtherAction "byte list"

record control_message =
  cm_group_id :: member_id
  cm_action :: group_action

record signed_op =
  so_author :: member_id
  so_deps :: "op_id list"
  so_payload :: control_message
  so_signature :: "byte list"

record 'c auth_crates = crypto_crates +
  pub_of :: "byte list \<Rightarrow> byte list"
  ed_sign :: "byte list \<Rightarrow> byte list \<Rightarrow> byte list"
  ed_valid_pub :: "byte list \<Rightarrow> bool"
  ed_verify :: "byte list \<Rightarrow> byte list \<Rightarrow> byte list \<Rightarrow> bool"
  enc_canonical :: "member_id \<times> op_id list \<times> control_message \<Rightarrow> byte list"
  enc_op :: "signed_op \<Rightarrow> byte list option"
  dec_op :: "byte list \<Rightarrow> signed_op option"
  enc_log :: "signed_op list \<Rightarrow> byte list option"
  dec_log :: "byte list \<Rightarrow> signed_op list option"
  crdt_new :: 'c
  crdt_process :: "'c \<Rightarrow> signed_op \<Rightarrow> 'c option"
  crdt_members :: "'c \<Rightarrow> member_id \<Rightarrow> (member_id \<times> access) list"
  crdt_heads :: "'c \<Rightarrow> op_id list"

definition SIGNATURE_LEN :: nat where "SIGNATURE_LEN = 64"

text \<open>
  \<open>serde_bytes_64\<close>: a signature travels as a byte vector and is checked for its
  length on the way in.  \<open>dec_op\<close> and \<open>dec_log\<close> yield the vector; this is the check.
\<close>

definition sig_deserialize :: "byte list \<Rightarrow> byte list option" where
  "sig_deserialize v = (if length v \<noteq> SIGNATURE_LEN then None else Some v)"

definition check_signature_len :: "signed_op \<Rightarrow> signed_op option" where
  "check_signature_len raw_op =
     map_option (\<lambda>s. raw_op\<lparr>so_signature := s\<rparr>) (sig_deserialize (so_signature raw_op))"

definition canonical_bytes :: "('c, 'z) auth_crates_scheme \<Rightarrow> signed_op \<Rightarrow> byte list" where
  "canonical_bytes C op = enc_canonical C (so_author op, so_deps op, so_payload op)"

definition compute_id :: "('c, 'z) auth_crates_scheme \<Rightarrow> signed_op \<Rightarrow> op_id" where
  "compute_id C op = OpId (blake3 C (canonical_bytes C op @ so_signature op))"

definition verify :: "('c, 'z) auth_crates_scheme \<Rightarrow> signed_op \<Rightarrow> unit result" where
  "verify C op =
     (if \<not> ed_valid_pub C (member_bytes (so_author op)) then Inl (Bail ''invalid author pubkey'' [])
      else if \<not> ed_verify C (member_bytes (so_author op)) (canonical_bytes C op) (so_signature op)
      then Inl (Bail ''signature verification failed'' [])
      else Inr ())"

definition encode_op :: "('c, 'z) auth_crates_scheme \<Rightarrow> signed_op \<Rightarrow> byte list result" where
  "encode_op C op = (case enc_op C op of
     None \<Rightarrow> Inl (Bail ''encoding signed op'' []) | Some bs \<Rightarrow> Inr bs)"

definition decode_op :: "('c, 'z) auth_crates_scheme \<Rightarrow> byte list \<Rightarrow> signed_op result" where
  "decode_op C bytes = (case Option.bind (dec_op C bytes) check_signature_len of
     None \<Rightarrow> Inl (Bail ''decoding signed op'' []) | Some op \<Rightarrow> Inr op)"

section \<open>The membership log\<close>

record 'c auth_state =
  as_crdt :: 'c
  as_ops :: "signed_op list"
  as_pending :: "signed_op list"

definition auth_empty :: "('c, 'z) auth_crates_scheme \<Rightarrow> 'c auth_state" where
  "auth_empty C = \<lparr>as_crdt = crdt_new C, as_ops = [], as_pending = []\<rparr>"

definition auth_is_empty :: "'c auth_state \<Rightarrow> bool" where
  "auth_is_empty st \<longleftrightarrow> as_ops st = []"

text \<open>
  \<open>mem::replace\<close> moves the CRDT state out and leaves a fresh one behind; it is put back
  only when the library accepts the operation.
\<close>

definition process ::
  "('c, 'z) auth_crates_scheme \<Rightarrow> 'c auth_state \<Rightarrow> signed_op \<Rightarrow> unit result \<times> 'c auth_state" where
  "process C st op =
     (let prev = as_crdt st; st1 = st\<lparr>as_crdt := crdt_new C\<rparr> in
      case crdt_process C prev op of
        None \<Rightarrow> (Inl (Bail ''auth crdt error'' []), st1)
      | Some next_crdt \<Rightarrow> (Inr (), st1\<lparr>as_crdt := next_crdt, as_ops := as_ops st1 @ [op]\<rparr>))"

definition known :: "('c, 'z) auth_crates_scheme \<Rightarrow> 'c auth_state \<Rightarrow> op_id set" where
  "known C st = set (map (compute_id C) (as_ops st))"

definition deps_met :: "('c, 'z) auth_crates_scheme \<Rightarrow> 'c auth_state \<Rightarrow> signed_op \<Rightarrow> bool" where
  "deps_met C st op \<longleftrightarrow> list_all (\<lambda>d. d \<in> known C st) (so_deps op)"

lemma process_pending: "process C st op = (r, st') \<Longrightarrow> as_pending st' = as_pending st"
  by (auto simp: process_def Let_def split: option.splits)

text \<open>
  The loop of \<open>drain_pending\<close>: take the first buffered operation whose dependencies are
  all known, apply it, start over.
\<close>

function drain_pending ::
  "('c, 'z) auth_crates_scheme \<Rightarrow> 'c auth_state \<Rightarrow> unit result \<times> 'c auth_state" where
  "drain_pending C st =
     (case List.extract (deps_met C st) (as_pending st) of
        None \<Rightarrow> (Inr (), st)
      | Some (before, op, rest) \<Rightarrow>
          (case process C (st\<lparr>as_pending := before @ rest\<rparr>) op of
             (Inl e, st') \<Rightarrow> (Inl e, st')
           | (Inr _, st') \<Rightarrow> drain_pending C st'))"
  by pat_completeness auto
termination
  by (relation "measure (\<lambda>(C, st). length (as_pending st))")
    (auto simp: extract_Some_iff dest: sym [THEN process_pending])

declare drain_pending.simps [simp del]

definition apply_remote ::
  "('c, 'z) auth_crates_scheme \<Rightarrow> 'c auth_state \<Rightarrow> signed_op \<Rightarrow> bool result \<times> 'c auth_state" where
  "apply_remote C st op =
     (case verify C op of
        Inl e \<Rightarrow> (Inl e, st)
      | Inr _ \<Rightarrow>
          if compute_id C op \<in> known C st \<or>
             list_ex (\<lambda>q. compute_id C q = compute_id C op) (as_pending st)
          then (Inr False, st)
          else if \<not> deps_met C st op
          then (Inr False, st\<lparr>as_pending := as_pending st @ [op]\<rparr>)
          else (case process C st op of
             (Inl e, st1) \<Rightarrow> (Inl e, st1)
           | (Inr _, st1) \<Rightarrow> (case drain_pending C st1 of
               (Inl e, st2) \<Rightarrow> (Inl e, st2)
             | (Inr _, st2) \<Rightarrow> (Inr True, st2))))"

definition author ::
  "('c, 'z) auth_crates_scheme \<Rightarrow> 'c auth_state \<Rightarrow> byte list \<Rightarrow> member_id \<Rightarrow> group_action \<Rightarrow>
   signed_op result \<times> 'c auth_state" where
  "author C st my_key group_id action =
     (let me = MemberId (pub_of C my_key);
          deps = crdt_heads C (as_crdt st);
          payload = \<lparr>cm_group_id = group_id, cm_action = action\<rparr>;
          sig = ed_sign C my_key (enc_canonical C (me, deps, payload));
          op = \<lparr>so_author = me, so_deps = deps, so_payload = payload, so_signature = sig\<rparr>
      in case process C st op of
           (Inl e, st') \<Rightarrow> (Inl e, st')
         | (Inr _, st') \<Rightarrow> (Inr op, st'))"

definition create_group ::
  "('c, 'z) auth_crates_scheme \<Rightarrow> 'c auth_state \<Rightarrow> byte list \<Rightarrow> member_id \<Rightarrow>
   signed_op result \<times> 'c auth_state" where
  "create_group C st my_key group_id =
     (if as_ops st \<noteq> []
      then (Inl (Bail ''auth state already has operations; refusing to re-create group'' [length (as_ops st)]), st)
      else author C st my_key group_id (Create [(Individual (MemberId (pub_of C my_key)), Manage)]))"

definition add_member ::
  "('c, 'z) auth_crates_scheme \<Rightarrow> 'c auth_state \<Rightarrow> byte list \<Rightarrow> member_id \<Rightarrow> member_id \<Rightarrow> auth_role \<Rightarrow>
   signed_op result \<times> 'c auth_state" where
  "add_member C st my_key group_id new_member role =
     author C st my_key group_id (Add (Individual new_member) (to_access role))"

definition remove_member ::
  "('c, 'z) auth_crates_scheme \<Rightarrow> 'c auth_state \<Rightarrow> byte list \<Rightarrow> member_id \<Rightarrow> member_id \<Rightarrow>
   signed_op result \<times> 'c auth_state" where
  "remove_member C st my_key group_id member =
     author C st my_key group_id (Remove (Individual member))"

definition members ::
  "('c, 'z) auth_crates_scheme \<Rightarrow> 'c auth_state \<Rightarrow> member_id \<Rightarrow> (member_id \<times> auth_role) list" where
  "members C st group_id =
     map (\<lambda>(m, a). (m, from_access a)) (crdt_members C (as_crdt st) group_id)"

definition is_member ::
  "('c, 'z) auth_crates_scheme \<Rightarrow> 'c auth_state \<Rightarrow> member_id \<Rightarrow> member_id \<Rightarrow> bool" where
  "is_member C st group_id member =
     list_ex (\<lambda>(m, _). m = member) (crdt_members C (as_crdt st) group_id)"

definition group_id_for :: "('c, 'z) auth_crates_scheme \<Rightarrow> string \<Rightarrow> member_id" where
  "group_id_for C share_id = MemberId (blake3 C (as_bytes ''peerdup-group/'' @ as_bytes share_id))"

section \<open>The log on disk\<close>

definition auth_log_path :: "path \<Rightarrow> string \<Rightarrow> path" where
  "auth_log_path data_dir share_id = share_dir data_dir share_id @ [''auth.log'']"

text \<open>The replay loop of \<open>load\<close>: the first rejected operation ends it.\<close>

fun replay ::
  "('c, 'z) auth_crates_scheme \<Rightarrow> 'c auth_state \<Rightarrow> signed_op list \<Rightarrow> 'c auth_state result" where
  "replay C st [] = Inr st"
| "replay C st (op # ops) =
     (case apply_remote C st op of
        (Inl e, _) \<Rightarrow> Inl e
      | (Inr _, st') \<Rightarrow> replay C st' ops)"

definition auth_load ::
  "('c, 'z) auth_crates_scheme \<Rightarrow> path \<Rightarrow> string \<Rightarrow> 'c auth_state io" where
  "auth_load C data_dir share_id w =
     (let path = auth_log_path data_dir share_id in
      if \<not> fs_exists w path then io_return (auth_empty C) w
      else
        io_bind (fs_read path) (\<lambda>bytes.
        case Option.bind (dec_log C bytes) (\<lambda>ops. those (map check_signature_len ops)) of
          None \<Rightarrow> io_fail (Bail ''decoding auth.log'' [])
        | Some ops \<Rightarrow>
            io_bind (io_lift (replay C (auth_empty C) ops)) (\<lambda>state.
            if as_pending state \<noteq> []
            then io_fail (Bail ''auth.log left ops with unmet deps after replay; log is corrupt''
              [length (as_pending state)])
            else io_return state)) w)"

definition auth_save ::
  "('c, 'z) auth_crates_scheme \<Rightarrow> path \<Rightarrow> string \<Rightarrow> 'c auth_state \<Rightarrow> unit io" where
  "auth_save C data_dir share_id state =
     (let path = auth_log_path data_dir share_id in
      io_bind (fs_create_dir_all (butlast path)) (\<lambda>_.
      case enc_log C (as_ops state) of
        None \<Rightarrow> io_fail (Bail ''encoding auth log'' [])
      | Some bytes \<Rightarrow>
          let tmp = with_extension path ''log.tmp'' in
          io_bind (fs_write tmp bytes) (\<lambda>_.
          io_bind (fs_rename tmp path) (\<lambda>_.
          fs_chmod path mode_0600))))"

section \<open>Hexadecimal identities\<close>

lemma hex_val_digit: "n < 16 \<Longrightarrow> hex_val (hex_digit n) = Some n"
proof -
  have "\<forall>n \<in> set [0..<16]. hex_val (hex_digit n) = Some n" by code_simp
  then show "n < 16 \<Longrightarrow> ?thesis" by auto
qed

lemma hex_digit_not_plus: "n < 16 \<Longrightarrow> hex_digit n \<noteq> CHR ''+'' \<and> \<not> is_continuation (hex_digit n)"
proof -
  have "\<forall>n \<in> set [0..<16]. hex_digit n \<noteq> CHR ''+'' \<and> \<not> is_continuation (hex_digit n)" by code_simp
  then show "n < 16 \<Longrightarrow> ?thesis" by auto
qed

lemma byte_halves: "unat (b :: byte) div 16 < 16" "unat b mod 16 < 16"
proof -
  have "unat b < 2 ^ LENGTH(8)" by (rule unsigned_less)
  then show "unat b div 16 < 16" "unat b mod 16 < 16" by simp_all
qed

lemma u8_byte_hex: "u8_from_str_radix_16 (byte_hex b) = Some b"
proof -
  have "unat b < 2 ^ LENGTH(8)" by (rule unsigned_less)
  then show ?thesis
    using byte_halves [of b] hex_val_digit [of "unat b div 16"] hex_val_digit [of "unat b mod 16"]
      hex_digit_not_plus [of "unat b div 16"]
    by (simp add: u8_from_str_radix_16_def byte_hex_def)
qed

lemma length_bytes_hex [simp]: "length (bytes_hex bs) = 2 * length bs"
  by (induction bs) (simp_all add: bytes_hex_def byte_hex_def)

lemma bytes_hex_Cons [simp]: "bytes_hex (b # bs) = byte_hex b @ bytes_hex bs"
  by (simp add: bytes_hex_def)

lemma bytes_hex_ascii: "c \<in> set (bytes_hex bs) \<Longrightarrow> \<not> is_continuation c"
  by (auto simp: bytes_hex_def byte_hex_def hex_digit_not_plus byte_halves)

lemma bytes_hex_boundary: "i \<le> length (bytes_hex bs) \<Longrightarrow> is_char_boundary (bytes_hex bs) i"
  using bytes_hex_ascii [OF nth_mem, of i bs] by (auto simp: is_char_boundary_def)

lemma bytes_hex_slice:
  assumes "i < length bs"
  shows "str_slice (bytes_hex bs) (i * 2) (i * 2 + 2) = Inr (byte_hex (bs ! i))"
proof -
  have "drop (i * 2) (bytes_hex bs) = bytes_hex (drop i bs)"
    by (induction i arbitrary: bs) (simp_all, case_tac bs, simp_all add: byte_hex_def bytes_hex_def)
  moreover have "drop i bs = bs ! i # drop (Suc i) bs"
    using assms by (rule Cons_nth_drop_Suc [symmetric])
  ultimately show ?thesis
    using assms by (simp add: str_slice_def bytes_hex_boundary) (simp add: byte_hex_def)
qed

lemma from_hex_loop_bytes:
  "i + n = length bs \<Longrightarrow> from_hex_loop (bytes_hex bs) i n = Inr (drop i bs)"
proof (induction n arbitrary: i)
  case (Suc n)
  then have "from_hex_loop (bytes_hex bs) (Suc i) n = Inr (drop (Suc i) bs)" by simp
  with Suc.prems bytes_hex_slice [of i bs] show ?case
    by (simp add: u8_byte_hex Cons_nth_drop_Suc)
qed simp

section \<open>The invariant of the log\<close>

primrec crdt_run :: "('c, 'z) auth_crates_scheme \<Rightarrow> 'c \<Rightarrow> signed_op list \<Rightarrow> 'c option" where
  "crdt_run C s [] = Some s"
| "crdt_run C s (op # ops) = Option.bind (crdt_process C s op) (\<lambda>s'. crdt_run C s' ops)"

lemma crdt_run_append:
  "crdt_run C s (xs @ ys) = Option.bind (crdt_run C s xs) (\<lambda>s'. crdt_run C s' ys)"
  by (induction xs arbitrary: s) (auto simp: bind_assoc split: bind_splits)

text \<open>
  The log is causally ordered, holds no operation twice, every operation in it or
  waiting carries a valid signature, and the group state is the one the log produces.
\<close>

definition log_core :: "('c, 'z) auth_crates_scheme \<Rightarrow> 'c auth_state \<Rightarrow> bool" where
  "log_core C st \<longleftrightarrow>
     crdt_run C (crdt_new C) (as_ops st) = Some (as_crdt st) \<and>
     causal_list (compute_id C) so_deps (as_ops st) \<and>
     distinct (map (compute_id C) (as_ops st @ as_pending st)) \<and>
     (\<forall>op \<in> set (as_ops st) \<union> set (as_pending st). verify C op = Inr ())"

text \<open>Between two calls, no waiting operation could be applied.\<close>

definition log_ok :: "('c, 'z) auth_crates_scheme \<Rightarrow> 'c auth_state \<Rightarrow> bool" where
  "log_ok C st \<longleftrightarrow> log_core C st \<and> (\<forall>op \<in> set (as_pending st). \<not> deps_met C st op)"

lemma deps_met_iff: "deps_met C st op \<longleftrightarrow> set (so_deps op) \<subseteq> compute_id C ` set (as_ops st)"
  by (auto simp: deps_met_def known_def list_all_iff)

lemma log_ok_empty [simp, intro]: "log_ok C (auth_empty C)"
  by (simp add: log_ok_def log_core_def auth_empty_def)

lemma process_ok:
  "process C st op = (Inr u, st') \<longleftrightarrow>
     (\<exists>s. crdt_process C (as_crdt st) op = Some s \<and> st' = st\<lparr>as_crdt := s, as_ops := as_ops st @ [op]\<rparr>)"
  by (auto simp: process_def Let_def split: option.splits)

lemma process_core:
  assumes "log_core C st" and "process C st op = (Inr u, st')" and "deps_met C st op"
    and "verify C op = Inr ()" and "compute_id C op \<notin> compute_id C ` (set (as_ops st) \<union> set (as_pending st))"
  shows "log_core C st'"
proof -
  from assms(2) obtain s where s: "crdt_process C (as_crdt st) op = Some s"
    and st': "st' = st\<lparr>as_crdt := s, as_ops := as_ops st @ [op]\<rparr>"
    by (auto simp: process_ok)
  have "distinct (map (compute_id C) (as_ops st' @ as_pending st'))"
    using assms(1,5) st' unfolding log_core_def by (simp add: image_Un)
  then show ?thesis
    using assms s st' unfolding log_core_def
    by (simp add: crdt_run_append causal_list_snoc deps_met_iff)
qed

lemma drain_pending_core:
  assumes "log_core C st" and "drain_pending C st = (Inr u, st')"
  shows "log_ok C st' \<and> prefix (as_ops st) (as_ops st') \<and>
    set (as_ops st') \<union> set (as_pending st') = set (as_ops st) \<union> set (as_pending st)"
  using assms
proof (induction C st rule: drain_pending.induct)
  case (1 C st)
  show ?case
  proof (cases "List.extract (deps_met C st) (as_pending st)")
    case None
    with "1.prems" show ?thesis
      by (auto simp: drain_pending.simps [of C st] log_ok_def extract_None_iff)
  next
    case (Some t)
    then obtain before op rest where t: "t = (before, op, rest)" by (cases t)
    with Some have p: "as_pending st = before @ op # rest" and d: "deps_met C st op"
      by (auto simp: extract_Some_iff)
    let ?st1 = "st\<lparr>as_pending := before @ rest\<rparr>"
    obtain u2 st2 where pr: "process C ?st1 op = (Inr u2, st2)"
      and dr: "drain_pending C st2 = (Inr u, st')"
      using "1.prems"(2) Some t
      by (auto simp: drain_pending.simps [of C st] split: prod.splits sum.splits)
    have "log_core C ?st1" "deps_met C ?st1 op" "verify C op = Inr ()"
      "compute_id C op \<notin> compute_id C ` (set (as_ops ?st1) \<union> set (as_pending ?st1))"
      using "1.prems"(1) p d by (auto simp: log_core_def deps_met_iff)
    then have "log_core C st2" using process_core [OF _ pr] by blast
    with "1.IH" [OF Some t [symmetric] refl pr [symmetric] refl] dr
    have ih: "log_ok C st' \<and> prefix (as_ops st2) (as_ops st') \<and>
      set (as_ops st') \<union> set (as_pending st') = set (as_ops st2) \<union> set (as_pending st2)" by blast
    moreover have "as_ops st2 = as_ops st @ [op]" "as_pending st2 = before @ rest"
      using pr by (auto simp: process_ok)
    ultimately show ?thesis
      using p by (auto intro: append_prefixD)
  qed
qed

lemma held_iff:
  "compute_id C op \<in> known C st \<or> list_ex (\<lambda>q. compute_id C q = compute_id C op) (as_pending st) \<longleftrightarrow>
     compute_id C op \<in> compute_id C ` (set (as_ops st) \<union> set (as_pending st))"
  unfolding known_def list_ex_iff image_Un by (simp add: image_iff) metis

definition receive_op ::
  "('c, 'z) auth_crates_scheme \<Rightarrow> 'c auth_state \<Rightarrow> signed_op \<Rightarrow> 'c auth_state option" where
  "receive_op C st op = (case apply_remote C st op of (Inl _, _) \<Rightarrow> None | (Inr _, st') \<Rightarrow> Some st')"

lemma receive_op_cases:
  assumes "receive_op C st op = Some st'"
  obtains (dup) "compute_id C op \<in> compute_id C ` (set (as_ops st) \<union> set (as_pending st))" "st' = st"
  | (wait) "verify C op = Inr ()" "compute_id C op \<notin> compute_id C ` (set (as_ops st) \<union> set (as_pending st))"
      "\<not> deps_met C st op" "st' = st\<lparr>as_pending := as_pending st @ [op]\<rparr>"
  | (now) u st1 u' where "verify C op = Inr ()"
      "compute_id C op \<notin> compute_id C ` (set (as_ops st) \<union> set (as_pending st))" "deps_met C st op"
      "process C st op = (Inr u, st1)" "drain_pending C st1 = (Inr u', st')"
proof -
  let ?seen = "compute_id C op \<in> compute_id C ` (set (as_ops st) \<union> set (as_pending st))"
  have v: "verify C op = Inr ()"
    using assms by (cases "verify C op") (simp_all add: receive_op_def apply_remote_def)
  show thesis
  proof (cases ?seen)
    case True
    with assms v have "st' = st" unfolding receive_op_def apply_remote_def held_iff by simp
    with True show thesis by (rule dup)
  next
    case new: False
    show thesis
    proof (cases "deps_met C st op")
      case False
      with assms v new have "st' = st\<lparr>as_pending := as_pending st @ [op]\<rparr>"
        unfolding receive_op_def apply_remote_def held_iff by simp
      with v new False show thesis by (rule wait)
    next
      case True
      with assms v new obtain u st1 u' where "process C st op = (Inr u, st1)"
        and "drain_pending C st1 = (Inr u', st')"
        unfolding receive_op_def apply_remote_def held_iff by (auto split: prod.splits sum.splits)
      with v new True show thesis by (rule now)
    qed
  qed
qed

interpretation auth_log:
  causal_delivery "compute_id C" so_deps as_ops as_pending "log_ok C" "receive_op C"
  for C :: "('c, 'z) auth_crates_scheme"
proof unfold_locales
  fix s op s' assume inv: "log_ok C s" and r: "receive_op C s op = Some s'"
  let ?held = "\<lambda>s. set (as_ops s) \<union> set (as_pending s)"
  have "log_ok C s' \<and> (compute_id C op \<in> compute_id C ` ?held s \<longrightarrow> s' = s) \<and>
     (compute_id C op \<notin> compute_id C ` ?held s \<longrightarrow> ?held s' = insert op (?held s))"
    using r
  proof (cases rule: receive_op_cases)
    case dup
    with inv show ?thesis by simp
  next
    case wait
    with inv show ?thesis
      by (auto simp: log_ok_def log_core_def deps_met_iff image_Un)
  next
    case (now u st1 u')
    have "log_core C st1"
      using process_core [OF _ now(4,3,1,2)] inv by (simp add: log_ok_def)
    then have d: "log_ok C s' \<and> ?held s' = ?held st1"
      using drain_pending_core [OF _ now(5)] by blast
    have "?held st1 = insert op (?held s)"
      using now(4) by (auto simp: process_ok)
    with d now(2) show ?thesis by simp
  qed
  then show "log_ok C s'"
    and "compute_id C op \<in> compute_id C ` ?held s \<Longrightarrow> s' = s"
    and "compute_id C op \<notin> compute_id C ` ?held s \<Longrightarrow> ?held s' = insert op (?held s)"
    by blast+
next
  fix s assume "log_ok C s"
  then show "causal_list (compute_id C) so_deps (as_ops s)"
    by (simp add: log_ok_def log_core_def)
next
  fix s op assume "log_ok C s" and "op \<in> set (as_pending s)"
  then show "\<not> set (so_deps op) \<subseteq> compute_id C ` set (as_ops s)"
    by (simp add: log_ok_def deps_met_iff)
qed

section \<open>Replaying and storing the log\<close>

lemma receive_op_replay: "replay C st ops = Inr st' \<longleftrightarrow> receive_all (receive_op C) ops st = Some st'"
  by (induction ops arbitrary: st)
    (auto simp: receive_op_def split: prod.splits sum.splits)

lemma drain_nothing: "as_pending st = [] \<Longrightarrow> drain_pending C st = (Inr (), st)"
  by (simp add: drain_pending.simps extract_Nil_code)

text \<open>A valid log is accepted operation by operation, in the order it has.\<close>

lemma replay_valid:
  assumes "log_ok C st" and "as_pending st = []"
    and "crdt_run C (as_crdt st) ops = Some s"
    and "causal_list (compute_id C) so_deps (as_ops st @ ops)"
    and "distinct (map (compute_id C) (as_ops st @ ops))"
    and "\<forall>op \<in> set ops. verify C op = Inr ()"
  shows "replay C st ops = Inr (st\<lparr>as_crdt := s, as_ops := as_ops st @ ops\<rparr>)"
  using assms
proof (induction ops arbitrary: st)
  case (Cons op ops)
  from Cons.prems(3) obtain s1 where s1: "crdt_process C (as_crdt st) op = Some s1"
    and rest: "crdt_run C s1 ops = Some s" by (auto simp: bind_eq_Some_conv)
  let ?st1 = "st\<lparr>as_crdt := s1, as_ops := as_ops st @ [op]\<rparr>"
  have pr: "process C st op = (Inr (), ?st1)" using s1 by (simp add: process_ok)
  have c: "causal_list (compute_id C) so_deps (as_ops st @ [op])"
    using Cons.prems(4) causal_list_append_D [of _ _ "as_ops st @ [op]" ops] by simp
  then have d: "deps_met C st op" by (simp add: causal_list_snoc deps_met_iff)
  have v: "verify C op = Inr ()" using Cons.prems(6) by simp
  have new: "compute_id C op \<notin> compute_id C ` (set (as_ops st) \<union> set (as_pending st))"
    using Cons.prems(2,5) by auto
  have "apply_remote C st op = (Inr True, ?st1)"
    using v d pr new Cons.prems(2)
    by (simp add: apply_remote_def known_def drain_nothing del: set_map) simp
  moreover have "log_ok C ?st1"
    using process_core [OF _ pr d v new] Cons.prems(1,2) by (simp add: log_ok_def)
  then have "replay C ?st1 ops = Inr (?st1\<lparr>as_crdt := s, as_ops := as_ops ?st1 @ ops\<rparr>)"
    using Cons.prems rest by (intro Cons.IH) simp_all
  ultimately show ?case by simp
qed simp

lemma replay_log:
  assumes "log_core C st"
  shows "replay C (auth_empty C) (as_ops st) = Inr (st\<lparr>as_pending := []\<rparr>)"
proof -
  have "replay C (auth_empty C) (as_ops st) = Inr ((auth_empty C)\<lparr>as_crdt := as_crdt st,
      as_ops := as_ops (auth_empty C) @ as_ops st\<rparr>)"
    using assms by (intro replay_valid) (simp_all add: log_core_def auth_empty_def log_ok_def)
  then show ?thesis by (simp add: auth_empty_def)
qed

abbreviation auth_tmp :: "path \<Rightarrow> string \<Rightarrow> path" where
  "auth_tmp dd sid \<equiv> with_extension (auth_log_path dd sid) ''log.tmp''"

lemma auth_tmp_eq: "auth_tmp dd sid = share_dir dd sid @ [''auth.log.tmp'']"
  by (simp add: auth_log_path_def file_stem_def Let_def)

lemma auth_tmp_neq [simp]: "auth_tmp dd sid \<noteq> auth_log_path dd sid"
  unfolding auth_tmp_eq by (simp add: auth_log_path_def)

lemma auth_save_replace:
  "enc_log C (as_ops st) = Some bs \<Longrightarrow>
   auth_save C dd sid st = io_bind (fs_replace (auth_tmp dd sid) (auth_log_path dd sid) bs)
     (\<lambda>_. fs_chmod (auth_log_path dd sid) mode_0600)"
  by (simp add: auth_save_def fs_replace_def io_bind_assoc Let_def)

lemma auth_save_unencodable:
  assumes "enc_log C (as_ops st) = None" and "auth_save C dd sid st w = (r, w')"
  shows "\<not> is_ok r" and "fs_file w' = fs_file w"
proof -
  from assms have "io_bind (fs_create_dir_all (butlast (auth_log_path dd sid)))
      (\<lambda>_. io_fail (Bail ''encoding auth log'' [])) w = (r, w')"
    by (simp add: auth_save_def Let_def)
  then have "\<not> is_ok r \<and> fs_file w' = fs_file w"
    using fs_create_dir_all_files [of "butlast (auth_log_path dd sid)" w]
    by (cases rule: io_bind_cases) auto
  then show "\<not> is_ok r" and "fs_file w' = fs_file w" by auto
qed

interpretation auth_file:
  file_slot "auth_log_path dd sid" "auth_tmp dd sid" "\<lambda>st. the (enc_log C (as_ops st))" "auth_save C dd sid"
  for C :: "('c, 'z) auth_crates_scheme" and dd sid
proof unfold_locales
  fix st w r w' q assume s: "auth_save C dd sid st w = (r, w')"
  show "fs_file w' (auth_log_path dd sid) = Some (the (enc_log C (as_ops st))) \<or>
      \<not> is_ok r \<and> fs_file w' (auth_log_path dd sid) = fs_file w (auth_log_path dd sid)"
  proof (cases "enc_log C (as_ops st)")
    case None
    with auth_save_unencodable [OF None s] show ?thesis by simp
  next
    case (Some bs)
    with replace_chmod_effect(1) [OF s [unfolded auth_save_replace [OF Some]]] show ?thesis by simp
  qed
  show "fs_file w' q = fs_file w q" if "q \<noteq> auth_log_path dd sid" "q \<noteq> auth_tmp dd sid"
  proof (cases "enc_log C (as_ops st)")
    case None
    with auth_save_unencodable [OF None s] show ?thesis by simp
  next
    case (Some bs)
    with replace_chmod_effect(2) [OF s [unfolded auth_save_replace [OF Some]]] that show ?thesis by simp
  qed
qed

lemma keeps_faults_auth_save [intro, simp]: "keeps_faults (auth_save C dd sid st)"
  unfolding auth_save_def Let_def by (intro keeps_faults_bind) (auto split: option.split)

lemma those_check_signature:
  "list_all (\<lambda>op. length (so_signature op) = SIGNATURE_LEN) ops \<Longrightarrow>
     those (map check_signature_len ops) = Some ops"
  by (induction ops) (simp_all add: check_signature_len_def sig_deserialize_def)

section \<open>What the code relies on\<close>

text \<open>Ed25519: a signature made with a private key verifies under its public key.\<close>

definition ed_ok :: "('c, 'z) auth_crates_scheme \<Rightarrow> bool" where
  "ed_ok C \<longleftrightarrow> (\<forall>sk m. ed_valid_pub C (pub_of C sk) \<and> length (ed_sign C sk m) = SIGNATURE_LEN \<and>
     ed_verify C (pub_of C sk) m (ed_sign C sk m))"

text \<open>\<open>bincode\<close>: decoding inverts encoding, of a log and of a single operation.\<close>

definition codec_ok :: "('c, 'z) auth_crates_scheme \<Rightarrow> bool" where
  "codec_ok C \<longleftrightarrow> (\<forall>ops bs. enc_log C ops = Some bs \<longrightarrow> dec_log C bs = Some ops)"

definition op_codec_ok :: "('c, 'z) auth_crates_scheme \<Rightarrow> bool" where
  "op_codec_ok C \<longleftrightarrow> (\<forall>op bs. enc_op C op = Some bs \<longrightarrow> dec_op C bs = Some op)"

lemma author_ok:
  assumes "author C st my_key gid action = (Inr op, st')"
  shows "op = \<lparr>so_author = MemberId (pub_of C my_key), so_deps = crdt_heads C (as_crdt st),
      so_payload = \<lparr>cm_group_id = gid, cm_action = action\<rparr>,
      so_signature = ed_sign C my_key (enc_canonical C (MemberId (pub_of C my_key),
        crdt_heads C (as_crdt st), \<lparr>cm_group_id = gid, cm_action = action\<rparr>))\<rparr>"
    and "process C st op = (Inr (), st')"
  using assms by (auto simp: author_def Let_def split: prod.splits sum.splits)

lemma author_verifies:
  "ed_ok C \<Longrightarrow> author C st my_key gid action = (Inr op, st') \<Longrightarrow> verify C op = Inr ()"
  by (drule author_ok(1)) (simp add: verify_def canonical_bytes_def ed_ok_def)

text \<open>Authoring keeps the log valid: its dependencies are the heads of the group state.\<close>

lemma author_core:
  assumes "ed_ok C" and "log_core C st" and "author C st my_key gid action = (Inr op, st')"
    and "set (crdt_heads C (as_crdt st)) \<subseteq> known C st"
    and "compute_id C op \<notin> compute_id C ` (set (as_ops st) \<union> set (as_pending st))"
  shows "log_core C st'"
proof -
  have "deps_met C st op"
    using author_ok(1) [OF assms(3)] assms(4) by (auto simp: deps_met_def list_all_iff)
  with process_core [OF assms(2) author_ok(2) [OF assms(3)]] author_verifies [OF assms(1,3)] assms(5)
  show ?thesis by blast
qed

section \<open>A concrete instance\<close>

text \<open>
  An instance of the parameters on which the hypotheses hold, for the examples: the
  group state is the list of operations, keys sign by prepending themselves.
\<close>

definition demo_hash :: "byte list \<Rightarrow> byte list" where
  "demo_hash bs = bs"

fun demo_action_bytes :: "group_action \<Rightarrow> byte list" where
  "demo_action_bytes (Create ms) = [0]"
| "demo_action_bytes (Add (Individual m) a) = 1 # member_bytes m"
| "demo_action_bytes (Add (SubGroup m) a) = 2 # member_bytes m"
| "demo_action_bytes (Remove (Individual m)) = 3 # member_bytes m"
| "demo_action_bytes (Remove (SubGroup m)) = 4 # member_bytes m"
| "demo_action_bytes (OtherAction bs) = 5 # bs"

fun demo_canonical :: "member_id \<times> op_id list \<times> control_message \<Rightarrow> byte list" where
  "demo_canonical (a, ds, p) = member_bytes a @ concat (map op_bytes ds) @ demo_action_bytes (cm_action p)"

definition demo_sign :: "byte list \<Rightarrow> byte list \<Rightarrow> byte list" where
  "demo_sign sk msg = take 64 (sk @ msg @ replicate 64 0)"

definition demo_id :: "signed_op \<Rightarrow> op_id" where
  "demo_id op = OpId (demo_canonical (so_author op, so_deps op, so_payload op) @ so_signature op)"

definition demo_op :: "member_id \<Rightarrow> op_id list \<Rightarrow> group_action \<Rightarrow> signed_op" where
  "demo_op a ds act = (let p = \<lparr>cm_group_id = MemberId [1], cm_action = act\<rparr> in
     \<lparr>so_author = a, so_deps = ds, so_payload = p,
      so_signature = demo_sign (member_bytes a) (demo_canonical (a, ds, p))\<rparr>)"

definition demo_create :: signed_op where
  "demo_create = demo_op (MemberId [9]) [] (Create [(Individual (MemberId [9]), Manage)])"

definition demo_add :: signed_op where
  "demo_add = demo_op (MemberId [9]) [demo_id demo_create] (Add (Individual (MemberId [8])) Write)"

fun demo_member_step :: "group_action \<Rightarrow> (member_id \<times> access) list \<Rightarrow> (member_id \<times> access) list" where
  "demo_member_step (Create ms) acc = [(m, a). (Individual m, a) \<leftarrow> ms]"
| "demo_member_step (Add (Individual m) a) acc = acc @ [(m, a)]"
| "demo_member_step (Remove (Individual m)) acc = filter (\<lambda>(x, _). x \<noteq> m) acc"
| "demo_member_step _ acc = acc"

definition demo_members :: "signed_op list \<Rightarrow> (member_id \<times> access) list" where
  "demo_members ops = fold (\<lambda>op. demo_member_step (cm_action (so_payload op))) ops []"

definition demo_may :: "signed_op list \<Rightarrow> signed_op \<Rightarrow> bool" where
  "demo_may ops op \<longleftrightarrow> ops = [] \<or> (so_author op, Manage) \<in> set (demo_members ops)"

definition demo_auth :: "signed_op list auth_crates" where
  "demo_auth = \<lparr>blake3 = demo_hash, aead_seal = aead_seal demo_crypto, aead_open = aead_open demo_crypto,
     pub_of = (\<lambda>sk. sk), ed_sign = demo_sign, ed_valid_pub = (\<lambda>_. True),
     ed_verify = (\<lambda>pk m s. s = demo_sign pk m), enc_canonical = demo_canonical,
     enc_op = (\<lambda>op. if op = demo_create then Some [0] else None),
     dec_op = (\<lambda>bs. if bs = [0] then Some demo_create else None),
     enc_log = (\<lambda>ops. if ops = [] then Some [0] else if ops = [demo_create] then Some [1]
       else if ops = [demo_create, demo_add] then Some [2] else None),
     dec_log = (\<lambda>bs. if bs = [0] then Some [] else if bs = [1] then Some [demo_create]
       else if bs = [2] then Some [demo_create, demo_add] else None),
     crdt_new = [], crdt_process = (\<lambda>ops op. if demo_may ops op then Some (ops @ [op]) else None),
     crdt_members = (\<lambda>ops _. demo_members ops),
     crdt_heads = (\<lambda>ops. if ops = [] then [] else [demo_id (last ops)])\<rparr>"

lemma demo_ed_ok: "ed_ok demo_auth"
  by (auto simp: ed_ok_def demo_auth_def demo_sign_def SIGNATURE_LEN_def min_def)

lemma demo_codec_ok: "codec_ok demo_auth"
  unfolding codec_ok_def demo_auth_def by (simp split: if_split)

section \<open>Properties\<close>

text \<open>
  Member identifiers survive their text form: printing 32 bytes gives 64 characters,
  and parsing them returns the same identifier.
\<close>

theorem member_hex_round_trip:
  assumes "length bs = 32"
  shows "length (member_to_hex (MemberId bs)) = 64 \<and> from_hex (member_to_hex (MemberId bs)) = Inr (MemberId bs)"
  using assms from_hex_loop_bytes [of 0 32 bs] by (simp add: from_hex_def member_to_hex_def)

theorem member_hex_round_trip_witness:
  "from_hex (member_to_hex (MemberId (replicate 32 171))) = Inr (MemberId (replicate 32 171))"
  using member_hex_round_trip [of "replicate 32 171"] by simp

text \<open>
  The parser slices by byte offset: a 64 byte argument with a two byte character across
  an even offset ends in a panic instead of the error message, and a sign is taken for
  a digit.
\<close>

lemma from_hex_multibyte_panics:
  "from_hex (CHR ''0'' # CHR 0xC3 # CHR 0xA9 # replicate 61 CHR ''0'') = Inl Panic"
  by code_simp

lemma from_hex_accepts_sign:
  "from_hex (CHR ''+'' # CHR ''f'' # replicate 62 CHR ''0'') = Inr (MemberId (15 # replicate 31 0))"
  by code_simp

text \<open>
  C12. What a successful call of \<open>apply_remote\<close> keeps: the log stays causally ordered,
  free of duplicates, fully signed, equal to what the group state was built from, and
  with nothing waiting that could be applied; it only grows at its end, an operation
  already held changes nothing, and the answer says whether the operation itself was
  applied now.
\<close>

theorem apply_remote_invariant:
  assumes "log_ok C st" and "apply_remote C st op = (Inr b, st')"
  shows "log_ok C st' \<and> prefix (as_ops st) (as_ops st') \<and>
    (compute_id C op \<in> compute_id C ` (set (as_ops st) \<union> set (as_pending st)) \<longrightarrow> st' = st) \<and>
    (b \<longrightarrow> as_ops st' ! length (as_ops st) = op \<and> length (as_ops st) < length (as_ops st')) \<and>
    (\<not> b \<longrightarrow> as_ops st' = as_ops st)"
proof -
  have r: "receive_op C st op = Some st'" using assms(2) by (simp add: receive_op_def)
  have v: "verify C op = Inr ()"
    using assms(2) by (cases "verify C op") (simp_all add: apply_remote_def)
  have inv: "log_ok C st'" by (rule auth_log.invar_receive [OF assms(1) r])
  show ?thesis
    using r
  proof (cases rule: receive_op_cases)
    case dup
    then have "b = False" using assms(2) v unfolding apply_remote_def held_iff by simp
    with dup assms(1) show ?thesis by simp
  next
    case wait
    then have "b = False" using assms(2)
      by (auto simp: apply_remote_def split: if_splits)
    with wait inv show ?thesis by simp
  next
    case (now u st1 u')
    have "log_core C st1" using process_core [OF _ now(4,3,1,2)] assms(1) by (simp add: log_ok_def)
    then have p: "prefix (as_ops st1) (as_ops st')" using drain_pending_core [OF _ now(5)] by blast
    have o1: "as_ops st1 = as_ops st @ [op]" using now(4) by (auto simp: process_ok)
    then have "b = True" using assms(2) now unfolding apply_remote_def held_iff by simp
    with p o1 inv now(2) show ?thesis
      by (auto simp: prefix_def nth_append)
  qed
qed

theorem apply_remote_invariant_witness:
  "\<exists>st'. apply_remote demo_auth (auth_empty demo_auth) demo_create = (Inr True, st') \<and>
     log_ok demo_auth st' \<and> as_ops st' ! 0 = demo_create"
proof -
  have r: "fst (apply_remote demo_auth (auth_empty demo_auth) demo_create) = Inr True" by code_simp
  then have e: "apply_remote demo_auth (auth_empty demo_auth) demo_create =
      (Inr True, snd (apply_remote demo_auth (auth_empty demo_auth) demo_create))"
    by (metis prod.collapse)
  from apply_remote_invariant [OF log_ok_empty e] e show ?thesis
    by (auto simp: auth_empty_def)
qed

text \<open>
  C5. The order in which operations arrive, and how often, does not matter: two peers
  that received the same operations in any order hold the same operations in their
  logs, namely those whose dependencies can be met, and the same ones waiting.
\<close>

theorem auth_log_order_independent:
  assumes "replay C (auth_empty C) xs = Inr s1" and "replay C (auth_empty C) ys = Inr s2"
    and "set xs = set ys" and "inj_on (compute_id C) (set xs)"
  shows "set (as_ops s1) = set (as_ops s2) \<and> set (as_pending s1) = set (as_pending s2) \<and>
    set (as_ops s1) = deliverable (compute_id C) so_deps (set xs)"
proof -
  have e: "as_ops (auth_empty C) = []" "as_pending (auth_empty C) = []"
    by (simp_all add: auth_empty_def)
  note a = auth_log.receive_all_applies [OF log_ok_empty e]
  from a [OF assms(1) [unfolded receive_op_replay]] a [OF assms(2) [unfolded receive_op_replay]] assms(3,4)
  show ?thesis by simp
qed

theorem auth_log_order_independent_witness:
  "\<exists>s1 s2. replay demo_auth (auth_empty demo_auth) [demo_create, demo_add] = Inr s1 \<and>
     replay demo_auth (auth_empty demo_auth) [demo_add, demo_create, demo_add] = Inr s2 \<and>
     set (as_ops s1) = set (as_ops s2) \<and> set (as_pending s1) = set (as_pending s2)"
proof -
  have "is_ok (replay demo_auth (auth_empty demo_auth) [demo_create, demo_add])"
    "is_ok (replay demo_auth (auth_empty demo_auth) [demo_add, demo_create, demo_add])" by code_simp+
  then obtain s1 s2 where "replay demo_auth (auth_empty demo_auth) [demo_create, demo_add] = Inr s1"
    "replay demo_auth (auth_empty demo_auth) [demo_add, demo_create, demo_add] = Inr s2"
    by (auto simp: is_ok_iff)
  moreover have "compute_id demo_auth demo_create \<noteq> compute_id demo_auth demo_add" by code_simp
  then have "inj_on (compute_id demo_auth) (set [demo_create, demo_add])" by (auto simp: inj_on_def)
  ultimately show ?thesis
    using auth_log_order_independent [of demo_auth "[demo_create, demo_add]" s1
        "[demo_add, demo_create, demo_add]" s2] by auto
qed

text \<open>
  C26. An operation this peer authors itself carries its own identity, verifies for
  everybody, is appended to the log, and every peer that is up to date with the author
  and whose group state accepts it applies it at once.
\<close>

theorem authored_op_accepted:
  assumes "ed_ok C" and "author C st my_key gid action = (Inr op, st')"
    and "log_ok C peer" and "set (crdt_heads C (as_crdt st)) \<subseteq> known C peer"
    and "compute_id C op \<notin> compute_id C ` (set (as_ops peer) \<union> set (as_pending peer))"
    and "crdt_process C (as_crdt peer) op \<noteq> None" and "as_pending peer = []"
  shows "so_author op = MemberId (pub_of C my_key) \<and> verify C op = Inr () \<and>
    as_ops st' = as_ops st @ [op] \<and>
    (\<exists>peer'. apply_remote C peer op = (Inr True, peer') \<and> as_ops peer' = as_ops peer @ [op])"
proof -
  note op = author_ok [OF assms(2)]
  have v: "verify C op = Inr ()" by (rule author_verifies [OF assms(1,2)])
  have d: "deps_met C peer op"
    using assms(4) op(1) by (auto simp: deps_met_def list_all_iff)
  obtain s where s: "crdt_process C (as_crdt peer) op = Some s" using assms(6) by blast
  have "apply_remote C peer op = (Inr True, peer\<lparr>as_crdt := s, as_ops := as_ops peer @ [op]\<rparr>)"
    using v d s assms(5,7) by (simp add: apply_remote_def known_def process_def drain_nothing)
  with v op show ?thesis by (auto simp: process_ok)
qed

theorem authored_op_accepted_witness:
  "\<exists>op st'. create_group demo_auth (auth_empty demo_auth) [9] (MemberId [1]) = (Inr op, st') \<and>
     verify demo_auth op = Inr () \<and> so_author op = MemberId [9]"
proof -
  let ?act = "Create [(Individual (MemberId [9]), Manage)]"
  let ?r = "author demo_auth (auth_empty demo_auth) [9] (MemberId [1]) ?act"
  have "is_ok (fst ?r)" by code_simp
  then obtain op where op: "?r = (Inr op, snd ?r)" by (metis is_ok_iff prod.collapse)
  moreover have "create_group demo_auth (auth_empty demo_auth) [9] (MemberId [1]) = ?r"
    by (simp add: create_group_def auth_empty_def demo_auth_def)
  moreover have "crdt_process demo_auth (as_crdt (auth_empty demo_auth)) op \<noteq> None"
    by (simp add: demo_auth_def auth_empty_def demo_may_def)
  ultimately show ?thesis
    using authored_op_accepted [OF demo_ed_ok op log_ok_empty]
    by (auto simp: auth_empty_def demo_auth_def)
qed

text \<open>
  C27. An operation the group library rejects is an error that leaves the log and the
  waiting operations as they were, but not the group state: the emptied state stays in
  place, so until the log is replayed the share has the members of an empty group.
\<close>

theorem rejected_op_empties_group:
  assumes "verify C op = Inr ()" and "deps_met C st op"
    and "compute_id C op \<notin> compute_id C ` (set (as_ops st) \<union> set (as_pending st))"
    and "crdt_process C (as_crdt st) op = None"
  shows "apply_remote C st op = (Inl (Bail ''auth crdt error'' []), st\<lparr>as_crdt := crdt_new C\<rparr>) \<and>
    members C (snd (apply_remote C st op)) g = members C (auth_empty C) g"
proof -
  have "apply_remote C st op = (Inl (Bail ''auth crdt error'' []), st\<lparr>as_crdt := crdt_new C\<rparr>)"
    using assms unfolding apply_remote_def held_iff by (simp add: process_def)
  then show ?thesis by (simp add: members_def auth_empty_def)
qed

definition demo_intruder :: signed_op where
  "demo_intruder = demo_op (MemberId [7]) [] (Add (Individual (MemberId [7])) Manage)"

theorem rejected_op_empties_group_witness:
  "let st = snd (apply_remote demo_auth (auth_empty demo_auth) demo_create) in
     members demo_auth st (MemberId [1]) = [(MemberId [9], Owner)] \<and>
     members demo_auth (snd (apply_remote demo_auth st demo_intruder)) (MemberId [1]) = []"
proof -
  let ?st = "snd (apply_remote demo_auth (auth_empty demo_auth) demo_create)"
  have "verify demo_auth demo_intruder = Inr ()" "deps_met demo_auth ?st demo_intruder"
    "crdt_process demo_auth (as_crdt ?st) demo_intruder = None" by code_simp+
  moreover have "compute_id demo_auth demo_intruder \<notin>
      compute_id demo_auth ` (set (as_ops ?st) \<union> set (as_pending ?st))" by code_simp
  moreover have "members demo_auth (auth_empty demo_auth) (MemberId [1]) = []"
    "members demo_auth ?st (MemberId [1]) = [(MemberId [9], Owner)]" by code_simp+
  ultimately show ?thesis
    unfolding Let_def using rejected_op_empties_group [of demo_auth demo_intruder ?st "MemberId [1]"]
    by metis
qed

text \<open>
  C20. The log on disk: under any pattern of failing calls \<open>auth.log\<close> holds its old
  contents or the complete new log, and no other file but the temporary changes; after
  a successful save, a start without read errors gives back the same log and group
  state, with nothing waiting.
\<close>

theorem auth_log_round_trip:
  assumes "codec_ok C" and "log_ok C st"
    and "list_all (\<lambda>op. length (so_signature op) = SIGNATURE_LEN) (as_ops st)"
    and "auth_save C dd sid st w = (r, w')"
  shows "fs_file w' (auth_log_path dd sid) \<in> {fs_file w (auth_log_path dd sid), enc_log C (as_ops st)} \<and>
    (\<forall>q. q \<notin> {auth_log_path dd sid, auth_tmp dd sid} \<longrightarrow> fs_file w' q = fs_file w q) \<and>
    (is_ok r \<and> fault_free w' \<longrightarrow>
       (\<exists>w''. auth_load C dd sid w' = (Inr (st\<lparr>as_pending := []\<rparr>), w'') \<and> fs_file w'' = fs_file w'))"
proof (intro conjI impI)
  show "fs_file w' (auth_log_path dd sid) \<in> {fs_file w (auth_log_path dd sid), enc_log C (as_ops st)}"
    using auth_file.save_effect [OF assms(4)] auth_save_unencodable [OF _ assms(4)]
    by (cases "enc_log C (as_ops st)") auto
  show "\<forall>q. q \<notin> {auth_log_path dd sid, auth_tmp dd sid} \<longrightarrow> fs_file w' q = fs_file w q"
    using auth_file.save_keeps [OF assms(4)] by blast
  assume ok: "is_ok r \<and> fault_free w'"
  then obtain bs where bs: "enc_log C (as_ops st) = Some bs"
    using auth_save_unencodable(1) [OF _ assms(4)] by (cases "enc_log C (as_ops st)") auto
  then have f: "fs_file w' (auth_log_path dd sid) = Some bs"
    using auth_file.save_effect [OF assms(4)] ok by auto
  then have ex: "fs_exists w' (auth_log_path dd sid)"
    by (auto simp: fs_file_def fs_exists_def split: option.splits)
  have dec: "Option.bind (dec_log C bs) (\<lambda>ops. those (map check_signature_len ops)) = Some (as_ops st)"
    using assms(1) bs those_check_signature [OF assms(3)] by (simp add: codec_ok_def)
  show "\<exists>w''. auth_load C dd sid w' = (Inr (st\<lparr>as_pending := []\<rparr>), w'') \<and> fs_file w'' = fs_file w'"
    using ex fs_read_progress [OF _ f] ok dec replay_log [OF conjunct1 [OF assms(2) [unfolded log_ok_def]]]
    by (simp add: auth_load_def Let_def)
qed

theorem auth_log_round_trip_witness:
  "let st = snd (apply_remote demo_auth (auth_empty demo_auth) demo_create);
       w' = snd (auth_save demo_auth [''d''] ''s'' st (calm_world [])) in
   \<exists>w''. auth_load demo_auth [''d''] ''s'' w' = (Inr st, w'')"
proof -
  let ?st = "snd (apply_remote demo_auth (auth_empty demo_auth) demo_create)"
  let ?s = "auth_save demo_auth [''d''] ''s'' ?st (calm_world [])"
  have "fst (apply_remote demo_auth (auth_empty demo_auth) demo_create) = Inr True" by code_simp
  then have "receive_op demo_auth (auth_empty demo_auth) demo_create = Some ?st"
    unfolding receive_op_def by (metis (mono_tags, lifting) case_prod_beta' old.sum.simps(6))
  then have inv: "log_ok demo_auth ?st" by (rule auth_log.invar_receive [OF log_ok_empty])
  have sig: "list_all (\<lambda>op. length (so_signature op) = SIGNATURE_LEN) (as_ops ?st)" by code_simp
  have "is_ok (fst ?s)" "as_pending ?st = []" by code_simp+
  moreover have "fault_free (snd ?s)" by (intro keeps_faults_fault_free) simp_all
  moreover have "?s = (fst ?s, snd ?s)" by simp
  ultimately show ?thesis
    using auth_log_round_trip [OF demo_codec_ok inv sig \<open>?s = (fst ?s, snd ?s)\<close>] by (auto simp: Let_def)
qed

end
