(* ===== verification/Rotation.thy ===== *)
theory Rotation
  imports Auth
begin

text \<open>
  \<^verbatim>\<open>src/rotation.rs\<close>: the signed envelopes that carry a new epoch key to the members of
  a share, and the queue of rotations on disk.

  \<open>crypto_box\<close> and the Ed25519 to X25519 conversion are further fields of the crates
  parameter; \<open>box_pub_of_ed\<close> answers \<open>None\<close> for bytes that are no curve point.
\<close>

section \<open>Operations\<close>

record key_envelope =
  ke_recipient :: member_id
  ke_ephemeral :: "byte list"
  ke_nonce :: "byte list"
  ke_ciphertext :: "byte list"

record signed_rotation =
  rot_epoch :: u64
  rot_rotator :: member_id
  rot_signature :: "byte list"
  rot_envelopes :: "key_envelope list"

datatype verify_outcome = OkForUs key | NotForUs | NotAManager | BadSignature | DecryptFailed

record 'c box_crates = "'c auth_crates" +
  box_pub_of_ed :: "byte list \<Rightarrow> byte list option"
  box_sec_of_ed :: "byte list \<Rightarrow> byte list"
  box_pub_of :: "byte list \<Rightarrow> byte list"
  box_seal :: "byte list \<Rightarrow> byte list \<Rightarrow> byte list \<Rightarrow> byte list \<Rightarrow> byte list option"
  box_open :: "byte list \<Rightarrow> byte list \<Rightarrow> byte list \<Rightarrow> byte list \<Rightarrow> byte list option"
  enc_rotation_canonical :: "u64 \<times> member_id \<times> key_envelope list \<Rightarrow> byte list"
  enc_rotation :: "signed_rotation \<Rightarrow> byte list option"
  dec_rotation :: "byte list \<Rightarrow> signed_rotation option"

definition rotation_canonical_bytes ::
  "('c, 'z) box_crates_scheme \<Rightarrow> u64 \<Rightarrow> member_id \<Rightarrow> key_envelope list \<Rightarrow> byte list" where
  "rotation_canonical_bytes C epoch rotator_pubkey envelopes =
     enc_rotation_canonical C (epoch, rotator_pubkey, envelopes)"

definition ed25519_pub_to_box_pub ::
  "('c, 'z) box_crates_scheme \<Rightarrow> byte list \<Rightarrow> byte list result" where
  "ed25519_pub_to_box_pub C raw_key = (case box_pub_of_ed C raw_key of
     None \<Rightarrow> Inl (Bail ''invalid Ed25519 pubkey'' []) | Some p \<Rightarrow> Inr p)"

definition ed25519_priv_to_box_priv :: "('c, 'z) box_crates_scheme \<Rightarrow> byte list \<Rightarrow> byte list" where
  "ed25519_priv_to_box_priv C identity = box_sec_of_ed C identity"

text \<open>The body of the loop of \<open>build_signed_rotation\<close>: one sealed copy of the key.\<close>

definition seal_envelope ::
  "('c, 'z) box_crates_scheme \<Rightarrow> key \<Rightarrow> member_id \<Rightarrow> key_envelope io" where
  "seal_envelope C new_key recipient =
     io_bind (io_lift (ed25519_pub_to_box_pub C (member_bytes recipient))) (\<lambda>recipient_box_pub.
     io_bind (fill_bytes 32) (\<lambda>ephemeral_secret.
     io_bind (fill_bytes 24) (\<lambda>nonce.
     case box_seal C recipient_box_pub ephemeral_secret nonce new_key of
       None \<Rightarrow> io_fail (Bail ''crypto_box encrypt failed'' [])
     | Some ciphertext \<Rightarrow> io_return
         \<lparr>ke_recipient = recipient, ke_ephemeral = box_pub_of C ephemeral_secret,
          ke_nonce = nonce, ke_ciphertext = ciphertext\<rparr>)))"

fun seal_envelopes ::
  "('c, 'z) box_crates_scheme \<Rightarrow> key \<Rightarrow> member_id list \<Rightarrow> key_envelope list io" where
  "seal_envelopes C new_key [] = io_return []"
| "seal_envelopes C new_key (r # rs) =
     io_bind (seal_envelope C new_key r) (\<lambda>e.
     io_bind (seal_envelopes C new_key rs) (\<lambda>es.
     io_return (e # es)))"

definition build_signed_rotation ::
  "('c, 'z) box_crates_scheme \<Rightarrow> byte list \<Rightarrow> u64 \<Rightarrow> key \<Rightarrow> member_id list \<Rightarrow> signed_rotation io" where
  "build_signed_rotation C rotator epoch new_key recipients =
     (let sorted_recipients = remdups_adj (sort recipients);
          rotator_pubkey = MemberId (pub_of C rotator)
      in io_bind (seal_envelopes C new_key sorted_recipients) (\<lambda>envelopes.
         io_return
           \<lparr>rot_epoch = epoch, rot_rotator = rotator_pubkey,
            rot_signature = ed_sign C rotator (rotation_canonical_bytes C epoch rotator_pubkey envelopes),
            rot_envelopes = envelopes\<rparr>))"

definition verify_and_decrypt ::
  "('c, 'z) box_crates_scheme \<Rightarrow> signed_rotation \<Rightarrow> 'c auth_state \<Rightarrow> member_id \<Rightarrow> byte list \<Rightarrow>
   verify_outcome" where
  "verify_and_decrypt C rotation auth_state group_id me_identity =
     (if \<not> ed_valid_pub C (member_bytes (rot_rotator rotation)) then BadSignature
      else if \<not> ed_verify C (member_bytes (rot_rotator rotation))
          (rotation_canonical_bytes C (rot_epoch rotation) (rot_rotator rotation) (rot_envelopes rotation))
          (rot_signature rotation)
      then BadSignature
      else if \<not> list_ex (\<lambda>(m, role). m = rot_rotator rotation \<and> role = Owner)
          (members C auth_state group_id)
      then NotAManager
      else case List.find (\<lambda>e. ke_recipient e = MemberId (pub_of C me_identity)) (rot_envelopes rotation) of
        None \<Rightarrow> NotForUs
      | Some envelope \<Rightarrow>
          (case box_open C (ke_ephemeral envelope) (ed25519_priv_to_box_priv C me_identity)
             (ke_nonce envelope) (ke_ciphertext envelope) of
             None \<Rightarrow> DecryptFailed
           | Some plaintext \<Rightarrow>
               if length plaintext \<noteq> KEY_LEN then DecryptFailed else OkForUs plaintext))"

definition pending_dir :: "path \<Rightarrow> string \<Rightarrow> path" where
  "pending_dir data_dir share_id = share_dir data_dir share_id @ [''pending_rotations'']"

definition save_pending ::
  "('c, 'z) box_crates_scheme \<Rightarrow> path \<Rightarrow> string \<Rightarrow> signed_rotation \<Rightarrow> unit io" where
  "save_pending C data_dir share_id rotation =
     (let dir = pending_dir data_dir share_id in
      io_bind (fs_create_dir_all dir) (\<lambda>_.
      case enc_rotation C rotation of
        None \<Rightarrow> io_fail (Bail ''encoding rotation'' [])
      | Some bytes \<Rightarrow>
          let path = dir @ [show_nat (unat (rot_epoch rotation)) @ ''.bin''];
              tmp = with_extension path ''bin.tmp'' in
          io_bind (fs_write tmp bytes) (\<lambda>_.
          io_bind (fs_rename tmp path) (\<lambda>_.
          fs_chmod path mode_0600))))"

definition decode_rotation ::
  "('c, 'z) box_crates_scheme \<Rightarrow> byte list \<Rightarrow> signed_rotation option" where
  "decode_rotation C bytes = Option.bind (dec_rotation C bytes) (\<lambda>r.
     map_option (\<lambda>s. r\<lparr>rot_signature := s\<rparr>) (sig_deserialize (rot_signature r)))"

fun load_pending_loop ::
  "('c, 'z) box_crates_scheme \<Rightarrow> path \<Rightarrow> string list \<Rightarrow> signed_rotation list io" where
  "load_pending_loop C dir [] = io_return []"
| "load_pending_loop C dir (name # names) =
     (if path_extension name \<noteq> Some ''bin'' then load_pending_loop C dir names
      else
        io_bind (fs_read (dir @ [name])) (\<lambda>bytes.
        case decode_rotation C bytes of
          None \<Rightarrow> io_fail (Bail ''decoding rotation'' [])
        | Some rot \<Rightarrow>
            io_bind (load_pending_loop C dir names) (\<lambda>rots.
            io_return (rot # rots))))"

definition load_pending ::
  "('c, 'z) box_crates_scheme \<Rightarrow> path \<Rightarrow> string \<Rightarrow> signed_rotation list io" where
  "load_pending C data_dir share_id w =
     (let dir = pending_dir data_dir share_id in
      if \<not> fs_exists w dir then io_return [] w
      else
        io_bind (fs_read_dir dir) (\<lambda>names.
        io_bind (load_pending_loop C dir names) (\<lambda>out.
        io_return (sort_key rot_epoch out))) w)"

section \<open>What the code relies on\<close>

text \<open>
  X25519 and NaCl's box: the public key converted from an Ed25519 identity belongs to the
  secret converted from it, and what is sealed from one key pair to another opens the
  other way round.
\<close>

definition box_ok :: "('c, 'z) box_crates_scheme \<Rightarrow> bool" where
  "box_ok C \<longleftrightarrow>
     (\<forall>sk. box_pub_of_ed C (pub_of C sk) = Some (box_pub_of C (box_sec_of_ed C sk))) \<and>
     (\<forall>a b n m ct. box_seal C (box_pub_of C a) b n m = Some ct \<longrightarrow>
        box_open C (box_pub_of C b) a n ct = Some m)"

definition rotation_codec_ok :: "('c, 'z) box_crates_scheme \<Rightarrow> bool" where
  "rotation_codec_ok C \<longleftrightarrow> (\<forall>r bs. enc_rotation C r = Some bs \<longrightarrow> dec_rotation C bs = Some r)"

section \<open>Sealing and opening\<close>

lemma seal_envelope_ok:
  assumes "seal_envelope C k r w = (Inr e, w')"
  obtains p esk where "box_pub_of_ed C (member_bytes r) = Some p" "ke_recipient e = r"
    "ke_ephemeral e = box_pub_of C esk" "box_seal C p esk (ke_nonce e) k = Some (ke_ciphertext e)"
  using assms
  by (auto simp: seal_envelope_def io_bind_eq_Inr ed25519_pub_to_box_pub_def split: option.splits)

lemma seal_envelopes_ok:
  assumes "seal_envelopes C k rs w = (Inr es, w')"
  shows "map ke_recipient es = rs"
    and "e \<in> set es \<Longrightarrow> \<exists>p esk. box_pub_of_ed C (member_bytes (ke_recipient e)) = Some p \<and>
      ke_ephemeral e = box_pub_of C esk \<and> box_seal C p esk (ke_nonce e) k = Some (ke_ciphertext e)"
proof -
  have "map ke_recipient es = rs \<and> (\<forall>e \<in> set es. \<exists>p esk.
      box_pub_of_ed C (member_bytes (ke_recipient e)) = Some p \<and>
      ke_ephemeral e = box_pub_of C esk \<and> box_seal C p esk (ke_nonce e) k = Some (ke_ciphertext e))"
    using assms
  proof (induction rs arbitrary: es w)
    case (Cons r rs)
    then obtain e w1 es1 where e: "seal_envelope C k r w = (Inr e, w1)"
      and es: "seal_envelopes C k rs w1 = (Inr es1, w')" "es = e # es1"
      by (auto simp: io_bind_eq_Inr)
    from e show ?case by (rule seal_envelope_ok) (use Cons.IH [OF es(1)] es(2) in auto)
  qed simp
  then show "map ke_recipient es = rs"
    and "e \<in> set es \<Longrightarrow> \<exists>p esk. box_pub_of_ed C (member_bytes (ke_recipient e)) = Some p \<and>
      ke_ephemeral e = box_pub_of C esk \<and> box_seal C p esk (ke_nonce e) k = Some (ke_ciphertext e)"
    by auto
qed

lemma build_signed_rotation_ok:
  assumes "build_signed_rotation C sk ep k rs w = (Inr rot, w')"
  obtains w1 where "seal_envelopes C k (remdups_adj (sort rs)) w = (Inr (rot_envelopes rot), w1)"
    "rot_epoch rot = ep" "rot_rotator rot = MemberId (pub_of C sk)"
    "rot_signature rot = ed_sign C sk
       (rotation_canonical_bytes C (rot_epoch rot) (rot_rotator rot) (rot_envelopes rot))"
  using assms by (auto simp: build_signed_rotation_def Let_def io_bind_eq_Inr)

lemma set_remdups_sort [simp]: "set (remdups_adj (sort rs)) = set rs"
  by simp

lemma verify_and_decrypt_built:
  assumes "ed_ok C" and "rot_rotator rot = MemberId (pub_of C sk)"
    and "rot_signature rot = ed_sign C sk
       (rotation_canonical_bytes C (rot_epoch rot) (rot_rotator rot) (rot_envelopes rot))"
    and "(rot_rotator rot, Owner) \<in> set (members C st g)"
  shows "verify_and_decrypt C rot st g me =
    (case List.find (\<lambda>e. ke_recipient e = MemberId (pub_of C me)) (rot_envelopes rot) of
       None \<Rightarrow> NotForUs
     | Some e \<Rightarrow> (case box_open C (ke_ephemeral e) (box_sec_of_ed C me) (ke_nonce e) (ke_ciphertext e) of
         None \<Rightarrow> DecryptFailed
       | Some p \<Rightarrow> if length p \<noteq> KEY_LEN then DecryptFailed else OkForUs p))"
proof -
  have "list_ex (\<lambda>(m, role). m = rot_rotator rot \<and> role = Owner) (members C st g)"
    using assms(4) by (auto simp: list_ex_iff)
  moreover have "ed_verify C (pub_of C sk) m (ed_sign C sk m)" "ed_valid_pub C (pub_of C sk)" for m
    using assms(1) by (simp_all add: ed_ok_def)
  ultimately show ?thesis
    unfolding verify_and_decrypt_def ed25519_priv_to_box_priv_def assms(3) by (simp add: assms(2))
qed

lemma rotation_opens:
  assumes "ed_ok C" and "box_ok C" and "length new_key = KEY_LEN"
    and "build_signed_rotation C rotator ep new_key recipients w = (Inr rot, w')"
    and "(MemberId (pub_of C rotator), Owner) \<in> set (members C st g)"
  shows "verify_and_decrypt C rot st g me =
    (if MemberId (pub_of C me) \<in> set recipients then OkForUs new_key else NotForUs)"
  using assms(4)
proof (rule build_signed_rotation_ok)
  fix w1
  assume se: "seal_envelopes C new_key (remdups_adj (sort recipients)) w = (Inr (rot_envelopes rot), w1)"
    and rp: "rot_rotator rot = MemberId (pub_of C rotator)"
    and sg: "rot_signature rot = ed_sign C rotator
       (rotation_canonical_bytes C (rot_epoch rot) (rot_rotator rot) (rot_envelopes rot))"
  let ?es = "rot_envelopes rot" and ?me = "MemberId (pub_of C me)"
  have recips: "ke_recipient ` set ?es = set recipients"
    using seal_envelopes_ok(1) [OF se] by (metis set_map set_remdups_sort)
  have v: "verify_and_decrypt C rot st g me =
    (case List.find (\<lambda>e. ke_recipient e = ?me) ?es of
       None \<Rightarrow> NotForUs
     | Some e \<Rightarrow> (case box_open C (ke_ephemeral e) (box_sec_of_ed C me) (ke_nonce e) (ke_ciphertext e) of
         None \<Rightarrow> DecryptFailed
       | Some p \<Rightarrow> if length p \<noteq> KEY_LEN then DecryptFailed else OkForUs p))"
    using assms(5) rp by (intro verify_and_decrypt_built [OF assms(1) rp sg]) simp
  show ?thesis
  proof (cases "List.find (\<lambda>e. ke_recipient e = ?me) ?es")
    case None
    then have "?me \<notin> set recipients" unfolding recips [symmetric] by (auto simp: find_None_iff_all)
    with None v show ?thesis by simp
  next
    case (Some e)
    then have e: "e \<in> set ?es" "ke_recipient e = ?me" by (auto dest: find_map_Some)
    then obtain p esk where p: "box_pub_of_ed C (pub_of C me) = Some p"
      "ke_ephemeral e = box_pub_of C esk" "box_seal C p esk (ke_nonce e) new_key = Some (ke_ciphertext e)"
      using seal_envelopes_ok(2) [OF se e(1)] by auto
    then have "box_open C (ke_ephemeral e) (box_sec_of_ed C me) (ke_nonce e) (ke_ciphertext e) = Some new_key"
      using assms(2) by (simp add: box_ok_def)
    moreover have "?me \<in> set recipients" using e unfolding recips [symmetric] by force
    ultimately show ?thesis using Some v assms(3) by simp
  qed
qed

section \<open>The queue on disk\<close>

abbreviation pending_path :: "path \<Rightarrow> string \<Rightarrow> signed_rotation \<Rightarrow> path" where
  "pending_path dd sid rot \<equiv> pending_dir dd sid @ [show_nat (unat (rot_epoch rot)) @ ''.bin'']"

abbreviation pending_tmp :: "path \<Rightarrow> string \<Rightarrow> signed_rotation \<Rightarrow> path" where
  "pending_tmp dd sid rot \<equiv> with_extension (pending_path dd sid rot) ''bin.tmp''"

lemma show_nat_no_dot: "CHR ''.'' \<notin> set (show_nat n)"
  using show_nat_digits [of "CHR ''.''" n] by auto

lemma pending_tmp_eq:
  "pending_tmp dd sid rot = pending_dir dd sid @ [show_nat (unat (rot_epoch rot)) @ ''.bin.tmp'']"
  by (simp add: file_stem_append)

lemma pending_ext: "path_extension (show_nat n @ ''.bin'') = Some ''bin''"
  by (simp add: path_extension_append)

lemma pending_paths_differ:
  "pending_tmp dd sid rot \<noteq> pending_path dd sid rot"
  "rot_epoch rot' \<noteq> rot_epoch rot \<Longrightarrow> pending_path dd sid rot' \<notin> {pending_path dd sid rot, pending_tmp dd sid rot}"
proof -
  show "pending_tmp dd sid rot \<noteq> pending_path dd sid rot"
    unfolding pending_tmp_eq by simp
  have "last (show_nat n @ ''.bin'') \<noteq> last (show_nat m @ ''.bin.tmp'')" for n m by simp
  then have "show_nat n @ ''.bin'' \<noteq> show_nat m @ ''.bin.tmp''" for n m by metis
  then show "rot_epoch rot' \<noteq> rot_epoch rot \<Longrightarrow>
      pending_path dd sid rot' \<notin> {pending_path dd sid rot, pending_tmp dd sid rot}"
    unfolding pending_tmp_eq by (simp add: word_unat_eq_iff)
qed

lemma save_pending_replace:
  "enc_rotation C rot = Some bs \<Longrightarrow>
   save_pending C dd sid rot = io_bind (fs_replace (pending_tmp dd sid rot) (pending_path dd sid rot) bs)
     (\<lambda>_. fs_chmod (pending_path dd sid rot) mode_0600)"
  by (simp add: save_pending_def fs_replace_def io_bind_assoc Let_def)

text \<open>
  Saving a rotation writes one file, named after its epoch; the file of every other
  epoch keeps its contents.
\<close>

lemma save_pending_effect:
  assumes "save_pending C dd sid rot w = (r, w')"
  shows "(fs_file w' (pending_path dd sid rot) = enc_rotation C rot \<and> enc_rotation C rot \<noteq> None) \<or>
      (\<not> is_ok r \<and> fs_file w' (pending_path dd sid rot) = fs_file w (pending_path dd sid rot))"
    and "q \<notin> {pending_path dd sid rot, pending_tmp dd sid rot} \<Longrightarrow> fs_file w' q = fs_file w q"
proof -
  have "((fs_file w' (pending_path dd sid rot) = enc_rotation C rot \<and> enc_rotation C rot \<noteq> None) \<or>
      (\<not> is_ok r \<and> fs_file w' (pending_path dd sid rot) = fs_file w (pending_path dd sid rot))) \<and>
      (q \<notin> {pending_path dd sid rot, pending_tmp dd sid rot} \<longrightarrow> fs_file w' q = fs_file w q)"
  proof (cases "enc_rotation C rot")
    case None
    with assms have "io_bind (fs_create_dir_all (pending_dir dd sid))
        (\<lambda>_. io_fail (Bail ''encoding rotation'' [])) w = (r, w')"
      by (simp add: save_pending_def)
    then show ?thesis
      using fs_create_dir_all_files [of "pending_dir dd sid" w]
      by (cases rule: io_bind_cases) auto
  next
    case (Some bs)
    note e = replace_chmod_effect [OF assms [unfolded save_pending_replace [OF Some]] pending_paths_differ(1)]
    show ?thesis using e(1) e(2) [of q] Some by auto
  qed
  then show "(fs_file w' (pending_path dd sid rot) = enc_rotation C rot \<and> enc_rotation C rot \<noteq> None) \<or>
      (\<not> is_ok r \<and> fs_file w' (pending_path dd sid rot) = fs_file w (pending_path dd sid rot))"
    and "q \<notin> {pending_path dd sid rot, pending_tmp dd sid rot} \<Longrightarrow> fs_file w' q = fs_file w q" by auto
qed

lemma load_pending_loop_ok:
  assumes "load_pending_loop C dir names w = (Inr rots, w')"
  shows "fs_file w' = fs_file w \<and>
    map Some rots = map (\<lambda>n. Option.bind (fs_file w (dir @ [n])) (decode_rotation C))
      (filter (\<lambda>n. path_extension n = Some ''bin'') names)"
  using assms
proof (induction names arbitrary: rots w)
  case (Cons n names)
  show ?case
  proof (cases "path_extension n = Some ''bin''")
    case False
    with Cons show ?thesis by simp
  next
    case True
    with Cons.prems obtain bs w1 rot rest where rd: "fs_read (dir @ [n]) w = (Inr bs, w1)"
      and dec: "decode_rotation C bs = Some rot" and rots: "rots = rot # rest"
      and rec: "load_pending_loop C dir names w1 = (Inr rest, w')"
      by (auto simp: io_bind_eq_Inr split: option.splits)
    have "fs_file w1 = fs_file w" using fs_read_files [of "dir @ [n]" w] rd by simp
    moreover have "fs_file w (dir @ [n]) = Some bs" using fs_read_ok [OF rd] by simp
    ultimately show ?thesis using Cons.IH [OF rec] True dec rots by simp
  qed
qed simp

section \<open>A concrete instance\<close>

definition demo_box :: "signed_op list box_crates" where
  "demo_box = auth_crates.extend demo_auth
     \<lparr>box_pub_of_ed = Some, box_sec_of_ed = (\<lambda>sk. sk), box_pub_of = (\<lambda>sk. sk),
      box_seal = (\<lambda>p s n m. Some (p @ m)),
      box_open = (\<lambda>p s n ct. if take (length s) ct = s then Some (drop (length s) ct) else None),
      enc_rotation_canonical = (\<lambda>(e, m, es). member_bytes m @ concat (map (\<lambda>e. member_bytes (ke_recipient e)) es)),
      enc_rotation = (\<lambda>r. if length (rot_signature r) = 64 \<and> rot_envelopes r = []
        then Some (to_le_bytes (rot_epoch r) @ rot_signature r @ member_bytes (rot_rotator r)) else None),
      dec_rotation = (\<lambda>bs. Some \<lparr>rot_epoch = from_le_bytes (take 8 bs), rot_rotator = MemberId (drop 72 bs),
        rot_signature = take 64 (drop 8 bs), rot_envelopes = []\<rparr>)\<rparr>"

lemma demo_box_fields [simp]:
  "pub_of demo_box = (\<lambda>sk. sk)" "ed_sign demo_box = demo_sign" "ed_valid_pub demo_box = (\<lambda>_. True)"
  "ed_verify demo_box = (\<lambda>pk m s. s = demo_sign pk m)"
  by (simp_all add: demo_box_def auth_crates.defs demo_auth_def)

lemma demo_box_ed_ok: "ed_ok demo_box"
  by (auto simp: ed_ok_def demo_sign_def SIGNATURE_LEN_def min_def)

lemma demo_box_ok: "box_ok demo_box"
  by (simp add: box_ok_def demo_box_def auth_crates.defs demo_auth_def)

lemma demo_rotation_codec_ok: "rotation_codec_ok demo_box"
  by (auto simp: rotation_codec_ok_def demo_box_def auth_crates.defs split: if_splits)

definition demo_owner_state :: "signed_op list auth_state" where
  "demo_owner_state = \<lparr>as_crdt = [demo_create], as_ops = [demo_create], as_pending = []\<rparr>"

section \<open>Properties\<close>

text \<open>
  C13. Exactly the listed recipients can open a rotation: whoever is among them and sees
  the rotator as an owner of the group decrypts the new key, everybody else is told
  that the rotation is not for them.
\<close>

theorem rotation_opens_for_recipients:
  assumes "ed_ok C" and "box_ok C" and "length new_key = KEY_LEN"
    and "build_signed_rotation C rotator ep new_key recipients w = (Inr rot, w')"
    and "(MemberId (pub_of C rotator), Owner) \<in> set (members C st g)"
  shows "verify_and_decrypt C rot st g me =
    (if MemberId (pub_of C me) \<in> set recipients then OkForUs new_key else NotForUs)"
  using assms by (rule rotation_opens)

theorem rotation_opens_for_recipients_witness:
  "\<exists>rot. fst (build_signed_rotation demo_box [9] 2 (replicate 32 5) [MemberId [8], MemberId [7], MemberId [8]]
      (calm_world [])) = Inr rot \<and>
    verify_and_decrypt demo_box rot demo_owner_state (MemberId [1]) [8] = OkForUs (replicate 32 5) \<and>
    verify_and_decrypt demo_box rot demo_owner_state (MemberId [1]) [6] = NotForUs"
proof -
  let ?b = "build_signed_rotation demo_box [9] 2 (replicate 32 5) [MemberId [8], MemberId [7], MemberId [8]]
      (calm_world [])"
  have "is_ok (fst ?b)" by code_simp
  then obtain rot where r: "?b = (Inr rot, snd ?b)" by (metis is_ok_iff prod.collapse)
  have "(MemberId [9], Owner) \<in> set (members demo_box demo_owner_state (MemberId [1]))" by code_simp
  then have o: "(MemberId (pub_of demo_box [9]), Owner) \<in> set (members demo_box demo_owner_state (MemberId [1]))"
    by simp
  have "length (replicate 32 5 :: byte list) = KEY_LEN" by (simp add: KEY_LEN_def)
  note v = rotation_opens_for_recipients [OF demo_box_ed_ok demo_box_ok this r o]
  have "fst ?b = Inr rot" using r by (metis fst_conv)
  then show ?thesis
    using v [of "[8]"] v [of "[6]"] by auto
qed

text \<open>
  The envelopes of a rotation are one per recipient, in the order of the public
  keys: the order and repetitions in the caller's list do not matter.
\<close>

theorem rotation_recipients_canonical:
  assumes "build_signed_rotation C rotator ep new_key recipients w = (Inr rot, w')"
  shows "map ke_recipient (rot_envelopes rot) = sorted_list_of_set (set recipients) \<and>
    rot_epoch rot = ep \<and> rot_rotator rot = MemberId (pub_of C rotator)"
  using assms
proof (rule build_signed_rotation_ok)
  fix w1
  assume "seal_envelopes C new_key (remdups_adj (sort recipients)) w = (Inr (rot_envelopes rot), w1)"
    and "rot_epoch rot = ep" and "rot_rotator rot = MemberId (pub_of C rotator)"
  then show ?thesis using seal_envelopes_ok(1) dedup_sort by metis
qed

theorem rotation_recipients_canonical_witness:
  "\<exists>rot. fst (build_signed_rotation demo_box [9] 2 (replicate 32 5) [MemberId [8], MemberId [7], MemberId [8]]
      (calm_world [])) = Inr rot \<and> map ke_recipient (rot_envelopes rot) = [MemberId [7], MemberId [8]]"
proof -
  let ?b = "build_signed_rotation demo_box [9] 2 (replicate 32 5) [MemberId [8], MemberId [7], MemberId [8]]
      (calm_world [])"
  have "is_ok (fst ?b)" by code_simp
  then obtain rot where r: "?b = (Inr rot, snd ?b)" by (metis is_ok_iff prod.collapse)
  moreover have "sorted_list_of_set (set [MemberId [8], MemberId [7], MemberId [8]]) = [MemberId [7], MemberId [8]]"
    by code_simp
  ultimately show ?thesis
    using rotation_recipients_canonical [OF r] by (metis fst_conv)
qed

text \<open>
  The queue of rotations on disk: a saved rotation is among those the next start
  loads, sorted by epoch, together with every rotation stored before under another
  epoch; a failed save leaves the old file of that epoch or the complete new one.
\<close>

theorem pending_round_trip:
  assumes "rotation_codec_ok C" and "length (rot_signature rot) = SIGNATURE_LEN"
    and "save_pending C dd sid rot w = (r, w')"
  shows "fs_file w' (pending_path dd sid rot) \<in> {fs_file w (pending_path dd sid rot), enc_rotation C rot} \<and>
    (rot_epoch old \<noteq> rot_epoch rot \<longrightarrow>
       fs_file w' (pending_path dd sid old) = fs_file w (pending_path dd sid old)) \<and>
    (is_ok r \<and> load_pending C dd sid w' = (Inr rots, w'') \<longrightarrow>
       rot \<in> set rots \<and> sorted (map rot_epoch rots) \<and> fs_file w'' = fs_file w')"
proof (intro conjI impI)
  show "fs_file w' (pending_path dd sid rot) \<in> {fs_file w (pending_path dd sid rot), enc_rotation C rot}"
    using save_pending_effect(1) [OF assms(3)] by auto
  show "fs_file w' (pending_path dd sid old) = fs_file w (pending_path dd sid old)"
    if "rot_epoch old \<noteq> rot_epoch rot"
    using save_pending_effect(2) [OF assms(3) pending_paths_differ(2) [OF that]] .
next
  assume ok: "is_ok r \<and> load_pending C dd sid w' = (Inr rots, w'')"
  let ?dir = "pending_dir dd sid" and ?n = "show_nat (unat (rot_epoch rot)) @ ''.bin''"
  obtain bs where bs: "enc_rotation C rot = Some bs" "fs_file w' (?dir @ [?n]) = Some bs"
    using save_pending_effect(1) [OF assms(3)] ok by auto
  have dec: "decode_rotation C bs = Some rot"
    using assms(1,2) bs(1) by (simp add: decode_rotation_def rotation_codec_ok_def sig_deserialize_def)
  have n: "?n \<in> set (dir_entries w' ?dir)" using bs(2) by (simp add: dir_entries_file)
  have "fs_is_dir w' ?dir"
  proof -
    obtain u where "r = Inr u" using ok by (auto simp: is_ok_iff)
    with replace_chmod_is_dir assms(3) [unfolded save_pending_replace [OF bs(1)]] show ?thesis
      by fastforce
  qed
  then have "fs_exists w' ?dir" by (auto simp: fs_is_dir_def fs_exists_def)
  with ok obtain names w1 out where rd: "fs_read_dir ?dir w' = (Inr names, w1)"
    and lp: "load_pending_loop C ?dir names w1 = (Inr out, w'')" and rots: "rots = sort_key rot_epoch out"
    by (auto simp: load_pending_def Let_def io_bind_eq_Inr)
  note f = fs_read_dir_ok [OF rd] and l = load_pending_loop_ok [OF lp]
  have "Option.bind (fs_file w1 (?dir @ [?n])) (decode_rotation C) = Some rot"
    using f bs(2) dec by simp
  moreover have "?n \<in> set (filter (\<lambda>n. path_extension n = Some ''bin'') names)"
    using n f pending_ext by simp
  ultimately have "Some rot \<in> set (map Some out)" using l by force
  then show "rot \<in> set rots" using rots by auto
  show "sorted (map rot_epoch rots)" "fs_file w'' = fs_file w'" using rots l f by simp_all
qed

definition demo_rotation :: signed_rotation where
  "demo_rotation = \<lparr>rot_epoch = 2, rot_rotator = MemberId [9], rot_signature = replicate 64 3, rot_envelopes = []\<rparr>"

theorem pending_round_trip_witness:
  "\<exists>rots. fst (load_pending demo_box [''d''] ''s''
      (snd (save_pending demo_box [''d''] ''s'' demo_rotation (calm_world [])))) = Inr rots \<and>
    demo_rotation \<in> set rots"
proof -
  let ?s = "save_pending demo_box [''d''] ''s'' demo_rotation (calm_world [])"
  let ?l = "load_pending demo_box [''d''] ''s'' (snd ?s)"
  have "is_ok (fst ?s)" "is_ok (fst ?l)" by code_simp+
  then obtain rots where l: "?l = (Inr rots, snd ?l)" and "is_ok (fst ?s)" by (metis is_ok_iff prod.collapse)
  moreover have "length (rot_signature demo_rotation) = SIGNATURE_LEN"
    by (simp add: demo_rotation_def SIGNATURE_LEN_def)
  ultimately have "demo_rotation \<in> set rots"
    using pending_round_trip [OF demo_rotation_codec_ok _ surjective_pairing] by blast
  with l show ?thesis by (metis fst_conv)
qed

text \<open>
  What a receiver checks, and that nothing in it names the share: a rotation is
  accepted only with a valid signature of a current owner over its epoch and
  envelopes and a key of the right length, and one accepted for one share is accepted,
  with the same key, for every other share of which the rotator is an owner too.
\<close>

theorem rotation_accepted_for_any_owned_share:
  assumes "verify_and_decrypt C rot st g me = OkForUs k"
  shows "ed_verify C (member_bytes (rot_rotator rot))
      (rotation_canonical_bytes C (rot_epoch rot) (rot_rotator rot) (rot_envelopes rot)) (rot_signature rot) \<and>
    (rot_rotator rot, Owner) \<in> set (members C st g) \<and> length k = KEY_LEN \<and>
    verify_and_decrypt C rot st' g' me =
      (if (rot_rotator rot, Owner) \<in> set (members C st' g') then OkForUs k else NotAManager)"
proof -
  have ex: "list_ex (\<lambda>(m, role). m = rot_rotator rot \<and> role = Owner) xs \<longleftrightarrow>
      (rot_rotator rot, Owner) \<in> set xs" for xs
    by (auto simp: list_ex_iff)
  show ?thesis
    using assms unfolding verify_and_decrypt_def ex by (auto split: if_splits option.splits)
qed

theorem rotation_accepted_for_any_owned_share_witness:
  "\<exists>rot. fst (build_signed_rotation demo_box [9] 2 (replicate 32 5) [MemberId [8]] (calm_world [])) = Inr rot \<and>
    verify_and_decrypt demo_box rot demo_owner_state (MemberId [2]) [8] = OkForUs (replicate 32 5)"
proof -
  let ?b = "build_signed_rotation demo_box [9] 2 (replicate 32 5) [MemberId [8]] (calm_world [])"
  have "(case fst ?b of Inr rot \<Rightarrow>
      verify_and_decrypt demo_box rot demo_owner_state (MemberId [1]) [8] = OkForUs (replicate 32 5) \<and>
      (rot_rotator rot, Owner) \<in> set (members demo_box demo_owner_state (MemberId [2])) | Inl _ \<Rightarrow> False)"
    by code_simp
  then obtain rot where "fst ?b = Inr rot"
    and "verify_and_decrypt demo_box rot demo_owner_state (MemberId [1]) [8] = OkForUs (replicate 32 5)"
    and "(rot_rotator rot, Owner) \<in> set (members demo_box demo_owner_state (MemberId [2]))"
    by (auto split: sum.splits)
  with rotation_accepted_for_any_owned_share [of demo_box rot demo_owner_state "MemberId [1]" "[8]"]
  show ?thesis by auto
qed

end
