(* ===== verification/Keydist.thy ===== *)
theory Keydist
  imports Rotation "HOL-Library.Multiset"
begin

text \<open>
  \<^verbatim>\<open>src/daemon.rs\<close>, the part of a share task that installs key rotations received from
  other members: \<open>try_install_rotation\<close>, \<open>apply_key_rotation\<close>, the bounded buffer of
  rotations that arrived ahead of their turn, and its draining.

  The keyring behind \<open>Arc<RwLock<KeyRing>>\<close> and the buffer are passed explicitly.  A
  share task is the only writer of both, so no interleaving is lost.
\<close>

section \<open>Operations\<close>

definition ROTATION_BUFFER_CAP :: nat where "ROTATION_BUFFER_CAP = 64"

datatype applied_or_buffered = Applied | IdempotentRot | StaleRot | Buffered

definition try_install_rotation ::
  "('c, 'z) box_crates_scheme \<Rightarrow> signed_rotation \<Rightarrow> 'c auth_state \<Rightarrow> member_id \<Rightarrow> byte list \<Rightarrow>
   keyring \<Rightarrow> path \<Rightarrow> string \<Rightarrow> (applied_or_buffered \<times> keyring) io" where
  "try_install_rotation C rotation auth_state group_id identity key data_dir share_id =
     (case verify_and_decrypt C rotation auth_state group_id identity of
        OkForUs new_key \<Rightarrow>
          io_bind (install_epoch_key data_dir share_id (rot_epoch rotation) new_key) (\<lambda>outcome.
          case outcome of
            Installed \<Rightarrow>
              io_bind (load_or_create_keyring data_dir share_id) (\<lambda>fresh_ring.
              io_return (Applied, fresh_ring))
          | Idempotent \<Rightarrow> io_return (IdempotentRot, key)
          | Stale \<Rightarrow> io_return (StaleRot, key)
          | Gap have_epoch got \<Rightarrow> io_return (Buffered, key))
      | NotForUs \<Rightarrow> io_return (IdempotentRot, key)
      | NotAManager \<Rightarrow> io_return (IdempotentRot, key)
      | BadSignature \<Rightarrow> io_return (IdempotentRot, key)
      | DecryptFailed \<Rightarrow> io_return (IdempotentRot, key))"

definition buffer_push :: "signed_rotation list \<Rightarrow> signed_rotation \<Rightarrow> signed_rotation list" where
  "buffer_push buf rot =
     (if list_ex (\<lambda>r. rot_epoch r = rot_epoch rot) buf then buf
      else
        let buf' = (if length buf \<ge> ROTATION_BUFFER_CAP then tl (sort_key rot_epoch buf) else buf)
        in buf' @ [rot])"

text \<open>An error of one candidate is logged and drops that candidate only.\<close>

function drain_rotation_buffer ::
  "('c, 'z) box_crates_scheme \<Rightarrow> 'c auth_state \<Rightarrow> member_id \<Rightarrow> byte list \<Rightarrow> path \<Rightarrow> string \<Rightarrow>
   keyring \<Rightarrow> signed_rotation list \<Rightarrow> world \<Rightarrow> (keyring \<times> signed_rotation list) \<times> world" where
  "drain_rotation_buffer C auth_state group_id identity data_dir share_id key [] w = ((key, []), w)"
| "drain_rotation_buffer C auth_state group_id identity data_dir share_id key (b # bs) w =
     (let buf = sort_key rot_epoch (b # bs); candidate = hd buf; rest = tl buf in
      case try_install_rotation C candidate auth_state group_id identity key data_dir share_id w of
        (Inr (Buffered, key'), w') \<Rightarrow> ((key', buffer_push rest candidate), w')
      | (Inr (_, key'), w') \<Rightarrow>
          drain_rotation_buffer C auth_state group_id identity data_dir share_id key' rest w'
      | (Inl e, w') \<Rightarrow>
          drain_rotation_buffer C auth_state group_id identity data_dir share_id key rest w')"
  by pat_completeness auto
termination
  by (relation "measure (\<lambda>(C, st, g, i, dd, sid, key, buf, w). length buf)") auto

declare drain_rotation_buffer.simps [simp del]

definition apply_key_rotation ::
  "('c, 'z) box_crates_scheme \<Rightarrow> signed_rotation \<Rightarrow> 'c auth_state \<Rightarrow> member_id \<Rightarrow> byte list \<Rightarrow>
   path \<Rightarrow> string \<Rightarrow> keyring \<times> signed_rotation list \<Rightarrow> world \<Rightarrow>
   (unit result \<times> keyring \<times> signed_rotation list) \<times> world" where
  "apply_key_rotation C rotation auth_state group_id identity data_dir share_id kb w =
     (let (key, buf) = kb in
      case try_install_rotation C rotation auth_state group_id identity key data_dir share_id w of
        (Inl e, w') \<Rightarrow> ((Inl e, key, buf), w')
      | (Inr (Applied, key'), w') \<Rightarrow>
          (case drain_rotation_buffer C auth_state group_id identity data_dir share_id key' buf w' of
             (kb', w'') \<Rightarrow> ((Inr (), kb'), w''))
      | (Inr (Buffered, key'), w') \<Rightarrow> ((Inr (), key', buffer_push buf rotation), w')
      | (Inr (_, key'), w') \<Rightarrow> ((Inr (), key', buf), w'))"

section \<open>The buffer\<close>

definition buffer_ok :: "signed_rotation list \<Rightarrow> bool" where
  "buffer_ok buf \<longleftrightarrow> length buf \<le> ROTATION_BUFFER_CAP \<and> distinct (map rot_epoch buf)"

lemma distinct_map_sort_key: "distinct (map f buf) \<Longrightarrow> distinct (map f (sort_key f buf))"
  by (metis mset_map mset_sort mset_eq_imp_distinct_iff)

lemma buffer_ok_push [intro]: "buffer_ok buf \<Longrightarrow> buffer_ok (buffer_push buf rot)"
proof -
  assume ok: "buffer_ok buf"
  let ?s = "sort_key rot_epoch buf"
  have "distinct (map rot_epoch ?s)" using ok by (simp add: buffer_ok_def distinct_map_sort_key)
  then have d: "distinct (map rot_epoch (tl ?s))" by (simp add: distinct_tl map_tl)
  have sub: "x \<in> set (tl ?s) \<Longrightarrow> x \<in> set buf" for x
    by (metis set_sort list.set_sel(2) tl_Nil)
  with d ok show ?thesis
    by (auto dest: sub simp: buffer_ok_def buffer_push_def Let_def list_ex_iff ROTATION_BUFFER_CAP_def)
qed

lemma buffer_ok_tl_sort: "buffer_ok buf \<Longrightarrow> buffer_ok (tl (sort_key rot_epoch buf))"
  unfolding buffer_ok_def
  by (metis distinct_map_sort_key distinct_tl map_tl length_tl length_sort diff_le_self order_trans)

lemma drain_buffer_ok:
  "drain_rotation_buffer C st g me dd sid key buf w = ((key', buf'), w') \<Longrightarrow> buffer_ok buf \<Longrightarrow> buffer_ok buf'"
proof (induction C st g me dd sid key buf w rule: drain_rotation_buffer.induct)
  case (1 C st g me dd sid key w)
  then show ?case by (simp add: drain_rotation_buffer.simps)
next
  case (2 C st g me dd sid key b bs w)
  let ?rest = "tl (sort_key rot_epoch (b # bs))"
  have rest: "buffer_ok ?rest" by (rule buffer_ok_tl_sort [OF "2.prems"(2)])
  obtain r w1 where t: "try_install_rotation C (hd (sort_key rot_epoch (b # bs))) st g me key dd sid w = (r, w1)"
    by (cases "try_install_rotation C (hd (sort_key rot_epoch (b # bs))) st g me key dd sid w")
  note ih = "2.IH" [OF refl refl refl t [symmetric]]
  show ?case
  proof (cases r)
    case (Inl e)
    with "2.prems"(1) t ih(1) rest show ?thesis
      by (simp add: drain_rotation_buffer.simps(2) Let_def)
  next
    case (Inr x)
    then obtain o' key1 where "r = Inr (o', key1)" by (cases x) auto
    with "2.prems"(1) t ih rest show ?thesis
      by (cases o') (auto simp: drain_rotation_buffer.simps(2) Let_def)
  qed
qed

section \<open>The keyring in memory\<close>

text \<open>
  The ring the share task holds is never ahead of the stored one, and equals it after an
  installation.
\<close>

definition ring_synced :: "keyring \<Rightarrow> world \<Rightarrow> path \<Rightarrow> string \<Rightarrow> bool" where
  "ring_synced key w dd sid \<longleftrightarrow> (\<exists>ks. disk_keys w dd sid = Some ks \<and> prefix (kr_keys key) ks)"

lemma ring_synced_grow: "ring_synced key w dd sid \<Longrightarrow> keys_grow w w' dd sid \<Longrightarrow> ring_synced key w' dd sid"
  unfolding ring_synced_def keys_grow_def by (meson prefix_order.trans)

lemma verify_key_length: "verify_and_decrypt C rot st g me = OkForUs k \<Longrightarrow> length k = KEY_LEN"
  by (auto simp: verify_and_decrypt_def split: if_splits option.splits)

lemma try_install_synced:
  assumes "try_install_rotation C rot st g me key dd sid w = (r, w')" and "ring_synced key w dd sid"
  shows "ring_synced key w' dd sid \<and> keys_grow w w' dd sid \<and>
    (\<forall>o' key'. r = Inr (o', key') \<longrightarrow>
       (if o' = Applied then disk_keys w' dd sid = Some (kr_keys key') else key' = key))"
proof (cases "\<exists>k. verify_and_decrypt C rot st g me = OkForUs k")
  case False
  with assms show ?thesis
    by (auto simp: try_install_rotation_def keys_grow_files split: verify_outcome.splits)
next
  case True
  then obtain k where v: "verify_and_decrypt C rot st g me = OkForUs k" by blast
  have kl: "length k = KEY_LEN" by (rule verify_key_length [OF v])
  from assms(1) v have "io_bind (install_epoch_key dd sid (rot_epoch rot) k) (\<lambda>outcome.
      case outcome of
        Installed \<Rightarrow> io_bind (load_or_create_keyring dd sid) (\<lambda>fresh_ring. io_return (Applied, fresh_ring))
      | Idempotent \<Rightarrow> io_return (IdempotentRot, key)
      | Stale \<Rightarrow> io_return (StaleRot, key)
      | Gap have_epoch got \<Rightarrow> io_return (Buffered, key)) w = (r, w')"
    by (simp add: try_install_rotation_def)
  then show ?thesis
  proof (cases rule: io_bind_cases)
    case (err e)
    with install_epoch_key_grow [OF err(1) kl] assms(2) show ?thesis
      by (auto intro: ring_synced_grow)
  next
    case (ok outcome w1)
    have g1: "keys_grow w w1 dd sid" by (rule install_epoch_key_grow [OF ok(1) kl])
    show ?thesis
    proof (cases "outcome = Installed")
      case False
      with ok(2) g1 assms(2) show ?thesis
        by (cases outcome) (auto intro: ring_synced_grow)
    next
      case True
      with ok(2) have "io_bind (load_or_create_keyring dd sid) (\<lambda>fresh_ring. io_return (Applied, fresh_ring)) w1 = (r, w')"
        by simp
      then have "keys_grow w1 w' dd sid \<and> (\<forall>o' key'. r = Inr (o', key') \<longrightarrow> o' = Applied \<and> disk_keys w' dd sid = Some (kr_keys key'))"
        by (cases rule: io_bind_cases) (auto dest: load_grow load_ok)
      with g1 assms(2) show ?thesis
        by (auto intro: keys_grow_trans ring_synced_grow)
    qed
  qed
qed

lemma drain_synced:
  "drain_rotation_buffer C st g me dd sid key buf w = ((key', buf'), w') \<Longrightarrow>
   ring_synced key w dd sid \<Longrightarrow> ring_synced key' w' dd sid \<and> keys_grow w w' dd sid"
proof (induction C st g me dd sid key buf w rule: drain_rotation_buffer.induct)
  case (1 C st g me dd sid key w)
  then show ?case by (simp add: drain_rotation_buffer.simps keys_grow_files)
next
  case (2 C st g me dd sid key b bs w)
  obtain r w1 where t: "try_install_rotation C (hd (sort_key rot_epoch (b # bs))) st g me key dd sid w = (r, w1)"
    by (cases "try_install_rotation C (hd (sort_key rot_epoch (b # bs))) st g me key dd sid w")
  note ih = "2.IH" [OF refl refl refl t [symmetric]] and s = try_install_synced [OF t "2.prems"(2)]
  show ?case
  proof (cases r)
    case (Inl e)
    with "2.prems"(1) t ih(1) s show ?thesis
      by (auto simp: drain_rotation_buffer.simps(2) Let_def intro: keys_grow_trans)
  next
    case (Inr x)
    then obtain o' key1 where r: "r = Inr (o', key1)" by (cases x) auto
    with s have "ring_synced key1 w1 dd sid" by (cases o') (auto simp: ring_synced_def)
    with r "2.prems"(1) t ih s show ?thesis
      by (cases o') (auto simp: drain_rotation_buffer.simps(2) Let_def intro: keys_grow_trans)
  qed
qed

section \<open>Catching up\<close>

text \<open>
  \<open>R\<close> are the rotations that follow the ring \<open>ks\<close>, each of which opens to the key
  of the same position in \<open>nks\<close>.
\<close>

definition rotations_for ::
  "('c, 'z) box_crates_scheme \<Rightarrow> 'c auth_state \<Rightarrow> member_id \<Rightarrow> byte list \<Rightarrow> key list \<Rightarrow>
   signed_rotation list \<Rightarrow> key list \<Rightarrow> bool" where
  "rotations_for C st g me ks R nks \<longleftrightarrow>
     length R = length nks \<and> length ks + length R < 2 ^ 58 \<and>
     (\<forall>i < length R. unat (rot_epoch (R ! i)) = length ks + 1 + i \<and>
        verify_and_decrypt C (R ! i) st g me = OkForUs (nks ! i))"

text \<open>The task holds the first \<open>p\<close> of the new keys, in memory and on disk.\<close>

definition at_epoch :: "world \<Rightarrow> path \<Rightarrow> string \<Rightarrow> keyring \<Rightarrow> key list \<Rightarrow> key list \<Rightarrow> nat \<Rightarrow> bool" where
  "at_epoch w dd sid key ks nks p \<longleftrightarrow>
     share_ready w dd sid (ks @ take p nks) \<and> key = \<lparr>kr_keys = ks @ take p nks\<rparr>"

lemma try_install_at_epoch:
  assumes "rotations_for C st g me ks R nks" and "at_epoch w dd sid key ks nks p"
    and "p \<le> length R" and "i < length R"
  shows "i = p \<Longrightarrow> \<exists>key' w'. try_install_rotation C (R ! i) st g me key dd sid w = (Inr (Applied, key'), w') \<and>
      at_epoch w' dd sid key' ks nks (Suc p)"
    and "p < i \<Longrightarrow> \<exists>w'. try_install_rotation C (R ! i) st g me key dd sid w = (Inr (Buffered, key), w') \<and>
      at_epoch w' dd sid key ks nks p"
    and "i < p \<Longrightarrow> \<exists>o' w'. try_install_rotation C (R ! i) st g me key dd sid w = (Inr (o', key), w') \<and>
      o' \<in> {IdempotentRot, StaleRot} \<and> at_epoch w' dd sid key ks nks p"
proof -
  let ?ks = "ks @ take p nks"
  have v: "verify_and_decrypt C (R ! i) st g me = OkForUs (nks ! i)"
    and e: "unat (rot_epoch (R ! i)) = length ks + 1 + i" and len: "length nks = length R"
    and b: "length ?ks < 2 ^ 58"
    using assms by (auto simp: rotations_for_def)
  have l: "length ?ks = length ks + p" using assms(3) len by simp
  have sr: "share_ready w dd sid ?ks" and key: "key = \<lparr>kr_keys = ?ks\<rparr>"
    using assms(2) by (simp_all add: at_epoch_def)
  note inst = install_ready [OF sr b verify_key_length [OF v], of "rot_epoch (R ! i)"]
  show "\<exists>key' w'. try_install_rotation C (R ! i) st g me key dd sid w = (Inr (Applied, key'), w') \<and>
      at_epoch w' dd sid key' ks nks (Suc p)" if "i = p"
  proof -
    have "?ks @ [nks ! i] = ks @ take (Suc p) nks"
      using that assms(4) len by (simp add: take_Suc_conv_app_nth)
    with inst(1) that e l obtain w1 where i: "install_epoch_key dd sid (rot_epoch (R ! i)) (nks ! i) w = (Inr Installed, w1)"
      and s1: "share_ready w1 dd sid (ks @ take (Suc p) nks)" by auto
    from load_ready [OF s1] obtain w2 where "load_or_create_keyring dd sid w1 = (Inr \<lparr>kr_keys = ks @ take (Suc p) nks\<rparr>, w2)"
      "share_ready w2 dd sid (ks @ take (Suc p) nks)" by blast
    with v i show ?thesis by (simp add: try_install_rotation_def at_epoch_def)
  qed
  show "\<exists>w'. try_install_rotation C (R ! i) st g me key dd sid w = (Inr (Buffered, key), w') \<and>
      at_epoch w' dd sid key ks nks p" if "p < i"
  proof -
    from inst(2) that e l obtain x y w1 where "install_epoch_key dd sid (rot_epoch (R ! i)) (nks ! i) w = (Inr (Gap x y), w1)"
      "share_ready w1 dd sid ?ks" by auto
    with v key show ?thesis by (simp add: try_install_rotation_def at_epoch_def)
  qed
  show "\<exists>o' w'. try_install_rotation C (R ! i) st g me key dd sid w = (Inr (o', key), w') \<and>
      o' \<in> {IdempotentRot, StaleRot} \<and> at_epoch w' dd sid key ks nks p" if "i < p"
  proof -
    have "last ?ks = nks ! i" if "Suc i = p"
    proof -
      have "take p nks = take i nks @ [nks ! i]"
        using that assms(4) len by (simp add: take_Suc_conv_app_nth flip: that)
      then show ?thesis by simp
    qed
    then have "unat (rot_epoch (R ! i)) < length ?ks \<or> unat (rot_epoch (R ! i)) = length ?ks \<and> last ?ks = nks ! i"
      using that e l by linarith
    from inst(3) [OF this] obtain r w1 where "install_epoch_key dd sid (rot_epoch (R ! i)) (nks ! i) w = (Inr r, w1)"
      "r \<in> {Stale, Idempotent}" "share_ready w1 dd sid ?ks" by blast
    with v key show ?thesis by (auto simp: try_install_rotation_def at_epoch_def)
  qed
qed

text \<open>
  The buffer holds some of the rotations from position \<open>p\<close> on; draining installs the
  ones that are next in line and keeps the others.
\<close>

lemma rotations_epoch_eq:
  assumes "rotations_for C st g me ks R nks" "i < length R" "j < length R"
  shows "rot_epoch (R ! i) = rot_epoch (R ! j) \<longleftrightarrow> i = j"
    and "rot_epoch (R ! i) \<le> rot_epoch (R ! j) \<longleftrightarrow> i \<le> j"
  using assms by (auto simp: rotations_for_def word_unat_eq_iff word_le_nat_alt)

text \<open>The candidate of a buffer is the earliest missing rotation in it.\<close>

lemma drain_candidate:
  assumes "rotations_for C st g me ks R nks" and "buffer_ok buf" and "set buf \<subseteq> set (drop p R)"
    and c: "sort_key rot_epoch buf = c # rest"
  obtains i where "p \<le> i" "i < length R" "c = R ! i" "set rest \<subseteq> set (drop (Suc i) R)"
    "set buf = insert c (set rest)" "length buf = Suc (length rest)" "buffer_ok rest" "buffer_push rest c = rest @ [c]"
proof -
  have sset: "set buf = insert c (set rest)" using c by (metis list.simps(15) set_sort)
  have slen: "length buf = Suc (length rest)" using c by (metis length_Cons length_sort)
  have sd: "distinct (map rot_epoch (c # rest))" using assms(2) c by (metis buffer_ok_def distinct_map_sort_key)
  have ss: "sorted (map rot_epoch (c # rest))" using c sorted_sort_key by metis
  have brest: "buffer_ok rest" using buffer_ok_tl_sort [OF assms(2)] c by simp
  have idx: "\<exists>j. p \<le> j \<and> j < length R \<and> x = R ! j" if "x \<in> set buf" for x
    using subsetD [OF assms(3) that] by (simp add: in_set_drop_nth)
  obtain i where i: "p \<le> i" "i < length R" "c = R ! i" using idx [of c] sset by auto
  have "x \<in> set (drop (Suc i) R)" if "x \<in> set rest" for x
  proof -
    have "x \<in> set buf" using sset that by simp
    from idx [OF this] obtain j where j: "j < length R" "x = R ! j" by blast
    have "rot_epoch c \<le> rot_epoch x" "rot_epoch c \<noteq> rot_epoch x" using ss sd that by auto
    then have "Suc i \<le> j" using i j rotations_epoch_eq [OF assms(1) i(2) j(1)] by auto
    with j show ?thesis by (simp add: nth_in_set_drop)
  qed
  then have later: "set rest \<subseteq> set (drop (Suc i) R)" by blast
  have "length rest < ROTATION_BUFFER_CAP" using slen assms(2) by (simp add: buffer_ok_def)
  then have "buffer_push rest c = rest @ [c]" using sd by (auto simp: buffer_push_def list_ex_iff image_iff)
  with i later sset slen brest show thesis by (rule that)
qed

lemma drain_catches_up:
  assumes "rotations_for C st g me ks R nks" and "at_epoch w dd sid key ks nks p" and "p \<le> length R"
    and "buffer_ok buf" and "set buf \<subseteq> set (drop p R)"
    and "drain_rotation_buffer C st g me dd sid key buf w = ((key', buf'), w')"
  shows "\<exists>q. p \<le> q \<and> q \<le> length R \<and> at_epoch w' dd sid key' ks nks q \<and>
    set buf = set (drop p (take q R)) \<union> set buf' \<and> set buf' \<subseteq> set (drop (Suc q) R)"
  using assms(2-)
proof (induction "length buf" arbitrary: buf key p w)
  case 0
  then have "buf = []" "buf' = []" "key' = key" "w' = w" by (auto simp: drain_rotation_buffer.simps)
  with 0 show ?case by (intro exI [of _ p]) simp
next
  case (Suc n)
  then obtain b bs where buf: "buf = b # bs" by (cases buf) auto
  obtain c rest where c: "sort_key rot_epoch buf = c # rest"
    using buf by (cases "sort_key rot_epoch buf") (auto dest: arg_cong [where f = length])
  obtain i where i: "p \<le> i" "i < length R" "c = R ! i" and later: "set rest \<subseteq> set (drop (Suc i) R)"
    and sset: "set buf = insert c (set rest)" and slen: "length rest = n" and brest: "buffer_ok rest"
    and push: "buffer_push rest c = rest @ [c]"
    by (rule drain_candidate [OF assms(1) Suc.prems(3,4) c]) (use Suc.hyps(2) in auto)
  note step = drain_rotation_buffer.simps(2) [of C st g me dd sid key b bs w, folded buf]
  show ?case
  proof (cases "i = p")
    case True
    obtain key1 w1 where t: "try_install_rotation C c st g me key dd sid w = (Inr (Applied, key1), w1)"
      and a1: "at_epoch w1 dd sid key1 ks nks (Suc p)"
      using try_install_at_epoch(1) [OF assms(1) Suc.prems(1,2) i(2) True] i(3) by blast
    have d: "drain_rotation_buffer C st g me dd sid key1 rest w1 = ((key', buf'), w')"
      using Suc.prems(5) step t c by (simp add: Let_def)
    obtain q where q: "Suc p \<le> q" "q \<le> length R" "at_epoch w' dd sid key' ks nks q"
      "set rest = set (drop (Suc p) (take q R)) \<union> set buf'" "set buf' \<subseteq> set (drop (Suc q) R)"
      using Suc.hyps(1) [OF slen [symmetric] a1 _ brest _ d] later True i(2) by auto
    have "drop p (take q R) = R ! p # drop (Suc p) (take q R)"
      using q(1,2) by (metis Cons_nth_drop_Suc length_take less_eq_Suc_le min.absorb2 nth_take)
    with q sset i(3) True show ?thesis by (intro exI [of _ q]) auto
  next
    case False
    then obtain w1 where t: "try_install_rotation C c st g me key dd sid w = (Inr (Buffered, key), w1)"
      and a1: "at_epoch w1 dd sid key ks nks p"
      using try_install_at_epoch(2) [OF assms(1) Suc.prems(1,2) i(2)] i by auto
    have r: "buf' = rest @ [c]" "key' = key" "w' = w1"
      using Suc.prems(5) step t c push by (simp_all add: Let_def)
    have "c \<in> set (drop (Suc p) R)" using i False by (simp add: nth_in_set_drop)
    moreover have "set (drop (Suc i) R) \<subseteq> set (drop (Suc p) R)" using i(1) by (simp add: set_drop_subset_set_drop)
    ultimately have "set buf' \<subseteq> set (drop (Suc p) R)" using later r by auto
    with r a1 sset Suc.prems(2) show ?thesis by (intro exI [of _ p]) auto
  qed
qed

text \<open>What the task knows after the rotations in \<open>S\<close> have arrived.\<close>

definition caught_up ::
  "key list \<Rightarrow> signed_rotation list \<Rightarrow> key list \<Rightarrow> path \<Rightarrow> string \<Rightarrow> keyring \<times> signed_rotation list \<Rightarrow>
   world \<Rightarrow> signed_rotation set \<Rightarrow> bool" where
  "caught_up ks R nks dd sid kb w S \<longleftrightarrow> buffer_ok (snd kb) \<and>
     (\<exists>p \<le> length R. at_epoch w dd sid (fst kb) ks nks p \<and>
        S = set (take p R) \<union> set (snd kb) \<and> set (snd kb) \<subseteq> set (drop (Suc p) R))"

lemma buffer_push_room:
  assumes "rotations_for C st g me ks R nks" and "length R \<le> ROTATION_BUFFER_CAP"
    and "buffer_ok buf" and "set buf \<subseteq> set R" and "rot \<in> set R"
  shows "set (buffer_push buf rot) = insert rot (set buf)"
proof (cases "list_ex (\<lambda>r. rot_epoch r = rot_epoch rot) buf")
  case True
  then obtain r where r: "r \<in> set buf" "rot_epoch r = rot_epoch rot" by (auto simp: list_ex_iff)
  with assms(4,5) have "r = rot" by (metis in_set_conv_nth rotations_epoch_eq(1) [OF assms(1)] subsetD)
  with r True show ?thesis by (auto simp: buffer_push_def)
next
  case False
  then have "rot \<notin> set buf" by (auto simp: list_ex_iff)
  moreover have "distinct buf" using assms(3) by (simp add: buffer_ok_def distinct_map)
  ultimately have "Suc (length buf) = card (insert rot (set buf))" by (simp add: distinct_card)
  also have "\<dots> \<le> card (set R)" using assms(4,5) by (intro card_mono) auto
  also have "\<dots> \<le> length R" by (rule card_length)
  finally have "length buf < ROTATION_BUFFER_CAP" using assms(2) by simp
  with False show ?thesis by (auto simp: buffer_push_def)
qed

lemma apply_key_rotation_catches_up:
  assumes "rotations_for C st g me ks R nks" and "length R \<le> ROTATION_BUFFER_CAP"
    and "caught_up ks R nks dd sid kb w S" and "rot \<in> set R"
  shows "\<exists>kb' w'. apply_key_rotation C rot st g me dd sid kb w = ((Inr (), kb'), w') \<and>
    caught_up ks R nks dd sid kb' w' (insert rot S)"
proof -
  obtain key buf where kb: "kb = (key, buf)" by (cases kb)
  from assms(3) kb obtain p where p: "p \<le> length R" and a: "at_epoch w dd sid key ks nks p"
    and S: "S = set (take p R) \<union> set buf" and sub: "set buf \<subseteq> set (drop (Suc p) R)" and b: "buffer_ok buf"
    by (auto simp: caught_up_def)
  obtain i where i: "i < length R" "rot = R ! i" using assms(4) by (auto simp: in_set_conv_nth)
  consider "i < p" | "i = p" | "p < i" by linarith
  then show ?thesis
  proof cases
    case 1
    then obtain o' w' where t: "try_install_rotation C rot st g me key dd sid w = (Inr (o', key), w')"
      "o' \<in> {IdempotentRot, StaleRot}" "at_epoch w' dd sid key ks nks p"
      using try_install_at_epoch(3) [OF assms(1) a p i(1)] i(2) by blast
    have "rot \<in> S" using 1 i p S by (auto simp: in_set_conv_nth) 
    with t p S sub b kb show ?thesis
      by (auto simp: apply_key_rotation_def caught_up_def insert_absorb)
  next
    case 2
    then obtain key1 w1 where t: "try_install_rotation C rot st g me key dd sid w = (Inr (Applied, key1), w1)"
      and a1: "at_epoch w1 dd sid key1 ks nks (Suc p)"
      using try_install_at_epoch(1) [OF assms(1) a p i(1)] i(2) by blast
    obtain key' buf' w' where d: "drain_rotation_buffer C st g me dd sid key1 buf w1 = ((key', buf'), w')"
      by (metis surj_pair)
    obtain q where q: "Suc p \<le> q" "q \<le> length R" "at_epoch w' dd sid key' ks nks q"
      "set buf = set (drop (Suc p) (take q R)) \<union> set buf'" "set buf' \<subseteq> set (drop (Suc q) R)"
      using drain_catches_up [OF assms(1) a1 _ b sub d] 2 i(1) by auto
    have "take q R = take p R @ R ! p # drop (Suc p) (take q R)"
      using id_take_nth_drop [of p "take q R"] q(1,2) by (simp add: min_def)
    then have "set (take q R) = set (take p R) \<union> insert rot (set (drop (Suc p) (take q R)))"
      using 2 i by (metis list.simps(15) set_append)
    then have "insert rot S = set (take q R) \<union> set buf'" using S q(4) by auto
    with q drain_buffer_ok [OF d b] t d kb show ?thesis
      by (auto simp: apply_key_rotation_def caught_up_def)
  next
    case 3
    then obtain w' where t: "try_install_rotation C rot st g me key dd sid w = (Inr (Buffered, key), w')"
      "at_epoch w' dd sid key ks nks p"
      using try_install_at_epoch(2) [OF assms(1) a p i(1)] i(2) by blast
    have "set (buffer_push buf rot) = insert rot (set buf)"
      using buffer_push_room [OF assms(1,2) b _ assms(4)] sub set_drop_subset by fast
    moreover have "rot \<in> set (drop (Suc p) R)" using 3 i by (simp add: nth_in_set_drop)
    ultimately show ?thesis using t p S sub b kb
      by (auto simp: apply_key_rotation_def caught_up_def)
  qed
qed

text \<open>The rotations a share task receives one after the other; it logs errors and goes on.\<close>

primrec apply_key_rotations ::
  "('c, 'z) box_crates_scheme \<Rightarrow> 'c auth_state \<Rightarrow> member_id \<Rightarrow> byte list \<Rightarrow> path \<Rightarrow> string \<Rightarrow>
   signed_rotation list \<Rightarrow> keyring \<times> signed_rotation list \<Rightarrow> world \<Rightarrow>
   (keyring \<times> signed_rotation list) \<times> world" where
  "apply_key_rotations C st g me dd sid [] kb w = (kb, w)"
| "apply_key_rotations C st g me dd sid (rot # rots) kb w =
     (case apply_key_rotation C rot st g me dd sid kb w of
        ((_, kb'), w') \<Rightarrow> apply_key_rotations C st g me dd sid rots kb' w')"

lemma apply_key_rotations_catch_up:
  assumes "rotations_for C st g me ks R nks" and "length R \<le> ROTATION_BUFFER_CAP"
  shows "caught_up ks R nks dd sid kb w S \<Longrightarrow> set xs \<subseteq> set R \<Longrightarrow>
    \<exists>kb' w'. apply_key_rotations C st g me dd sid xs kb w = (kb', w') \<and>
      caught_up ks R nks dd sid kb' w' (S \<union> set xs)"
proof (induction xs arbitrary: kb w S)
  case (Cons rot xs)
  then have "rot \<in> set R" by simp
  from apply_key_rotation_catches_up [OF assms Cons.prems(1) this] obtain kb1 w1
    where "apply_key_rotation C rot st g me dd sid kb w = ((Inr (), kb1), w1)"
      "caught_up ks R nks dd sid kb1 w1 (insert rot S)" by blast
  with Cons.IH [of kb1 w1 "insert rot S"] Cons.prems(2) show ?case by auto
qed simp

section \<open>Properties\<close>

text \<open>
  C4. Key distribution catches up: when the next epochs' rotations, up to the capacity
  of the buffer, reach a member in any order and any number of times, the member ends
  up with every key, in memory and on disk, in the order of the epochs, and with an
  empty buffer.
\<close>

theorem rotations_catch_up:
  assumes "rotations_for C st g me ks R nks" and "length R \<le> ROTATION_BUFFER_CAP"
    and "share_ready w dd sid ks" and "set xs = set R"
  shows "\<exists>w'. apply_key_rotations C st g me dd sid xs (\<lparr>kr_keys = ks\<rparr>, []) w = ((\<lparr>kr_keys = ks @ nks\<rparr>, []), w') \<and>
    disk_keys w' dd sid = Some (ks @ nks)"
proof -
  have "caught_up ks R nks dd sid (\<lparr>kr_keys = ks\<rparr>, []) w {}"
    using assms(3) by (auto simp: caught_up_def at_epoch_def buffer_ok_def)
  from apply_key_rotations_catch_up [OF assms(1,2) this, of xs] assms(4)
  obtain key buf w' where a: "apply_key_rotations C st g me dd sid xs (\<lparr>kr_keys = ks\<rparr>, []) w = ((key, buf), w')"
    and c: "caught_up ks R nks dd sid (key, buf) w' (set R)" by auto
  from c obtain p where p: "p \<le> length R" "at_epoch w' dd sid key ks nks p"
    "set R = set (take p R) \<union> set buf" "set buf \<subseteq> set (drop (Suc p) R)" by (auto simp: caught_up_def)
  have "p = length R"
  proof (rule ccontr)
    assume "p \<noteq> length R"
    then have pl: "p < length R" using p(1) by simp
    have ne: "R ! p \<noteq> R ! j" if "j < length R" "j \<noteq> p" for j
      using rotations_epoch_eq(1) [OF assms(1) pl that(1)] that(2) by metis
    from pl have "R ! p \<in> set (take p R) \<union> set (drop (Suc p) R)" using p(3,4) nth_mem by blast
    then show False
    proof
      assume "R ! p \<in> set (take p R)"
      then obtain j where "j < p" "R ! p = R ! j" by (auto simp: in_set_conv_nth)
      with ne [of j] pl show False by simp
    next
      assume "R ! p \<in> set (drop (Suc p) R)"
      then obtain j where "Suc p \<le> j" "j < length R" "R ! p = R ! j" unfolding in_set_drop_nth by blast
      with ne [of j] show False by simp
    qed
  qed
  moreover have "length nks = length R" using assms(1) by (simp add: rotations_for_def)
  ultimately show ?thesis using a p(2,4) by (simp add: at_epoch_def share_ready_def)
qed

definition demo_rot :: "u64 \<Rightarrow> key \<Rightarrow> signed_rotation" where
  "demo_rot e k =
     (let es = [\<lparr>ke_recipient = MemberId [8], ke_ephemeral = [], ke_nonce = [], ke_ciphertext = 8 # k\<rparr>] in
      \<lparr>rot_epoch = e, rot_rotator = MemberId [9],
       rot_signature = demo_sign [9] (rotation_canonical_bytes demo_box e (MemberId [9]) es),
       rot_envelopes = es\<rparr>)"

lemma demo_rotations_for:
  "rotations_for demo_box demo_owner_state (MemberId [1]) [8] [replicate 32 7]
     [demo_rot 2 (replicate 32 5), demo_rot 3 (replicate 32 6)] [replicate 32 5, replicate 32 6]"
proof -
  have "verify_and_decrypt demo_box (demo_rot 2 (replicate 32 5)) demo_owner_state (MemberId [1]) [8] = OkForUs (replicate 32 5)"
    "verify_and_decrypt demo_box (demo_rot 3 (replicate 32 6)) demo_owner_state (MemberId [1]) [8] = OkForUs (replicate 32 6)"
    by code_simp+
  then show ?thesis by (auto simp: rotations_for_def less_Suc_eq demo_rot_def Let_def)
qed

lemma demo_share_ready: "share_ready demo_share [''d''] ''s'' [replicate 32 7]"
proof -
  have "fs_at demo_share (keys_tmp [''d''] ''s'') = None" by code_simp
  moreover have "fs_wf demo_share"
    by (auto simp: fs_wf_def fs_is_dir_def fs_at_def demo_share_def calm_world_def split: if_splits)
  ultimately show ?thesis
    using demo_disk_keys by (simp add: share_ready_def demo_share_def)
qed

theorem rotations_catch_up_witness:
  "\<exists>w'. apply_key_rotations demo_box demo_owner_state (MemberId [1]) [8] [''d''] ''s''
      [demo_rot 3 (replicate 32 6), demo_rot 2 (replicate 32 5)] (\<lparr>kr_keys = [replicate 32 7]\<rparr>, []) demo_share =
      ((\<lparr>kr_keys = [replicate 32 7, replicate 32 5, replicate 32 6]\<rparr>, []), w')"
  using rotations_catch_up [OF demo_rotations_for _ demo_share_ready,
      of "[demo_rot 3 (replicate 32 6), demo_rot 2 (replicate 32 5)]"]
  by (auto simp: ROTATION_BUFFER_CAP_def)



end
