(* ===== verification/Share.thy ===== *)
theory Share
  imports Rotation Clock
begin

text \<open>
  The per-daemon and per-share files outside the membership log and the keyring:
  \<^verbatim>\<open>src/share.rs\<close> (configuration), \<^verbatim>\<open>src/share_state.rs\<close> (what the daemon remembers of
  its sync history), \<^verbatim>\<open>src/identity.rs\<close> and \<^verbatim>\<open>src/lock.rs\<close>.

  \<open>serde_json\<close> is a further field of the crates parameter.  Its decoder of the
  persisted state yields the fields as the JSON text has them; the defaults of the two
  optional ones are filled in here, as the derived code does.
\<close>

section \<open>Configuration\<close>

datatype share_role = Seed | Leech | Sync

record share_config =
  sc_id :: string
  sc_topic :: string
  sc_root_path :: path
  sc_role :: share_role
  sc_created_at :: timestamp

record persisted_state =
  ps_version_hash :: string
  ps_clock :: vector_clock
  ps_timestamp :: timestamp
  ps_manifest :: "path list"

record persisted_json =
  pj_version_hash :: string
  pj_clock :: vector_clock
  pj_timestamp :: "timestamp option"
  pj_manifest :: "path list option"

record 'c share_crates = "'c box_crates" +
  enc_config :: "share_config \<Rightarrow> byte list option"
  dec_config :: "byte list \<Rightarrow> share_config option"
  enc_state :: "persisted_state \<Rightarrow> byte list option"
  dec_state :: "byte list \<Rightarrow> persisted_json option"

text \<open>The first sixteen characters of the hash in hexadecimal.\<close>

definition id_from_topic :: "('c, 'z) share_crates_scheme \<Rightarrow> string \<Rightarrow> string result" where
  "id_from_topic C topic = str_slice (bytes_hex (blake3 C (as_bytes topic))) 0 16"

definition config_new ::
  "('c, 'z) share_crates_scheme \<Rightarrow> string \<Rightarrow> path \<Rightarrow> share_role \<Rightarrow> share_config io" where
  "config_new C topic root_path role =
     io_bind (io_lift (id_from_topic C topic)) (\<lambda>id.
     io_bind utc_now (\<lambda>now.
     io_return \<lparr>sc_id = id, sc_topic = topic, sc_root_path = root_path, sc_role = role, sc_created_at = now\<rparr>))"

definition config_save :: "('c, 'z) share_crates_scheme \<Rightarrow> share_config \<Rightarrow> path \<Rightarrow> unit io" where
  "config_save C config data_dir =
     (let dir = share_dir data_dir (sc_id config) in
      io_bind (fs_create_dir_all dir) (\<lambda>_.
      case enc_config C config of
        None \<Rightarrow> io_fail (Bail ''serializing share.json'' [])
      | Some json \<Rightarrow> fs_write (dir @ [''share.json'']) json))"

fun load_all_loop ::
  "('c, 'z) share_crates_scheme \<Rightarrow> path \<Rightarrow> string list \<Rightarrow> share_config list io" where
  "load_all_loop C dir [] w = io_return [] w"
| "load_all_loop C dir (name # names) w =
     io_bind (fs_file_type (dir @ [name])) (\<lambda>ft w1.
       if ft \<noteq> FtDir then load_all_loop C dir names w1
       else
         let path = dir @ [name, ''share.json''] in
         if \<not> fs_exists w1 path then load_all_loop C dir names w1
         else
           io_bind (fs_read path) (\<lambda>bytes.
           case dec_config C bytes of
             None \<Rightarrow> io_fail (Bail ''parsing share.json'' [])
           | Some cfg \<Rightarrow>
               io_bind (load_all_loop C dir names) (\<lambda>cfgs.
               io_return (cfg # cfgs))) w1) w"

definition load_all :: "('c, 'z) share_crates_scheme \<Rightarrow> path \<Rightarrow> share_config list io" where
  "load_all C data_dir w =
     (let dir = shares_dir data_dir in
      if \<not> fs_exists w dir then io_return [] w
      else
        io_bind (fs_read_dir dir) (\<lambda>names.
        io_bind (load_all_loop C dir names) (\<lambda>out.
        io_return (sort_key sc_id out))) w)"

definition remove_share :: "path \<Rightarrow> string \<Rightarrow> unit io" where
  "remove_share data_dir share_id w =
     (let dir = share_dir data_dir share_id in
      if \<not> fs_exists w dir then io_fail (Bail ''share not found'' []) w
      else fs_remove_dir_all dir w)"

section \<open>Persisted sync state\<close>

definition state_path :: "path \<Rightarrow> string \<Rightarrow> path" where
  "state_path data_dir share_id = share_dir data_dir share_id @ [''state.json'']"

definition with_defaults :: "persisted_json \<Rightarrow> persisted_state io" where
  "with_defaults j =
     io_bind (case pj_timestamp j of None \<Rightarrow> utc_now | Some t \<Rightarrow> io_return t) (\<lambda>ts.
     io_return \<lparr>ps_version_hash = pj_version_hash j, ps_clock = pj_clock j, ps_timestamp = ts,
       ps_manifest = (case pj_manifest j of None \<Rightarrow> [] | Some m \<Rightarrow> m)\<rparr>)"

definition state_load ::
  "('c, 'z) share_crates_scheme \<Rightarrow> path \<Rightarrow> string \<Rightarrow> persisted_state option io" where
  "state_load C data_dir share_id w =
     (let path = state_path data_dir share_id in
      if \<not> fs_exists w path then io_return None w
      else
        io_bind (fs_read path) (\<lambda>bytes.
        case dec_state C bytes of
          None \<Rightarrow> io_fail (Bail ''parsing state.json'' [])
        | Some j \<Rightarrow> io_bind (with_defaults j) (\<lambda>state. io_return (Some state))) w)"

definition state_save ::
  "('c, 'z) share_crates_scheme \<Rightarrow> path \<Rightarrow> string \<Rightarrow> persisted_state \<Rightarrow> unit io" where
  "state_save C data_dir share_id state =
     (let path = state_path data_dir share_id in
      io_bind (fs_create_dir_all (butlast path)) (\<lambda>_.
      case enc_state C state of
        None \<Rightarrow> io_fail (Bail ''serializing state.json'' [])
      | Some json \<Rightarrow>
          let tmp = with_extension path ''json.tmp'' in
          io_bind (fs_write tmp json) (\<lambda>_.
          fs_rename tmp path)))"

section \<open>Identity and lock\<close>

definition PRIVATE_KEY_LEN :: nat where "PRIVATE_KEY_LEN = 32"

definition identity_load_or_create :: "path \<Rightarrow> byte list io" where
  "identity_load_or_create path w =
     (if fs_exists w path then
        io_bind (fs_read path) (\<lambda>raw_key.
        if length raw_key \<noteq> PRIVATE_KEY_LEN
        then io_fail (Bail ''identity.key has wrong length'' [length raw_key, PRIVATE_KEY_LEN])
        else io_return raw_key) w
      else
        io_bind (fill_bytes PRIVATE_KEY_LEN) (\<lambda>key.
        if path = [] then io_fail (Bail ''identity path has no parent'' [])
        else
          io_bind (fs_create_dir_all (butlast path)) (\<lambda>_.
          io_bind (fs_write path key) (\<lambda>_.
          io_bind (fs_chmod path mode_0600) (\<lambda>_.
          io_return key)))) w)"

text \<open>
  \<open>lock_held\<close> says whether another process holds the advisory lock; the value returned
  stands for the locked file.
\<close>

definition acquire :: "bool \<Rightarrow> path \<Rightarrow> path io" where
  "acquire lock_held path =
     io_bind (if path = [] then io_return () else fs_create_dir_all (butlast path)) (\<lambda>_.
     io_bind (fs_open_create path) (\<lambda>_.
     if lock_held then io_fail (Bail ''another peerdup daemon is already running'' [])
     else io_return path))"

lemma keeps_faults_identity [intro, simp]: "keeps_faults (identity_load_or_create p)"
proof -
  have "keeps_faults (\<lambda>w. identity_load_or_create p w)"
    unfolding identity_load_or_create_def by (intro keeps_faults_if keeps_faults_bind) auto
  then show ?thesis by simp
qed

section \<open>What the code relies on\<close>

text \<open>\<open>serde_json\<close>: decoding inverts encoding.\<close>

definition json_ok :: "('c, 'z) share_crates_scheme \<Rightarrow> bool" where
  "json_ok C \<longleftrightarrow> (\<forall>c bs. enc_config C c = Some bs \<longrightarrow> dec_config C bs = Some c) \<and>
     (\<forall>s bs. enc_state C s = Some bs \<longrightarrow> dec_state C bs =
        Some \<lparr>pj_version_hash = ps_version_hash s, pj_clock = ps_clock s,
          pj_timestamp = Some (ps_timestamp s), pj_manifest = Some (ps_manifest s)\<rparr>)"

section \<open>The state file\<close>

abbreviation state_tmp :: "path \<Rightarrow> string \<Rightarrow> path" where
  "state_tmp dd sid \<equiv> with_extension (state_path dd sid) ''json.tmp''"

lemma state_tmp_eq: "state_tmp dd sid = share_dir dd sid @ [''state.json.tmp'']"
  by (simp add: state_path_def file_stem_def Let_def)

lemma state_tmp_neq [simp]: "state_tmp dd sid \<noteq> state_path dd sid"
  unfolding state_tmp_eq by (simp add: state_path_def)

lemma state_save_replace:
  "enc_state C s = Some bs \<Longrightarrow>
   state_save C dd sid s = fs_replace (state_tmp dd sid) (state_path dd sid) bs"
  by (simp add: state_save_def fs_replace_def Let_def)

lemma state_save_unencodable:
  assumes "enc_state C s = None" and "state_save C dd sid s w = (r, w')"
  shows "\<not> is_ok r" and "fs_file w' = fs_file w"
proof -
  from assms have "io_bind (fs_create_dir_all (butlast (state_path dd sid)))
      (\<lambda>_. io_fail (Bail ''serializing state.json'' [])) w = (r, w')"
    by (simp add: state_save_def Let_def)
  then have "\<not> is_ok r \<and> fs_file w' = fs_file w"
    using fs_create_dir_all_files [of "butlast (state_path dd sid)" w]
    by (cases rule: io_bind_cases) auto
  then show "\<not> is_ok r" and "fs_file w' = fs_file w" by auto
qed

interpretation state_file:
  file_slot "state_path dd sid" "state_tmp dd sid" "\<lambda>s. the (enc_state C s)" "state_save C dd sid"
  for C :: "('c, 'z) share_crates_scheme" and dd sid
proof unfold_locales
  fix s w r w' q assume s: "state_save C dd sid s w = (r, w')"
  show "fs_file w' (state_path dd sid) = Some (the (enc_state C s)) \<or>
      \<not> is_ok r \<and> fs_file w' (state_path dd sid) = fs_file w (state_path dd sid)"
  proof (cases "enc_state C s")
    case None
    with state_save_unencodable [OF None s] show ?thesis by simp
  next
    case (Some bs)
    with fs_replace_atomic(1) [OF s [unfolded state_save_replace [OF Some]]] show ?thesis by auto
  qed
  show "fs_file w' q = fs_file w q" if "q \<noteq> state_path dd sid" "q \<noteq> state_tmp dd sid"
  proof (cases "enc_state C s")
    case None
    with state_save_unencodable [OF None s] show ?thesis by simp
  next
    case (Some bs)
    with fs_replace_atomic(2) [OF s [unfolded state_save_replace [OF Some]]] that show ?thesis by simp
  qed
qed

lemma keeps_faults_state_save [intro, simp]: "keeps_faults (state_save C dd sid s)"
  unfolding state_save_def Let_def by (intro keeps_faults_bind) (auto split: option.split)

text \<open>Whoever reads a stored state reads the one that was saved.\<close>

lemma state_load_stored:
  assumes "json_ok C" "enc_state C s = Some bs" "fs_file w (state_path dd sid) = Some bs"
    and "state_load C dd sid w = (Inr p, w')"
  shows "p = Some s" "w_nodes w' = w_nodes w"
proof -
  have ex: "fs_exists w (state_path dd sid)"
    using assms(3) by (auto simp: fs_file_def fs_exists_def split: option.splits)
  have "dec_state C bs = Some \<lparr>pj_version_hash = ps_version_hash s, pj_clock = ps_clock s,
      pj_timestamp = Some (ps_timestamp s), pj_manifest = Some (ps_manifest s)\<rparr>"
    using assms(1,2) by (simp add: json_ok_def)
  then have "p = Some s \<and> w_nodes w' = w_nodes w" using assms(3,4) ex
    by (auto simp: state_load_def Let_def with_defaults_def io_bind_eq_Inr fs_read_def syscall_def split: if_splits)
  then show "p = Some s" "w_nodes w' = w_nodes w" by auto
qed

section \<open>The list of shares\<close>

lemma load_all_loop_ok:
  assumes "load_all_loop C dir names w = (Inr cfgs, w')"
  shows "fs_file w' = fs_file w \<and> set cfgs = {cfg. \<exists>n bs. n \<in> set names \<and> fs_at w (dir @ [n]) = Some NDir \<and>
    fs_file w (dir @ [n, ''share.json'']) = Some bs \<and> dec_config C bs = Some cfg}"
  using assms
proof (induction names arbitrary: cfgs w)
  case (Cons n names)
  let ?p = "dir @ [n, ''share.json'']"
  from Cons.prems obtain ft w1 where ft: "fs_file_type (dir @ [n]) w = (Inr ft, w1)"
    and rest: "(if ft \<noteq> FtDir then load_all_loop C dir names w1
         else if \<not> fs_exists w1 ?p then load_all_loop C dir names w1
         else io_bind (fs_read ?p) (\<lambda>bytes.
           case dec_config C bytes of
             None \<Rightarrow> io_fail (Bail ''parsing share.json'' [])
           | Some cfg \<Rightarrow> io_bind (load_all_loop C dir names) (\<lambda>cfgs. io_return (cfg # cfgs))) w1) = (Inr cfgs, w')"
    unfolding load_all_loop.simps Let_def io_bind_eq_Inr by blast
  note f = fs_file_type_ok [OF ft]
  have at: "fs_at w1 = fs_at w" and fl: "fs_file w1 = fs_file w"
    using f fs_view_cong by blast+
  have skip: ?case if "load_all_loop C dir names w1 = (Inr cfgs, w')"
    "fs_at w (dir @ [n]) \<noteq> Some NDir \<or> fs_file w ?p = None"
    using Cons.IH [OF that(1)] that(2) at fl by auto
  show ?case
  proof (cases "ft = FtDir \<and> fs_exists w1 ?p")
    case False
    then show ?thesis using rest f at
      by (intro skip) (auto simp: fs_exists_def fs_file_def split: if_splits)
  next
    case True
    with rest obtain bs w2 cfg out where rd: "fs_read ?p w1 = (Inr bs, w2)"
      and dec: "dec_config C bs = Some cfg" and out: "cfgs = cfg # out"
      and rec: "load_all_loop C dir names w2 = (Inr out, w')"
      by (auto simp: io_bind_eq_Inr split: option.splits)
    have w2: "fs_at w2 = fs_at w" "fs_file w2 = fs_file w" "fs_file w ?p = Some bs"
      using fs_read_ok [OF rd] at fl fs_view_cong by metis+
    show ?thesis using Cons.IH [OF rec] f True dec out w2 by auto
  qed
qed auto

lemma load_all_ok:
  assumes "load_all C dd w = (Inr cfgs, w')" and "fs_exists w (shares_dir dd)"
  shows "fs_file w' = fs_file w \<and> sorted (map sc_id cfgs) \<and>
    set cfgs = {cfg. \<exists>n bs. fs_at w (share_dir dd n) = Some NDir \<and>
      fs_file w (share_dir dd n @ [''share.json'']) = Some bs \<and> dec_config C bs = Some cfg}"
proof -
  from assms obtain names w1 out where rd: "fs_read_dir (shares_dir dd) w = (Inr names, w1)"
    and lp: "load_all_loop C (shares_dir dd) names w1 = (Inr out, w')" and c: "cfgs = sort_key sc_id out"
    by (auto simp: load_all_def Let_def io_bind_eq_Inr)
  have at: "fs_at w1 = fs_at w" using rd
    by (auto simp: fs_read_dir_def syscall_def split: if_splits)
  have "n \<in> set names" if "fs_at w (share_dir dd n) = Some NDir" for n
    using fs_read_dir_ok [OF rd] that by (simp add: dir_entries_iff share_dir_def)
  with load_all_loop_ok [OF lp] fs_read_dir_ok [OF rd] at c show ?thesis
    by (auto simp: share_dir_def)
qed

section \<open>Properties\<close>

text \<open>
  The sync state survives a restart: under any pattern of failing calls
  \<open>state.json\<close> holds its old contents or the complete new state, and after a successful
  save loading gives back version, clock, timestamp and manifest unchanged.
\<close>

theorem persisted_state_round_trip:
  assumes "json_ok C" and "state_save C dd sid s w = (r, w')"
  shows "fs_file w' (state_path dd sid) \<in> {fs_file w (state_path dd sid), enc_state C s} \<and>
    (\<forall>q. q \<notin> {state_path dd sid, state_tmp dd sid} \<longrightarrow> fs_file w' q = fs_file w q) \<and>
    (is_ok r \<and> fault_free w' \<longrightarrow>
       (\<exists>w''. state_load C dd sid w' = (Inr (Some s), w'') \<and> fs_file w'' = fs_file w'))"
proof (intro conjI impI)
  show "fs_file w' (state_path dd sid) \<in> {fs_file w (state_path dd sid), enc_state C s}"
    using state_file.save_effect [OF assms(2)] state_save_unencodable [OF _ assms(2)]
    by (cases "enc_state C s") auto
  show "\<forall>q. q \<notin> {state_path dd sid, state_tmp dd sid} \<longrightarrow> fs_file w' q = fs_file w q"
    using state_file.save_keeps [OF assms(2)] by blast
  assume ok: "is_ok r \<and> fault_free w'"
  then obtain bs where bs: "enc_state C s = Some bs"
    using state_save_unencodable(1) [OF _ assms(2)] by (cases "enc_state C s") auto
  then have f: "fs_file w' (state_path dd sid) = Some bs"
    using state_file.save_effect [OF assms(2)] ok by auto
  then have ex: "fs_exists w' (state_path dd sid)"
    by (auto simp: fs_file_def fs_exists_def split: option.splits)
  have "dec_state C bs = Some \<lparr>pj_version_hash = ps_version_hash s, pj_clock = ps_clock s,
      pj_timestamp = Some (ps_timestamp s), pj_manifest = Some (ps_manifest s)\<rparr>"
    using assms(1) bs by (simp add: json_ok_def)
  then show "\<exists>w''. state_load C dd sid w' = (Inr (Some s), w'') \<and> fs_file w'' = fs_file w'"
    using ex fs_read_progress [OF _ f] ok
    by (simp add: state_load_def Let_def with_defaults_def)
qed

definition demo_config :: share_config where
  "demo_config = \<lparr>sc_id = ''s'', sc_topic = ''t'', sc_root_path = [''r''], sc_role = Sync, sc_created_at = 5\<rparr>"

definition demo_state :: persisted_state where
  "demo_state = \<lparr>ps_version_hash = ''v'', ps_clock = [(''a'', 1)], ps_timestamp = 7, ps_manifest = [[''f'']]\<rparr>"

definition demo_share_crates :: "signed_op list share_crates" where
  "demo_share_crates = box_crates.extend demo_box
     \<lparr>enc_config = (\<lambda>c. if c = demo_config then Some [1] else None),
      dec_config = (\<lambda>bs. if bs = [1] then Some demo_config else None),
      enc_state = (\<lambda>s. if s = demo_state then Some [2] else None),
      dec_state = (\<lambda>bs. if bs = [2] then Some \<lparr>pj_version_hash = ''v'', pj_clock = [(''a'', 1)],
        pj_timestamp = Some 7, pj_manifest = Some [[''f'']]\<rparr> else None)\<rparr>"

lemma demo_json_ok: "json_ok demo_share_crates"
  by (auto simp: json_ok_def demo_share_crates_def box_crates.defs demo_state_def split: if_splits)

theorem persisted_state_round_trip_witness:
  "\<exists>w''. state_load demo_share_crates [''d''] ''s''
     (snd (state_save demo_share_crates [''d''] ''s'' demo_state (calm_world []))) = (Inr (Some demo_state), w'')"
proof -
  let ?s = "state_save demo_share_crates [''d''] ''s'' demo_state (calm_world [])"
  have "is_ok (fst ?s)" by code_simp
  moreover have "fault_free (snd ?s)" by (intro keeps_faults_fault_free) simp_all
  ultimately show ?thesis
    using persisted_state_round_trip [OF demo_json_ok surjective_pairing] by blast
qed

text \<open>
  C28. The daemon's identity is created once: the key returned is the one stored, later
  starts return the same key, an existing file is never rewritten, and a new one ends
  with mode 0600.
\<close>

theorem identity_stable:
  assumes "identity_load_or_create p w = (Inr k, w')" and "fault_free w'"
  shows "length k = PRIVATE_KEY_LEN \<and> fs_file w' p = Some k \<and>
    (\<exists>w''. identity_load_or_create p w' = (Inr k, w'') \<and> fs_file w'' = fs_file w') \<and>
    (if fs_exists w p then fs_file w' = fs_file w else fs_mode w' p = Some mode_0600)"
proof -
  have main: "length k = PRIVATE_KEY_LEN \<and> fs_file w' p = Some k \<and>
    (if fs_exists w p then fs_file w' = fs_file w else fs_mode w' p = Some mode_0600)"
  proof (cases "fs_exists w p")
    case True
    with assms(1) obtain w1 where "fs_read p w = (Inr k, w1)" "length k = PRIVATE_KEY_LEN" "w' = w1"
      by (auto simp: identity_load_or_create_def io_bind_eq_Inr split: if_splits)
    with True show ?thesis using fs_read_ok fs_view_cong by metis
  next
    case False
    with assms(1) obtain w1 u2 w2 u3 w3 u4 where 1: "fill_bytes PRIVATE_KEY_LEN w = (Inr k, w1)"
      and 2: "fs_create_dir_all (butlast p) w1 = (Inr u2, w2)" and 3: "fs_write p k w2 = (Inr u3, w3)"
      and 4: "fs_chmod p mode_0600 w3 = (Inr u4, w')"
      by (auto simp: identity_load_or_create_def io_bind_eq_Inr split: if_splits)
    have f3: "fs_file w3 p = Some k" using fs_write_ok [OF 3] by simp
    moreover have "fs_file w' = fs_file w3" using fs_chmod_files [of p mode_0600 w3] 4 by simp
    moreover have "fs_mode w' p = Some mode_0600" using fs_chmod_ok_mode [OF 4] f3 by simp
    ultimately show ?thesis using False fill_bytes_result [OF 1] by simp
  qed
  then have "fs_exists w' p" by (auto simp: fs_file_def fs_exists_def split: option.splits)
  with main fs_read_progress [OF assms(2)] have
    "identity_load_or_create p w' = (Inr k, w'\<lparr>w_tick := Suc (w_tick w')\<rparr>)"
    by (simp add: identity_load_or_create_def)
  with main show ?thesis by auto
qed

theorem identity_stable_witness:
  "\<exists>k. fst (identity_load_or_create [''d'', ''identity.key''] (calm_world [])) = Inr k \<and> length k = PRIVATE_KEY_LEN"
proof -
  let ?i = "identity_load_or_create [''d'', ''identity.key''] (calm_world [])"
  have "is_ok (fst ?i)" by code_simp
  then obtain k where k: "?i = (Inr k, snd ?i)" by (metis is_ok_iff prod.collapse)
  have "fault_free (snd ?i)" by (intro keeps_faults_fault_free) simp_all
  from identity_stable [OF k this] k show ?thesis by (metis fst_conv)
qed

text \<open>
  The key is written in place: a write cut short leaves a file every later start
  refuses.
\<close>

lemma identity_truncated_write_sticks:
  "let w = (calm_world [])\<lparr>w_fault := (\<lambda>n. if n = 1 then Some 11 else None)\<rparr>;
       r1 = identity_load_or_create [''d'', ''identity.key''] w;
       r2 = identity_load_or_create [''d'', ''identity.key''] (snd r1)
   in fst r1 = Inl IoError \<and> fst r2 = Inl (Bail ''identity.key has wrong length'' [10, 32])"
  by code_simp

text \<open>
  C29. The list of shares follows the configuration: a configuration that was saved is
  listed, in the order of the identifiers; removing a share deletes every file of it and
  no other file, and where each directory holds the configuration of its own share the
  removed identifier is listed no more.
\<close>

theorem share_list_follows_config:
  assumes "json_ok C"
  shows "(config_save C cfg dd w = (Inr (), w1) \<and> load_all C dd w1 = (Inr cfgs, w2) \<longrightarrow>
      cfg \<in> set cfgs \<and> sorted (map sc_id cfgs)) \<and>
    (remove_share dd sid w = (Inr (), w1) \<longrightarrow>
      fs_file w1 = (\<lambda>q. if take (length (share_dir dd sid)) q = share_dir dd sid then None else fs_file w q) \<and>
      ((\<forall>n bs cfg. fs_file w (share_dir dd n @ [''share.json'']) = Some bs \<and> dec_config C bs = Some cfg \<longrightarrow> sc_id cfg = n) \<and>
        load_all C dd w1 = (Inr cfgs, w2) \<longrightarrow> sid \<notin> sc_id ` set cfgs))"
proof (intro conjI impI)
  assume a: "config_save C cfg dd w = (Inr (), w1) \<and> load_all C dd w1 = (Inr cfgs, w2)"
  let ?dir = "share_dir dd (sc_id cfg)"
  from a obtain u w0 bs where mk: "fs_create_dir_all ?dir w = (Inr u, w0)" and bs: "enc_config C cfg = Some bs"
    and wr: "fs_write (?dir @ [''share.json'']) bs w0 = (Inr (), w1)"
    by (auto simp: config_save_def Let_def io_bind_eq_Inr split: option.splits)
  have "fs_is_dir w0 (shares_dir dd)"
    using fs_create_dir_all_prefix [of "shares_dir dd" "[sc_id cfg]"] mk by (simp add: share_dir_def)
  moreover have "shares_dir dd \<noteq> ?dir @ [''share.json'']" by (simp add: share_dir_def)
  ultimately have ex: "fs_exists w1 (shares_dir dd)"
    using fs_write_at [OF wr] by (metis fs_exists_def fs_is_dir_def option.distinct(1))
  have "fs_is_dir w0 ?dir" "fs_at w1 ?dir = fs_at w0 ?dir" using fs_write_at [OF wr] by simp_all
  then have "fs_at w1 ?dir = Some NDir" by (simp add: fs_is_dir_def share_dir_def)
  moreover have "fs_file w1 (?dir @ [''share.json'']) = Some bs" using fs_write_ok [OF wr] by simp
  moreover have "dec_config C bs = Some cfg" using assms bs by (simp add: json_ok_def)
  ultimately show "cfg \<in> set cfgs" "sorted (map sc_id cfgs)"
    using load_all_ok [OF conjunct2 [OF a] ex] by blast+
next
  assume "remove_share dd sid w = (Inr (), w1)"
  then have rm: "fs_remove_dir_all (share_dir dd sid) w = (Inr (), w1)"
    by (auto simp: remove_share_def Let_def split: if_splits)
  note f = fs_remove_dir_all_files [OF rm]
  show "fs_file w1 = (\<lambda>q. if take (length (share_dir dd sid)) q = share_dir dd sid then None else fs_file w q)"
    using f by simp
  assume c: "(\<forall>n bs cfg. fs_file w (share_dir dd n @ [''share.json'']) = Some bs \<and> dec_config C bs = Some cfg \<longrightarrow>
      sc_id cfg = n) \<and> load_all C dd w1 = (Inr cfgs, w2)"
  show "sid \<notin> sc_id ` set cfgs"
  proof (cases "fs_exists w1 (shares_dir dd)")
    case False
    with c show ?thesis by (simp add: load_all_def Let_def)
  next
    case True
    from load_all_ok [OF conjunct2 [OF c] True] c f show ?thesis by auto
  qed
qed

theorem share_list_follows_config_witness:
  "\<exists>cfgs. fst (load_all demo_share_crates [''d'']
     (snd (config_save demo_share_crates demo_config [''d''] (calm_world [])))) = Inr cfgs \<and> demo_config \<in> set cfgs"
proof -
  let ?s = "config_save demo_share_crates demo_config [''d''] (calm_world [])"
  let ?l = "load_all demo_share_crates [''d''] (snd ?s)"
  have "fst ?s = Inr ()" "is_ok (fst ?l)" by code_simp+
  then obtain cfgs where "?s = (Inr (), snd ?s)" "?l = (Inr cfgs, snd ?l)" by (metis is_ok_iff prod.collapse)
  with share_list_follows_config [OF demo_json_ok] have "demo_config \<in> set cfgs" by blast
  with \<open>?l = (Inr cfgs, snd ?l)\<close> show ?thesis by (metis fst_conv)
qed

end
