(* ===== verification/Ticket.thy ===== *)
theory Ticket
  imports Share
begin

text \<open>
  \<^verbatim>\<open>src/ticket.rs\<close>: the invitation handed to a new member.  The \<open>base64\<close> engine and the
  \<open>bincode\<close> encoding of the ticket are fields of the crates parameter.
\<close>

section \<open>Operations\<close>

definition TICKET_VERSION :: byte where "TICKET_VERSION = 2"

record ticket =
  tk_version :: byte
  tk_share_id :: string
  tk_topic :: string
  tk_keys :: "key list"
  tk_auth_log :: "signed_op list"
  tk_invitee_pubkey :: "byte list"
  tk_role :: share_role

record 'c ticket_crates = "'c share_crates" +
  enc_ticket :: "ticket \<Rightarrow> byte list option"
  dec_ticket :: "byte list \<Rightarrow> ticket option"
  b64_encode :: "byte list \<Rightarrow> string"
  b64_decode :: "string \<Rightarrow> byte list option"

text \<open>
  \<open>str::trim\<close>: the UTF-8 sequences of the characters with the property \<open>White_Space\<close>.
\<close>

definition white_space :: "string list" where
  "white_space =
     [[CHR 0x09], [CHR 0x0A], [CHR 0x0B], [CHR 0x0C], [CHR 0x0D], [CHR 0x20], [CHR 0xC2, CHR 0x85],
      [CHR 0xC2, CHR 0xA0], [CHR 0xE1, CHR 0x9A, CHR 0x80], [CHR 0xE2, CHR 0x80, CHR 0x80],
      [CHR 0xE2, CHR 0x80, CHR 0x81], [CHR 0xE2, CHR 0x80, CHR 0x82], [CHR 0xE2, CHR 0x80, CHR 0x83],
      [CHR 0xE2, CHR 0x80, CHR 0x84], [CHR 0xE2, CHR 0x80, CHR 0x85], [CHR 0xE2, CHR 0x80, CHR 0x86],
      [CHR 0xE2, CHR 0x80, CHR 0x87], [CHR 0xE2, CHR 0x80, CHR 0x88], [CHR 0xE2, CHR 0x80, CHR 0x89],
      [CHR 0xE2, CHR 0x80, CHR 0x8A], [CHR 0xE2, CHR 0x80, CHR 0xA8], [CHR 0xE2, CHR 0x80, CHR 0xA9],
      [CHR 0xE2, CHR 0x80, CHR 0xAF], [CHR 0xE2, CHR 0x81, CHR 0x9F], [CHR 0xE3, CHR 0x80, CHR 0x80]]"

lemma white_space_nonempty: "q \<in> set white_space \<Longrightarrow> q \<noteq> []"
  by (auto simp: white_space_def)

function trim_front :: "string list \<Rightarrow> string \<Rightarrow> string" where
  "trim_front seqs s = (case List.find (\<lambda>q. q \<noteq> [] \<and> prefix q s) seqs of
     None \<Rightarrow> s | Some q \<Rightarrow> trim_front seqs (drop (length q) s))"
  by pat_completeness auto
termination
  by (relation "measure (\<lambda>(seqs, s). length s)")
    (auto dest!: find_map_Some simp: prefix_def)

declare trim_front.simps [simp del]

definition trim :: "string \<Rightarrow> string" where
  "trim s = rev (trim_front (map rev white_space) (rev (trim_front white_space s)))"

definition ticket_encode :: "('c, 'z) ticket_crates_scheme \<Rightarrow> ticket \<Rightarrow> string result" where
  "ticket_encode C t = (case enc_ticket C t of
     None \<Rightarrow> Inl (Bail ''encoding ticket'' []) | Some bytes \<Rightarrow> Inr (b64_encode C bytes))"

definition ticket_decode :: "('c, 'z) ticket_crates_scheme \<Rightarrow> string \<Rightarrow> ticket result" where
  "ticket_decode C s =
     (case b64_decode C (trim s) of
        None \<Rightarrow> Inl (Bail ''ticket is not valid base64'' [])
      | Some bytes \<Rightarrow>
          (case Option.bind (dec_ticket C bytes) (\<lambda>t. map_option (\<lambda>ops. t\<lparr>tk_auth_log := ops\<rparr>)
             (those (map check_signature_len (tk_auth_log t)))) of
             None \<Rightarrow> Inl (Bail ''ticket payload is malformed'' [])
           | Some t \<Rightarrow>
               if tk_version t \<noteq> TICKET_VERSION
               then Inl (Bail ''unsupported ticket version'' [unat (tk_version t)])
               else if tk_keys t = [] then Inl (Bail ''ticket has no keys'' [])
               else if tk_auth_log t = [] then Inl (Bail ''ticket has no auth log'' [])
               else Inr t))"

section \<open>What the code relies on\<close>

text \<open>
  \<open>base64\<close> in its URL-safe alphabet and \<open>bincode\<close>: decoding inverts encoding, and
  the text is made of letters, digits, minus and underscore.
\<close>

definition b64_char :: "char \<Rightarrow> bool" where
  "b64_char c \<longleftrightarrow> c \<in> set ''ABCDEFGHIJKLMNOPQRSTUVWXYZabcdefghijklmnopqrstuvwxyz0123456789-_''"

definition ticket_codec_ok :: "('c, 'z) ticket_crates_scheme \<Rightarrow> bool" where
  "ticket_codec_ok C \<longleftrightarrow>
     (\<forall>bs. b64_decode C (b64_encode C bs) = Some bs \<and> list_all b64_char (b64_encode C bs)) \<and>
     (\<forall>t bs. enc_ticket C t = Some bs \<longrightarrow> dec_ticket C bs = Some t)"

section \<open>Trimming\<close>

lemma white_space_not_b64: "q \<in> set white_space \<Longrightarrow> \<not> b64_char (hd q) \<and> \<not> b64_char (last q)"
proof -
  have "list_all (\<lambda>q. \<not> b64_char (hd q) \<and> \<not> b64_char (last q)) white_space" by code_simp
  then show "q \<in> set white_space \<Longrightarrow> ?thesis" by (simp add: list_all_iff)
qed

lemma trim_front_b64:
  assumes "s = [] \<or> b64_char (hd s)" and "\<And>q. q \<in> set seqs \<Longrightarrow> \<not> b64_char (hd q)"
  shows "trim_front seqs s = s"
proof -
  have "\<not> (q \<noteq> [] \<and> prefix q s)" if "q \<in> set seqs" for q
  proof
    assume p: "q \<noteq> [] \<and> prefix q s"
    then have "hd q = hd s" "s \<noteq> []" by (cases q; auto simp: prefix_def)+
    with assms(1) assms(2) [OF that] show False by simp
  qed
  then have "List.find (\<lambda>q. q \<noteq> [] \<and> prefix q s) seqs = None" by (simp add: find_None_iff_all)
  then show ?thesis by (simp add: trim_front.simps)
qed

lemma trim_front_step:
  assumes "q \<in> set seqs" "q \<noteq> []" and "\<forall>a \<in> set seqs. \<forall>b \<in> set seqs. prefix a b \<longrightarrow> a = b"
  shows "trim_front seqs (q @ s) = trim_front seqs s"
proof -
  obtain p where p: "List.find (\<lambda>p. p \<noteq> [] \<and> prefix p (q @ s)) seqs = Some p"
    using assms(1,2) by (cases "List.find (\<lambda>p. p \<noteq> [] \<and> prefix p (q @ s)) seqs")
      (auto simp: find_None_iff_all prefix_def)
  then have "p \<in> set seqs" "prefix p (q @ s)" by (auto dest: find_map_Some)
  then have "prefix p q \<or> prefix q p" by (metis prefix_same_cases prefixI)
  with assms \<open>p \<in> set seqs\<close> have "p = q" by blast
  with p show ?thesis by (subst trim_front.simps) simp
qed

lemma trim_front_many:
  "set qs \<subseteq> set seqs \<Longrightarrow> [] \<notin> set seqs \<Longrightarrow> \<forall>a \<in> set seqs. \<forall>b \<in> set seqs. prefix a b \<longrightarrow> a = b \<Longrightarrow>
   trim_front seqs (concat qs @ s) = trim_front seqs s"
proof (induction qs)
  case (Cons q qs)
  then have "trim_front seqs (q @ concat qs @ s) = trim_front seqs (concat qs @ s)"
    by (intro trim_front_step) auto
  with Cons show ?case by simp
qed simp

text \<open>Padding a text of base64 characters with white space is undone by \<open>trim\<close>.\<close>

lemma trim_padded:
  assumes "list_all b64_char s" and "set pre \<subseteq> set white_space" and "set post \<subseteq> set white_space"
  shows "trim (concat pre @ s @ concat post) = s"
proof -
  let ?ws = "white_space" and ?wr = "map rev white_space"
  have free: "\<forall>a \<in> set ?ws. \<forall>b \<in> set ?ws. prefix a b \<longrightarrow> a = b"
    "\<forall>a \<in> set ?wr. \<forall>b \<in> set ?wr. prefix a b \<longrightarrow> a = b" by code_simp+
  have ne: "[] \<notin> set ?ws" "[] \<notin> set ?wr" using white_space_nonempty by auto
  have hd1: "\<not> b64_char (hd q)" if "q \<in> set ?ws" for q using white_space_not_b64 [OF that] by simp
  have hd2: "\<not> b64_char (hd q)" if "q \<in> set ?wr" for q
    using that white_space_not_b64 by (auto simp: hd_rev)
  have 1: "trim_front ?ws (concat pre @ s @ concat post) = trim_front ?ws (s @ concat post)"
    by (rule trim_front_many [OF assms(2) ne(1) free(1)])
  have 2: "trim_front ?wr (concat (rev (map rev post)) @ rev s) = rev s"
  proof -
    have "set (rev (map rev post)) \<subseteq> set ?wr" using assms(3) by auto
    note m = trim_front_many [OF this ne(2) free(2), of "rev s"]
    have "rev s = [] \<or> b64_char (hd (rev s))" using assms(1) by (cases s rule: rev_cases) auto
    then have "trim_front ?wr (rev s) = rev s" using hd2 by (rule trim_front_b64)
    with m show ?thesis by simp
  qed
  show ?thesis
  proof (cases s)
    case Nil
    have "trim_front ?ws (concat post) = trim_front ?ws []"
      using trim_front_many [OF assms(3) ne(1) free(1), of "[]"] by simp
    with 1 Nil show ?thesis
      using trim_front_b64 [of "[]" ?ws] trim_front_b64 [of "[]" ?wr] hd1 hd2 by (simp add: trim_def)
  next
    case (Cons c cs)
    with assms(1) have "trim_front ?ws (s @ concat post) = s @ concat post"
      by (intro trim_front_b64 hd1) auto
    with 1 2 show ?thesis by (simp add: trim_def rev_concat rev_map)
  qed
qed

lemma ticket_decode_encoded:
  assumes "ticket_codec_ok C" and "ticket_encode C t = Inr s"
    and "list_all (\<lambda>op. length (so_signature op) = SIGNATURE_LEN) (tk_auth_log t)"
    and "set pre \<subseteq> set white_space" and "set post \<subseteq> set white_space"
  shows "ticket_decode C (concat pre @ s @ concat post) = Inr t \<longleftrightarrow>
      tk_version t = TICKET_VERSION \<and> tk_keys t \<noteq> [] \<and> tk_auth_log t \<noteq> []"
proof -
  from assms(2) obtain bs where bs: "enc_ticket C t = Some bs" and s: "s = b64_encode C bs"
    by (auto simp: ticket_encode_def split: option.splits)
  have "trim (concat pre @ s @ concat post) = s"
    using assms(1,4,5) s by (intro trim_padded) (simp_all add: ticket_codec_ok_def)
  moreover have "b64_decode C s = Some bs" "dec_ticket C bs = Some t"
    using assms(1) bs s by (simp_all add: ticket_codec_ok_def)
  ultimately show ?thesis
    using those_check_signature [OF assms(3)] by (simp add: ticket_decode_def)
qed

section \<open>Properties\<close>

text \<open>
  C30. A ticket that was encoded decodes to itself, also when white space surrounds the
  pasted text, if it carries the current version, keys and a log; and whatever text is
  given, a ticket is accepted only in that case.
\<close>

theorem ticket_round_trip:
  assumes "ticket_codec_ok C" and "ticket_encode C t = Inr s"
    and "list_all (\<lambda>op. length (so_signature op) = SIGNATURE_LEN) (tk_auth_log t)"
    and "set pre \<subseteq> set white_space" and "set post \<subseteq> set white_space"
  shows "(ticket_decode C (concat pre @ s @ concat post) = Inr t \<longleftrightarrow>
      tk_version t = TICKET_VERSION \<and> tk_keys t \<noteq> [] \<and> tk_auth_log t \<noteq> []) \<and>
    (ticket_decode C text = Inr t' \<longrightarrow>
      tk_version t' = TICKET_VERSION \<and> tk_keys t' \<noteq> [] \<and> tk_auth_log t' \<noteq> [])"
  using ticket_decode_encoded [OF assms]
  by (auto simp: ticket_decode_def split: option.splits if_splits)

definition demo_ticket :: ticket where
  "demo_ticket = \<lparr>tk_version = 2, tk_share_id = ''s'', tk_topic = ''t'', tk_keys = [replicate 32 7],
     tk_auth_log = [demo_create], tk_invitee_pubkey = [8], tk_role = Sync\<rparr>"

text \<open>A base64 engine for the example: a byte is written as its two hexadecimal digits.\<close>

fun demo_unhex :: "string \<Rightarrow> byte list option" where
  "demo_unhex [] = Some []"
| "demo_unhex [c] = None"
| "demo_unhex (c # d # s) = (case (hex_val c, hex_val d, demo_unhex s) of
     (Some x, Some y, Some bs) \<Rightarrow> Some (of_nat (16 * x + y) # bs) | _ \<Rightarrow> None)"

definition demo_ticket_crates :: "signed_op list ticket_crates" where
  "demo_ticket_crates = share_crates.extend demo_share_crates
     \<lparr>enc_ticket = (\<lambda>t. if t = demo_ticket then Some [3] else None),
      dec_ticket = (\<lambda>bs. if bs = [3] then Some demo_ticket else None),
      b64_encode = bytes_hex, b64_decode = demo_unhex\<rparr>"

lemma demo_unhex_hex: "demo_unhex (bytes_hex bs) = Some bs"
proof (induction bs)
  case (Cons b bs)
  then show ?case
    using hex_val_digit [OF byte_halves(1) [of b]] hex_val_digit [OF byte_halves(2) [of b]]
    by (simp add: byte_hex_def)
qed (simp add: bytes_hex_def)

lemma demo_ticket_codec_ok: "ticket_codec_ok demo_ticket_crates"
proof -
  have "\<forall>n \<in> set [0..<16]. b64_char (hex_digit n)" by code_simp
  then have "list_all b64_char (bytes_hex bs)" for bs
    using byte_halves by (auto simp: list_all_iff bytes_hex_def byte_hex_def)
  then show ?thesis
    by (simp add: ticket_codec_ok_def demo_ticket_crates_def share_crates.defs demo_unhex_hex)
qed

theorem ticket_round_trip_witness:
  "ticket_encode demo_ticket_crates demo_ticket = Inr ''03'' \<and>
   ticket_decode demo_ticket_crates ('' 03'' @ [CHR 0x0A]) = Inr demo_ticket"
proof -
  have e: "ticket_encode demo_ticket_crates demo_ticket = Inr ''03''" by code_simp
  have "list_all (\<lambda>op. length (so_signature op) = SIGNATURE_LEN) (tk_auth_log demo_ticket)" by code_simp
  moreover have "set ['' ''] \<subseteq> set white_space" "set [[CHR 0x0A]] \<subseteq> set white_space" by code_simp+
  moreover have "tk_version demo_ticket = TICKET_VERSION \<and> tk_keys demo_ticket \<noteq> [] \<and> tk_auth_log demo_ticket \<noteq> []"
    by (simp add: demo_ticket_def TICKET_VERSION_def)
  ultimately show ?thesis
    using ticket_round_trip [OF demo_ticket_codec_ok e, of "['' '']" "[[CHR 0x0A]]"] e by simp
qed

end
