(* ===== verification/Commands.thy ===== *)
theory Commands
  imports Keydist Ticket
begin

text \<open>
  \<^verbatim>\<open>src/daemon.rs\<close>, the membership side of a share task: the gossip messages, the
  application of received membership operations, and the commands the control
  interface sends into the task (invite, revoke, rotate the key, list the members).

  The fields a share loop owns on its stack are the record \<open>task\<close>; a handler returns
  it also when it fails, as the mutable borrows of the source do.  The oneshot channel of
  a command is its result.
\<close>

section \<open>Messages and state\<close>

datatype share_msg =
    Announce string "(string \<times> 16 word) list" "string option" "vector_clock option" "timestamp option"
  | AuthOps "byte list list"
  | KeyRotation signed_rotation

record 'c daemon_crates = "'c ticket_crates" +
  enc_msg :: "share_msg \<Rightarrow> byte list option"
  dec_msg :: "byte list \<Rightarrow> share_msg option"

record 'c task =
  ta_key :: keyring
  ta_auth :: "'c auth_state"
  ta_pending :: "signed_rotation list"
  ta_buffer :: "signed_rotation list"

section \<open>Membership operations over gossip\<close>

fun encode_ops ::
  "('c, 'z) daemon_crates_scheme \<Rightarrow> signed_op list \<Rightarrow> byte list list result" where
  "encode_ops C [] = Inr []"
| "encode_ops C (op # ops) = (case encode_op C op of
     Inl e \<Rightarrow> Inl e
   | Inr bs \<Rightarrow> (case encode_ops C ops of Inl e \<Rightarrow> Inl e | Inr bss \<Rightarrow> Inr (bs # bss)))"

definition auth_announce_bytes ::
  "('c, 'z) daemon_crates_scheme \<Rightarrow> 'c auth_state \<Rightarrow> byte list result" where
  "auth_announce_bytes C state = (case encode_ops C (as_ops state) of
     Inl e \<Rightarrow> Inl e
   | Inr ops \<Rightarrow> (case enc_msg C (AuthOps ops) of
       None \<Rightarrow> Inl (Bail ''encoding auth ops'' []) | Some bytes \<Rightarrow> Inr bytes))"

text \<open>The messages a tick publishes; a message that cannot be encoded is skipped.\<close>

definition publish_auth_ops :: "('c, 'z) daemon_crates_scheme \<Rightarrow> 'c auth_state \<Rightarrow> byte list list" where
  "publish_auth_ops C auth_state =
     (if auth_is_empty auth_state then []
      else case auth_announce_bytes C auth_state of Inl _ \<Rightarrow> [] | Inr bytes \<Rightarrow> [bytes])"

fun publish_pending_rotations ::
  "('c, 'z) daemon_crates_scheme \<Rightarrow> signed_rotation list \<Rightarrow> byte list list" where
  "publish_pending_rotations C [] = []"
| "publish_pending_rotations C (rot # pending) =
     (case enc_msg C (KeyRotation rot) of
        None \<Rightarrow> publish_pending_rotations C pending
      | Some bytes \<Rightarrow> bytes # publish_pending_rotations C pending)"

text \<open>\<open>serde_json::from_slice::<ShareMsg>\<close>, with the length check of a signature.\<close>

definition decode_msg :: "('c, 'z) daemon_crates_scheme \<Rightarrow> byte list \<Rightarrow> share_msg option" where
  "decode_msg C payload = (case dec_msg C payload of
     Some (KeyRotation rot) \<Rightarrow>
       map_option (\<lambda>s. KeyRotation (rot\<lparr>rot_signature := s\<rparr>)) (sig_deserialize (rot_signature rot))
   | m \<Rightarrow> m)"

fun apply_auth_ops_loop ::
  "('c, 'z) daemon_crates_scheme \<Rightarrow> byte list list \<Rightarrow> 'c auth_state \<Rightarrow> nat \<Rightarrow> nat \<times> 'c auth_state" where
  "apply_auth_ops_loop C [] state applied = (applied, state)"
| "apply_auth_ops_loop C (raw_op # payload) state applied =
     (case decode_op C raw_op of
        Inl e \<Rightarrow> apply_auth_ops_loop C payload state applied
      | Inr op \<Rightarrow> (case apply_remote C state op of
          (Inr True, state') \<Rightarrow> apply_auth_ops_loop C payload state' (applied + 1)
        | (Inr False, state') \<Rightarrow> apply_auth_ops_loop C payload state' applied
        | (Inl e, state') \<Rightarrow> apply_auth_ops_loop C payload state' applied))"

definition apply_auth_ops ::
  "('c, 'z) daemon_crates_scheme \<Rightarrow> byte list list \<Rightarrow> path \<Rightarrow> string \<Rightarrow> ('c auth_state, nat) task_io" where
  "apply_auth_ops C payload data_dir share_id state =
     (let (applied, state') = apply_auth_ops_loop C payload state 0 in
      if applied > 0 then
        t_bind (t_io (auth_save C data_dir share_id)) (\<lambda>_. t_return applied) state'
      else t_return applied state')"

section \<open>Commands\<close>

datatype share_command =
    Invite member_id auth_role share_role
  | Revoke member_id
  | RotateKey
  | Members
  | Shutdown

datatype command_reply =
    InviteReply "string result"
  | RevokeReply "u64 result"
  | RotateKeyReply "u64 result"
  | MembersReply "(member_id \<times> auth_role) list result"
  | ShutdownReply

definition on_auth :: "('c auth_state \<Rightarrow> 'a result \<times> 'c auth_state) \<Rightarrow> ('c task, 'a) task_io" where
  "on_auth f = t_state (\<lambda>s. case f (ta_auth s) of (r, st) \<Rightarrow> (r, s\<lparr>ta_auth := st\<rparr>))"

definition set_key :: "keyring \<Rightarrow> ('c task, unit) task_io" where
  "set_key ring = t_state (\<lambda>s. (Inr (), s\<lparr>ta_key := ring\<rparr>))"

definition handle_invite ::
  "('c, 'z) daemon_crates_scheme \<Rightarrow> share_config \<Rightarrow> path \<Rightarrow> byte list \<Rightarrow> member_id \<Rightarrow> auth_role \<Rightarrow>
   share_role \<Rightarrow> ('c task, string) task_io" where
  "handle_invite C config data_dir identity invitee role suggested_role s =
     (let group_id = group_id_for C (sc_id config) in
      if auth_is_empty (ta_auth s)
      then t_fail (Bail ''share has no auth state on disk; can only invite from the creator's machine'' []) s
      else if is_member C (ta_auth s) group_id invitee
      then t_fail (Bail ''already a member'' []) s
      else
        t_bind (on_auth (\<lambda>st. add_member C st identity group_id invitee role)) (\<lambda>_.
        t_bind (t_io (\<lambda>s. auth_save C data_dir (sc_id config) (ta_auth s))) (\<lambda>_.
        t_io (\<lambda>s. io_lift (ticket_encode C
          \<lparr>tk_version = TICKET_VERSION, tk_share_id = sc_id config, tk_topic = sc_topic config,
           tk_keys = export_keys (ta_key s), tk_auth_log = as_ops (ta_auth s),
           tk_invitee_pubkey = member_bytes invitee, tk_role = suggested_role\<rparr>)))) s)"

text \<open>The members that stay: what the group state lists, less the target, in key order.\<close>

definition remaining_members ::
  "('c, 'z) daemon_crates_scheme \<Rightarrow> 'c auth_state \<Rightarrow> member_id \<Rightarrow> member_id \<Rightarrow> member_id list" where
  "remaining_members C st group_id target =
     sort (filter (\<lambda>m. m \<noteq> target) (map fst (members C st group_id)))"

definition handle_revoke ::
  "('c, 'z) daemon_crates_scheme \<Rightarrow> share_config \<Rightarrow> path \<Rightarrow> byte list \<Rightarrow> member_id \<Rightarrow>
   ('c task, u64) task_io" where
  "handle_revoke C config data_dir identity target s =
     (let group_id = group_id_for C (sc_id config); share_id = sc_id config in
      if auth_is_empty (ta_auth s)
      then t_fail (Bail ''share has no auth state on disk'' []) s
      else if \<not> is_member C (ta_auth s) group_id target
      then t_fail (Bail ''not a current member'' []) s
      else
        t_bind (on_auth (\<lambda>st. remove_member C st identity group_id target)) (\<lambda>_.
        t_bind (t_io (\<lambda>s. auth_save C data_dir share_id (ta_auth s))) (\<lambda>_ s.
        let remaining = remaining_members C (ta_auth s) group_id target in
        t_bind (t_io (\<lambda>_. rotate_keyring data_dir share_id)) (\<lambda>new_epoch.
        t_bind (t_io (\<lambda>_. load_or_create_keyring data_dir share_id)) (\<lambda>ring.
        case key_for_epoch ring new_epoch of
          None \<Rightarrow> t_fail (Bail ''rotated keyring missing epoch'' [unat new_epoch])
        | Some new_key_bytes \<Rightarrow>
            t_bind (t_io (\<lambda>_. load_or_create_keyring data_dir share_id)) (\<lambda>fresh_ring.
            t_bind (set_key fresh_ring) (\<lambda>_.
            t_bind (t_io (\<lambda>_. build_signed_rotation C identity new_epoch new_key_bytes remaining)) (\<lambda>rotation_msg.
            t_bind (t_io (\<lambda>_. save_pending C data_dir share_id rotation_msg)) (\<lambda>_.
            t_bind (t_state (\<lambda>s. (Inr (), s\<lparr>ta_pending := ta_pending s @ [rotation_msg]\<rparr>))) (\<lambda>_.
            t_return new_epoch))))))) s)) s)"

definition handle_rotate_key ::
  "share_config \<Rightarrow> path \<Rightarrow> ('c task, u64) task_io" where
  "handle_rotate_key config data_dir =
     t_bind (t_io (\<lambda>_. rotate_keyring data_dir (sc_id config))) (\<lambda>new_epoch.
     t_bind (t_io (\<lambda>_. load_or_create_keyring data_dir (sc_id config))) (\<lambda>fresh_ring.
     t_bind (set_key fresh_ring) (\<lambda>_.
     t_return new_epoch)))"

text \<open>The reply of a command and whether the loop ends.\<close>

fun handle_share_command ::
  "('c, 'z) daemon_crates_scheme \<Rightarrow> share_command \<Rightarrow> share_config \<Rightarrow> path \<Rightarrow> byte list \<Rightarrow> 'c task \<Rightarrow> world \<Rightarrow>
   (command_reply \<times> bool \<times> 'c task) \<times> world" where
  "handle_share_command C (Invite invitee role suggested_role) config data_dir identity s w =
     (case handle_invite C config data_dir identity invitee role suggested_role s w of
        ((r, s'), w') \<Rightarrow> ((InviteReply r, False, s'), w'))"
| "handle_share_command C (Revoke target) config data_dir identity s w =
     (case handle_revoke C config data_dir identity target s w of
        ((r, s'), w') \<Rightarrow> ((RevokeReply r, False, s'), w'))"
| "handle_share_command C RotateKey config data_dir identity s w =
     (case handle_rotate_key config data_dir s w of
        ((r, s'), w') \<Rightarrow> ((RotateKeyReply r, False, s'), w'))"
| "handle_share_command C Members config data_dir identity s w =
     ((MembersReply (Inr (sort_key fst (members C (ta_auth s) (group_id_for C (sc_id config))))), False, s), w)"
| "handle_share_command C Shutdown config data_dir identity s w = ((ShutdownReply, True, s), w)"

section \<open>Frames\<close>

lemma t_set_key [simp]: "set_key ring s w = ((r, s'), w') \<longleftrightarrow> r = Inr () \<and> s' = s\<lparr>ta_key := ring\<rparr> \<and> w' = w"
  by (auto simp: set_key_def)

lemma on_auth_eq [simp]: "on_auth f s w = ((r, s'), w') \<longleftrightarrow>
   (\<exists>st. f (ta_auth s) = (r, st) \<and> s' = s\<lparr>ta_auth := st\<rparr>) \<and> w' = w"
  by (auto simp: on_auth_def split: prod.splits)

lemma seal_envelopes_files: "seal_envelopes C k rs w = (r, w') \<Longrightarrow> fs_file w' = fs_file w"
proof (induction rs arbitrary: r w)
  case (Cons x rs)
  have one: "fs_file w1 = fs_file w" if "seal_envelope C k x w = (r1, w1)" for r1 w1
    using that by (auto simp: seal_envelope_def io_bind_def fill_bytes_def ed25519_pub_to_box_pub_def
        split: option.splits)
  from Cons.prems have "io_bind (seal_envelope C k x) (\<lambda>e.
      io_bind (seal_envelopes C k rs) (\<lambda>es. io_return (e # es))) w = (r, w')" by simp
  then show ?case
  proof (cases rule: io_bind_cases)
    case (err e)
    with one show ?thesis by blast
  next
    case (ok e w1)
    from ok(2) have "fs_file w' = fs_file w1"
      by (cases rule: io_bind_cases) (auto dest: Cons.IH)
    with one [OF ok(1)] show ?thesis by simp
  qed
qed simp

lemma build_signed_rotation_files:
  "build_signed_rotation C sk e k rs w = (r, w') \<Longrightarrow> fs_file w' = fs_file w"
  by (auto simp: build_signed_rotation_def Let_def elim!: io_bind_cases dest: seal_envelopes_files)

lemma handle_revoke_ok:
  assumes "handle_revoke C config dd sk target s w = ((Inr e, s'), w')"
  defines "gid \<equiv> group_id_for C (sc_id config)" and "sid \<equiv> sc_id config"
  obtains op st1 w1 w2 ring w3 k fresh_ring w4 rot w5 where
    "remove_member C (ta_auth s) sk gid target = (Inr op, st1)" "auth_save C dd sid st1 w = (Inr (), w1)"
    "rotate_keyring dd sid w1 = (Inr e, w2)" "load_or_create_keyring dd sid w2 = (Inr ring, w3)"
    "key_for_epoch ring e = Some k" "load_or_create_keyring dd sid w3 = (Inr fresh_ring, w4)"
    "build_signed_rotation C sk e k (remaining_members C st1 gid target) w4 = (Inr rot, w5)"
    "save_pending C dd sid rot w5 = (Inr (), w')"
    "s' = s\<lparr>ta_auth := st1, ta_key := fresh_ring, ta_pending := ta_pending s @ [rot]\<rparr>"
  using assms
  by (auto simp: handle_revoke_def Let_def t_bind_eq_Inr split: if_splits option.splits)

text \<open>The files of one share other than the queued rotations are never a queued rotation.\<close>

lemma share_files_not_pending:
  "share_dir dd sid @ [f] \<notin> {pending_path dd sid rot, pending_tmp dd sid rot}"
  unfolding pending_tmp_eq by (simp add: pending_dir_def)

lemma keys_not_auth: "keys_path dd sid \<notin> {auth_log_path dd sid, auth_tmp dd sid}"
  unfolding auth_tmp_eq by (simp add: keys_path_def auth_log_path_def)

lemma auth_not_keys: "auth_log_path dd sid \<notin> {keys_path dd sid, keys_tmp dd sid}"
  unfolding keys_tmp_eq by (simp add: keys_path_def auth_log_path_def)

lemma auth_save_ok: "auth_save C dd sid st w = (Inr u, w') \<Longrightarrow>
    fs_file w' (auth_log_path dd sid) = enc_log C (as_ops st) \<and> disk_keys w' dd sid = disk_keys w dd sid"
  using auth_file.save_ok auth_save_unencodable(1) [of C st dd sid w "Inr u" w']
    auth_file.save_keeps [OF _ keys_not_auth, of C dd sid st w "Inr u" w']
  by (cases "enc_log C (as_ops st)") (fastforce simp: disk_keys_def)+

lemma rotate_then_load:
  assumes "disk_keys w dd sid = Some ks" and "length ks < 2 ^ 58"
    and "rotate_keyring dd sid w = (Inr e, w1)" and "load_or_create_keyring dd sid w1 = (Inr ring, w2)"
  obtains k where "length k = KEY_LEN" "kr_keys ring = ks @ [k]" "unat e = length ks + 1"
    "key_for_epoch ring e = Some k" "disk_keys w2 dd sid = Some (ks @ [k])" "fs_file w2 = fs_file w1"
proof -
  note r = rotate_keyring_ok [OF assms(1-3)]
  then obtain k where k: "length k = KEY_LEN" "disk_keys w1 dd sid = Some (ks @ [k])" by blast
  note l = load_stored [OF assms(4) k(2)]
  have "e \<noteq> 0" using r(1) by auto
  then have "key_for_epoch ring e = Some k" using l(1) r(1) by (simp add: key_for_epoch_nth nth_append)
  moreover have "disk_keys w2 dd sid = Some (ks @ [k])" using l(2) k(2) by (simp add: disk_keys_def)
  ultimately show thesis using that k(1) l r(1) by blast
qed

section \<open>Receiving a log\<close>

text \<open>\<open>serde_json\<close>: a message decodes to itself.\<close>

definition msg_codec_ok :: "('c, 'z) daemon_crates_scheme \<Rightarrow> bool" where
  "msg_codec_ok C \<longleftrightarrow> (\<forall>m bs. enc_msg C m = Some bs \<longrightarrow> dec_msg C bs = Some m)"

lemma encode_ops_decode:
  assumes "op_codec_ok C" and "encode_ops C ops = Inr raws"
    and "list_all (\<lambda>op. length (so_signature op) = SIGNATURE_LEN) ops"
  shows "map (decode_op C) raws = map Inr ops"
  using assms(2,3)
proof (induction ops arbitrary: raws)
  case (Cons op ops)
  then obtain bs bss where bs: "encode_op C op = Inr bs" and bss: "encode_ops C ops = Inr bss" and "raws = bs # bss"
    by (auto split: sum.splits)
  moreover have "decode_op C bs = Inr op"
    using bs assms(1) Cons.prems(2)
    by (auto simp: encode_op_def decode_op_def op_codec_ok_def check_signature_len_def sig_deserialize_def
        split: option.splits)
  ultimately show ?case using Cons by simp
qed simp

lemma apply_auth_ops_loop_replay:
  "map (decode_op C) raws = map Inr ops \<Longrightarrow> replay C st ops = Inr st' \<Longrightarrow>
   snd (apply_auth_ops_loop C raws st n) = st'"
proof (induction ops arbitrary: raws st n)
  case (Cons op ops)
  then obtain r rs where raws: "raws = r # rs" "decode_op C r = Inr op" "map (decode_op C) rs = map Inr ops"
    by (cases raws) auto
  from Cons.prems(2) obtain b st1 where a: "apply_remote C st op = (Inr b, st1)" and "replay C st1 ops = Inr st'"
    by (auto split: prod.splits sum.splits)
  with Cons.IH [OF raws(3)] have "snd (apply_auth_ops_loop C rs st1 m) = st'" for m by blast
  with raws a show ?case by (cases b) simp_all
qed simp

section \<open>Properties\<close>

subsection \<open>A concrete instance\<close>

text \<open>
  A share with one owner (key 9) and one writer (key 8), and codecs that accept the
  values of the examples.
\<close>

definition demo_group :: member_id where
  "demo_group = MemberId (as_bytes ''peerdup-group/s'')"

definition demo_group_op :: "op_id list \<Rightarrow> group_action \<Rightarrow> signed_op" where
  "demo_group_op ds act = (let p = \<lparr>cm_group_id = demo_group, cm_action = act\<rparr> in
     \<lparr>so_author = MemberId [9], so_deps = ds, so_payload = p,
      so_signature = demo_sign [9] (demo_canonical (MemberId [9], ds, p))\<rparr>)"

definition demo_invite :: signed_op where
  "demo_invite = demo_group_op [demo_id demo_create] (Add (Individual (MemberId [8])) Write)"

definition demo_invitation :: ticket where
  "demo_invitation = \<lparr>tk_version = 2, tk_share_id = ''s'', tk_topic = ''t'', tk_keys = [replicate 32 7],
     tk_auth_log = [demo_create, demo_invite], tk_invitee_pubkey = [8], tk_role = Sync\<rparr>"

definition demo_daemon :: "signed_op list daemon_crates" where
  "demo_daemon = ticket_crates.extend
     (demo_ticket_crates\<lparr>enc_log := (\<lambda>_. Some [0]), enc_rotation := (\<lambda>_. Some [0]),
        enc_ticket := (\<lambda>t. if t = demo_invitation then Some [3] else None),
        dec_ticket := (\<lambda>bs. if bs = [3] then Some demo_invitation else None)\<rparr>)
     \<lparr>enc_msg = (\<lambda>m. if m = AuthOps [[0]] then Some [4] else None),
      dec_msg = (\<lambda>bs. if bs = [4] then Some (AuthOps [[0]]) else None)\<rparr>"

definition demo_task :: "signed_op list \<Rightarrow> signed_op list task" where
  "demo_task ops = \<lparr>ta_key = \<lparr>kr_keys = [replicate 32 7]\<rparr>,
     ta_auth = \<lparr>as_crdt = ops, as_ops = ops, as_pending = []\<rparr>, ta_pending = [], ta_buffer = []\<rparr>"

lemmas demo_daemon_defs = demo_daemon_def ticket_crates.defs demo_ticket_crates_def share_crates.defs
  demo_share_crates_def box_crates.defs demo_box_def auth_crates.defs demo_auth_def

lemma demo_daemon_ed_ok: "ed_ok demo_daemon"
  by (auto simp: ed_ok_def demo_daemon_defs demo_sign_def SIGNATURE_LEN_def min_def)

lemma demo_daemon_codec_ok: "op_codec_ok demo_daemon"
  by (auto simp: op_codec_ok_def demo_daemon_defs split: if_splits)

lemma demo_daemon_box_ok: "box_ok demo_daemon"
  by (simp add: box_ok_def demo_daemon_defs)

lemma demo_daemon_aead_ok: "aead_ok demo_daemon"
proof -
  have "aead_seal demo_daemon = aead_seal demo_crypto" "aead_open demo_daemon = aead_open demo_crypto"
    by (simp_all add: demo_daemon_defs)
  with demo_aead_ok show ?thesis unfolding aead_ok_def by metis
qed

lemma demo_daemon_ticket_ok: "ticket_codec_ok demo_daemon"
  using demo_ticket_codec_ok by (simp add: ticket_codec_ok_def demo_daemon_defs)

subsection \<open>Theorems\<close>

text \<open>What a successful revocation does, with what a message of the rotation needs.\<close>

lemma revoke_result:
  assumes "ed_ok C" and "box_ok C" and "disk_keys w dd (sc_id config) = Some ks" and "length ks < 2 ^ 58"
    and "handle_revoke C config dd sk target s w = ((Inr e, s'), w')"
  defines "gid \<equiv> group_id_for C (sc_id config)"
  shows "\<exists>op rot k. length k = KEY_LEN \<and> length (rot_signature rot) = SIGNATURE_LEN \<and> as_ops (ta_auth s') = as_ops (ta_auth s) @ [op] \<and>
    cm_action (so_payload op) = Remove (Individual target) \<and>
    fs_file w' (auth_log_path dd (sc_id config)) = enc_log C (as_ops (ta_auth s')) \<and>
    unat e = length ks + 1 \<and> kr_keys (ta_key s') = ks @ [k] \<and>
    disk_keys w' dd (sc_id config) = Some (ks @ [k]) \<and>
    ta_pending s' = ta_pending s @ [rot] \<and> rot_epoch rot = e \<and>
    fs_file w' (pending_path dd (sc_id config) rot) = enc_rotation C rot \<and>
    (\<forall>st g me. (MemberId (pub_of C sk), Owner) \<in> set (members C st g) \<longrightarrow>
       verify_and_decrypt C rot st g me =
         (if MemberId (pub_of C me) \<in> fst ` set (members C (ta_auth s') gid) - {target}
          then OkForUs k else NotForUs))"
  using assms(5)
proof (rule handle_revoke_ok)
  let ?sid = "sc_id config" and ?gid = "group_id_for C (sc_id config)"
  fix op st1 w1 w2 ring w3 k fresh_ring w4 rot w5
  assume rm: "remove_member C (ta_auth s) sk ?gid target = (Inr op, st1)"
    and sv: "auth_save C dd ?sid st1 w = (Inr (), w1)"
    and ro: "rotate_keyring dd ?sid w1 = (Inr e, w2)" and l1: "load_or_create_keyring dd ?sid w2 = (Inr ring, w3)"
    and ke: "key_for_epoch ring e = Some k" and l2: "load_or_create_keyring dd ?sid w3 = (Inr fresh_ring, w4)"
    and bd: "build_signed_rotation C sk e k (remaining_members C st1 ?gid target) w4 = (Inr rot, w5)"
    and sp: "save_pending C dd ?sid rot w5 = (Inr (), w')"
    and s': "s' = s\<lparr>ta_auth := st1, ta_key := fresh_ring, ta_pending := ta_pending s @ [rot]\<rparr>"
  note a = author_ok [OF rm [unfolded remove_member_def]]
  note sv' = auth_save_ok [OF sv]
  obtain k' where k': "length k' = KEY_LEN" "kr_keys ring = ks @ [k']" "unat e = length ks + 1"
    "key_for_epoch ring e = Some k'" "disk_keys w3 dd ?sid = Some (ks @ [k'])" "fs_file w3 = fs_file w2"
    using rotate_then_load [OF _ assms(4) ro l1] sv' assms(3) by auto
  have k: "k' = k" using ke k'(4) by simp
  note l2' = load_stored [OF l2 k'(5)] and b = build_signed_rotation_files [OF bd]
  have f5: "fs_file w5 = fs_file w2" using b l2'(2) k'(6) by simp
  have keep: "fs_file w' (share_dir dd ?sid @ [f]) = fs_file w5 (share_dir dd ?sid @ [f])" for f
    using save_pending_effect(2) [OF sp share_files_not_pending] .
  have dk: "disk_keys w' dd ?sid = Some (ks @ [k])"
    using keep [of "''keys.bin''"] f5 k'(5,6) k by (simp add: disk_keys_def keys_path_def)
  have lg: "fs_file w' (auth_log_path dd ?sid) = enc_log C (as_ops st1)"
    using keep [of "''auth.log''"] f5 rotate_keyring_frame [OF ro auth_not_keys] sv'
    by (simp add: auth_log_path_def)
  have pd: "fs_file w' (pending_path dd ?sid rot) = enc_rotation C rot"
    using save_pending_effect(1) [OF sp] by auto
  have rs: "set (remaining_members C st1 ?gid target) = fst ` set (members C st1 ?gid) - {target}"
    by (auto simp: remaining_members_def)
  have vd: "verify_and_decrypt C rot st g me =
      (if MemberId (pub_of C me) \<in> fst ` set (members C st1 ?gid) - {target} then OkForUs k else NotForUs)"
    if "(MemberId (pub_of C sk), Owner) \<in> set (members C st g)" for st g me
    using rotation_opens [OF assms(1,2) _ bd that, of me] k k'(1) rs by simp
  have ep: "rot_epoch rot = e" using bd by (rule build_signed_rotation_ok)
  have ops: "as_ops st1 = as_ops (ta_auth s) @ [op]" using a(2) by (auto simp: process_ok)
  have act: "cm_action (so_payload op) = Remove (Individual target)" by (subst a(1)) simp
  have sig: "length (rot_signature rot) = SIGNATURE_LEN"
    using bd by (rule build_signed_rotation_ok) (use assms(1) in \<open>simp add: ed_ok_def\<close>)
  show ?thesis
    unfolding gid_def using ops act lg k'(1,3) l2'(1) dk ep sig pd vd k s'
    by (intro exI [of _ op] exI [of _ rot] exI [of _ k]) simp
qed

text \<open>
  C9. Revoking a member re-keys the share: a successful command records the removal in
  the stored log, appends one fresh key in memory and on disk, and queues -- in memory
  and on disk -- a rotation for the new epoch that every remaining member opens to the
  new key and the revoked one cannot open.
\<close>

theorem revoke_rekeys_share:
  assumes "ed_ok C" and "box_ok C" and "disk_keys w dd (sc_id config) = Some ks" and "length ks < 2 ^ 58"
    and "handle_revoke C config dd sk target s w = ((Inr e, s'), w')"
  defines "gid \<equiv> group_id_for C (sc_id config)"
  shows "\<exists>op rot k. as_ops (ta_auth s') = as_ops (ta_auth s) @ [op] \<and>
    cm_action (so_payload op) = Remove (Individual target) \<and>
    fs_file w' (auth_log_path dd (sc_id config)) = enc_log C (as_ops (ta_auth s')) \<and>
    unat e = length ks + 1 \<and> kr_keys (ta_key s') = ks @ [k] \<and>
    disk_keys w' dd (sc_id config) = Some (ks @ [k]) \<and>
    ta_pending s' = ta_pending s @ [rot] \<and> rot_epoch rot = e \<and>
    fs_file w' (pending_path dd (sc_id config) rot) = enc_rotation C rot \<and>
    (\<forall>st g me. (MemberId (pub_of C sk), Owner) \<in> set (members C st g) \<longrightarrow>
       verify_and_decrypt C rot st g me =
         (if MemberId (pub_of C me) \<in> fst ` set (members C (ta_auth s') gid) - {target}
          then OkForUs k else NotForUs))"
  using revoke_result [OF assms(1-5)] unfolding gid_def by blast

theorem revoke_rekeys_share_witness:
  "\<exists>e s' w' rot. handle_revoke demo_daemon demo_config [''d''] [9] (MemberId [8])
      (demo_task [demo_create, demo_invite]) demo_share = ((Inr e, s'), w') \<and> unat e = 2 \<and>
    ta_pending s' = [rot] \<and>
    verify_and_decrypt demo_daemon rot demo_owner_state (MemberId [1]) [8] = NotForUs"
proof -
  let ?r = "handle_revoke demo_daemon demo_config [''d''] [9] (MemberId [8])
      (demo_task [demo_create, demo_invite]) demo_share"
  have "is_ok (fst (fst ?r))" by code_simp
  then obtain e where r: "?r = ((Inr e, snd (fst ?r)), snd ?r)" by (metis is_ok_iff prod.collapse)
  have d: "disk_keys demo_share [''d''] (sc_id demo_config) = Some [replicate 32 7]"
    using demo_disk_keys by (simp add: demo_config_def)
  have o: "(MemberId (pub_of demo_daemon [9]), Owner) \<in> set (members demo_daemon demo_owner_state (MemberId [1]))"
    by code_simp
  have p: "pub_of demo_daemon [8] = [8]" by (simp add: demo_daemon_defs)
  from revoke_rekeys_share [OF demo_daemon_ed_ok demo_daemon_box_ok d _ r] o p
  obtain rot where "unat e = 2" "ta_pending (snd (fst ?r)) = ta_pending (demo_task [demo_create, demo_invite]) @ [rot]"
    "verify_and_decrypt demo_daemon rot demo_owner_state (MemberId [1]) [8] = NotForUs" by auto
  with r show ?thesis by (metis append_Nil demo_task_def task.select_convs(3))
qed

text \<open>
  The removal is stored before the key is rotated: when rotating fails, the command
  cannot be repeated, since the target is a member no more, and the old key stays current.
\<close>

lemma revoke_not_repeatable:
  "let w = demo_share\<lparr>w_fault := (\<lambda>n. if n = 6 then Some 0 else None)\<rparr>;
       r1 = handle_revoke demo_daemon demo_config [''d''] [9] (MemberId [8]) (demo_task [demo_create, demo_invite]) w;
       r2 = handle_revoke demo_daemon demo_config [''d''] [9] (MemberId [8]) (snd (fst r1)) (snd r1)
   in fst (fst r1) = Inl IoError \<and> fst (fst r2) = Inl (Bail ''not a current member'' []) \<and>
      disk_keys (snd r2) [''d''] ''s'' = Some [replicate 32 7] \<and> ta_pending (snd (fst r2)) = []"
  by code_simp

text \<open>
  Rotating the key on command re-keys the share for this peer alone: the new key is
  current in memory and on disk, no rotation message is queued, and a member who still
  has the ring of before cannot decrypt what is encrypted from then on.
\<close>

theorem rotate_key_not_distributed:
  assumes "disk_keys w dd (sc_id config) = Some ks" and "length ks < 2 ^ 58"
    and "handle_rotate_key config dd s w = ((Inr e, s'), w')"
    and "encrypt C (ta_key s') pt v = (Inr blob, v')" and "aead_ok C"
  shows "unat e = length ks + 1 \<and>
    (\<exists>k. kr_keys (ta_key s') = ks @ [k] \<and> disk_keys w' dd (sc_id config) = Some (ks @ [k])) \<and>
    ta_pending s' = ta_pending s \<and> ta_auth s' = ta_auth s \<and>
    decrypt C \<lparr>kr_keys = ks\<rparr> blob = Inl (Bail ''no key for epoch'' [length ks + 1, length ks])"
proof -
  let ?sid = "sc_id config"
  from assms(3) obtain w1 ring where ro: "rotate_keyring dd ?sid w = (Inr e, w1)"
    and ld: "load_or_create_keyring dd ?sid w1 = (Inr ring, w')" and s': "s' = s\<lparr>ta_key := ring\<rparr>"
    by (auto simp: handle_rotate_key_def t_bind_eq_Inr)
  obtain k where k: "length k = KEY_LEN" "kr_keys ring = ks @ [k]" "unat e = length ks + 1"
    "disk_keys w' dd ?sid = Some (ks @ [k])"
    using rotate_then_load [OF assms(1,2) ro ld] by metis
  have "keys_ok (ks @ [k])" using k(1) disk_keys_ok [OF assms(1)] by (simp add: keys_ok_def)
  then have "decrypt C \<lparr>kr_keys = ks\<rparr> blob = Inl (Bail ''no key for epoch'' [length ks + 1, length ks])"
    using sealed_locked [OF assms(5) _ _ assms(4), of ks] assms(2) k(2) s' by simp
  with k s' show ?thesis by auto
qed

theorem rotate_key_not_distributed_witness:
  "\<exists>e s' w'. handle_rotate_key demo_config [''d''] (demo_task [demo_create]) demo_share = ((Inr e, s'), w') \<and>
     unat e = 2 \<and> ta_pending s' = []"
proof -
  let ?r = "handle_rotate_key demo_config [''d''] (demo_task [demo_create]) demo_share"
  have "is_ok (fst (fst ?r))" by code_simp
  then obtain e where r: "?r = ((Inr e, snd (fst ?r)), snd ?r)" by (metis is_ok_iff prod.collapse)
  let ?x = "encrypt demo_daemon (ta_key (snd (fst ?r))) [1] demo_share"
  have "is_ok (fst ?x)" by code_simp
  then obtain blob where x: "?x = (Inr blob, snd ?x)" by (metis is_ok_iff prod.collapse)
  have d: "disk_keys demo_share [''d''] (sc_id demo_config) = Some [replicate 32 7]"
    using demo_disk_keys by (simp add: demo_config_def)
  from rotate_key_not_distributed [OF d _ r x demo_daemon_aead_ok]
  have "unat e = 2 \<and> ta_pending (snd (fst ?r)) = ta_pending (demo_task [demo_create])" by simp
  moreover have "ta_pending (demo_task [demo_create]) = []" by (simp add: demo_task_def)
  ultimately show ?thesis using r by metis
qed

text \<open>
  An invitation admits the invitee: the ticket decodes to the share's keys and to the
  log with the new member in it, that log is the one stored, and replaying it gives the
  joining peer the group state of the inviter.
\<close>

lemma invite_ticket_admits:
  assumes "ed_ok C" and "ticket_codec_ok C"
    and "handle_invite C config dd sk invitee role srole s w = ((Inr text, s'), w')"
    and "kr_keys (ta_key s) \<noteq> []" and "list_all (\<lambda>op. length (so_signature op) = SIGNATURE_LEN) (as_ops (ta_auth s))"
    and "log_core C (ta_auth s)" and "set (crdt_heads C (as_crdt (ta_auth s))) \<subseteq> known C (ta_auth s)"
    and "compute_id C (last (as_ops (ta_auth s'))) \<notin>
      compute_id C ` (set (as_ops (ta_auth s)) \<union> set (as_pending (ta_auth s)))"
  shows "\<exists>t op. ticket_decode C text = Inr t \<and> tk_share_id t = sc_id config \<and> tk_topic t = sc_topic config \<and>
    tk_role t = srole \<and> tk_keys t = kr_keys (ta_key s) \<and>
    tk_invitee_pubkey t = member_bytes invitee \<and> tk_auth_log t = as_ops (ta_auth s) @ [op] \<and>
    tk_auth_log t = as_ops (ta_auth s') \<and> list_all (\<lambda>op. length (so_signature op) = SIGNATURE_LEN) (tk_auth_log t) \<and>
    cm_action (so_payload op) = Add (Individual invitee) (to_access role) \<and>
    fs_file w' (auth_log_path dd (sc_id config)) = enc_log C (tk_auth_log t) \<and>
    replay C (auth_empty C) (tk_auth_log t) = Inr (ta_auth s'\<lparr>as_pending := []\<rparr>)"
proof -
  let ?gid = "group_id_for C (sc_id config)"
  let ?t = "\<lambda>s. \<lparr>tk_version = TICKET_VERSION, tk_share_id = sc_id config, tk_topic = sc_topic config,
    tk_keys = export_keys (ta_key s), tk_auth_log = as_ops (ta_auth s),
    tk_invitee_pubkey = member_bytes invitee, tk_role = srole\<rparr>"
  from assms(3) obtain op st1 where
    ad: "author C (ta_auth s) sk ?gid (Add (Individual invitee) (to_access role)) = (Inr op, st1)"
    and s': "s' = s\<lparr>ta_auth := st1\<rparr>" and sv: "auth_save C dd (sc_id config) st1 w = (Inr (), w')"
    and te: "ticket_encode C (?t s') = Inr text"
    by (auto simp: handle_invite_def Let_def t_bind_eq_Inr add_member_def split: if_splits)
  note a = author_ok [OF ad]
  have ops: "as_ops st1 = as_ops (ta_auth s) @ [op]" using a(2) by (auto simp: process_ok)
  have core: "log_core C st1"
    using author_core [OF assms(1,6) ad assms(7)] assms(8) ops s' by simp
  have "length (so_signature op) = SIGNATURE_LEN" using assms(1) by (subst a(1)) (simp add: ed_ok_def)
  then have sg: "list_all (\<lambda>op. length (so_signature op) = SIGNATURE_LEN) (tk_auth_log (?t s'))"
    using assms(5) ops s' by simp
  from ticket_decode_encoded [OF assms(2) te sg, of "[]" "[]"]
  have td: "ticket_decode C text = Inr (?t s')"
    using assms(4) s' ops by (simp add: export_keys_def)
  have "cm_action (so_payload op) = Add (Individual invitee) (to_access role)" by (subst a(1)) simp
  with td sg show ?thesis
    using s' ops auth_save_ok [OF sv] replay_log [OF core] by (auto simp: export_keys_def)
qed



end
