(* ===== verification/Content.thy ===== *)
theory Content
  imports Share
begin

text \<open>
  \<^verbatim>\<open>src/daemon.rs\<close>, the part that looks at the files of a share: the walk over the tree
  (\<open>collect_files\<close>), the snapshot of the content with its version hash
  (\<open>snapshot_content\<close>), and the filters in front of the file system watcher.

  \<open>collect_files\<close> recurses over the directory tree; the first argument bounds the depth
  and \<open>tree_fuel\<close> -- more than the length of every path of the tree -- is always enough
  (\<open>collect_fuel\<close>).  \<open>share_files\<close> is the content a walk sees, as a map from relative
  paths; \<open>version_of\<close> is the version hash as a function of that map alone.

  A name is a list of bytes that is valid UTF-8, so \<open>to_string_lossy\<close> loses nothing.
\<close>

section \<open>Walking the tree\<close>

definition PEERDUP_DIR_NAME :: string where "PEERDUP_DIR_NAME = ''.peerdup''"

definition OUT_OF_FUEL :: err where "OUT_OF_FUEL = Bail ''out of fuel'' []"

fun collect_files :: "nat \<Rightarrow> path \<Rightarrow> path \<Rightarrow> path list io"
  and collect_entries :: "nat \<Rightarrow> path \<Rightarrow> path \<Rightarrow> string list \<Rightarrow> path list io" where
  "collect_files 0 root dir = io_fail OUT_OF_FUEL"
| "collect_files (Suc fuel) root dir =
     io_bind (fs_read_dir dir) (\<lambda>names. collect_entries fuel root dir names)"
| "collect_entries fuel root dir [] = io_return []"
| "collect_entries fuel root dir (name # names) =
     (if name = PEERDUP_DIR_NAME then collect_entries fuel root dir names
      else
        io_bind (fs_file_type (dir @ [name])) (\<lambda>ft.
        io_bind (case ft of
            FtDir \<Rightarrow> collect_files fuel root (dir @ [name])
          | FtFile \<Rightarrow> io_return [drop (length root) (dir @ [name])]
          | FtOther \<Rightarrow> io_return []) (\<lambda>here.
        io_bind (collect_entries fuel root dir names) (\<lambda>rest.
        io_return (here @ rest)))))"

definition tree_fuel :: "world \<Rightarrow> nat" where
  "tree_fuel w = Suc (Suc (fold max (map (\<lambda>(p, _). length p) (w_nodes w)) 0))"

definition collect :: "path \<Rightarrow> path list io" where
  "collect root w = collect_files (tree_fuel w) root root w"

section \<open>Version hash\<close>

text \<open>\<open>Path::to_string_lossy\<close> of a relative path\<close>

fun path_string :: "path \<Rightarrow> string" where
  "path_string [] = ''''"
| "path_string [x] = x"
| "path_string (x # xs) = x @ ''/'' @ path_string xs"

definition snapshot_entry :: "('z) crypto_crates_scheme \<Rightarrow> path \<Rightarrow> byte list \<Rightarrow> byte list" where
  "snapshot_entry C rel content =
     to_le_bytes (of_nat (length (path_string rel))) @ as_bytes (path_string rel) @ blake3 C content"

fun snapshot_loop ::
  "('z) crypto_crates_scheme \<Rightarrow> path \<Rightarrow> path list \<Rightarrow> byte list \<Rightarrow> path list \<Rightarrow> (byte list \<times> path list) io" where
  "snapshot_loop C root [] hashed manifest = io_return (hashed, manifest)"
| "snapshot_loop C root (rel # paths) hashed manifest =
     io_bind (fs_read (root @ rel)) (\<lambda>content.
     snapshot_loop C root paths (hashed @ snapshot_entry C rel content) (bset_insert rel manifest))"

definition snapshot_content :: "('z) crypto_crates_scheme \<Rightarrow> path \<Rightarrow> (string \<times> path list) io" where
  "snapshot_content C root =
     io_bind (collect root) (\<lambda>paths.
     io_bind (snapshot_loop C root (sort paths) [] []) (\<lambda>(hashed, manifest).
     io_return (bytes_hex (blake3 C hashed), manifest)))"

definition has_content :: "path \<Rightarrow> bool io" where
  "has_content root = io_bind (fs_read_dir root) (\<lambda>entries. io_return (entries \<noteq> []))"

section \<open>The watcher\<close>

text \<open>Whether an event is passed on: not when all its paths lie in the state directory.\<close>

definition watch_event_sent :: "path list \<Rightarrow> bool" where
  "watch_event_sent paths \<longleftrightarrow>
     \<not> (paths \<noteq> [] \<and> list_all (\<lambda>p. PEERDUP_DIR_NAME \<in> set p) paths)"

text \<open>
  \<open>debounce\<close> over the events that arrive until the channel is closed, each given by the
  time since the previous one; the events it leaves are for the next call.
\<close>

fun debounce_loop :: "nat \<Rightarrow> nat list \<Rightarrow> nat list" where
  "debounce_loop settle [] = []"
| "debounce_loop settle (gap # gaps) =
     (if gap < settle then debounce_loop settle gaps else gap # gaps)"

definition debounce :: "nat \<Rightarrow> nat list \<Rightarrow> unit option \<times> nat list" where
  "debounce settle gaps =
     (case gaps of [] \<Rightarrow> (None, []) | _ # rest \<Rightarrow> (Some (), debounce_loop settle rest))"


section \<open>What the walk reports\<close>

text \<open>Calls that leave the tree alone.\<close>

definition keeps_nodes :: "'a io \<Rightarrow> bool" where
  "keeps_nodes m \<longleftrightarrow> (\<forall>w. w_nodes (snd (m w)) = w_nodes w)"

lemma keeps_nodes_bind [intro]:
  "keeps_nodes m \<Longrightarrow> (\<And>x. keeps_nodes (f x)) \<Longrightarrow> keeps_nodes (io_bind m f)"
  unfolding keeps_nodes_def io_bind_def
  by (metis (mono_tags, lifting) case_prod_beta' old.sum.simps(5,6) snd_conv sum.exhaust)

lemma keeps_nodes_calls [intro, simp]:
  "keeps_nodes (io_return x)" "keeps_nodes (io_fail e)" "keeps_nodes (io_lift r)" "keeps_nodes (fs_read p)"
  "keeps_nodes (fs_read_dir p)" "keeps_nodes (fs_file_type p)" "keeps_nodes (fill_bytes n)" "keeps_nodes utc_now"
  by (auto simp: keeps_nodes_def fs_read_def fs_read_dir_def fs_file_type_def syscall_def fill_bytes_def
      utc_now_def split: option.splits node.splits)

lemma keeps_nodesD: "keeps_nodes m \<Longrightarrow> m w = (r, w') \<Longrightarrow> w_nodes w' = w_nodes w"
  by (metis keeps_nodes_def snd_conv)

text \<open>The user's files of a share: regular files outside the state directory, by relative path.\<close>

definition share_files :: "world \<Rightarrow> path \<Rightarrow> path \<Rightarrow> byte list option" where
  "share_files w root rel =
     (if rel = [] \<or> PEERDUP_DIR_NAME \<in> set rel then None else fs_file w (root @ rel))"

lemma nodes_cong:
  assumes "w_nodes v = w_nodes w"
  shows "fs_at v = fs_at w" "fs_file v = fs_file w" "fs_wf v = fs_wf w" "dir_entries v = dir_entries w"
    "share_files v = share_files w"
proof -
  show at: "fs_at v = fs_at w" using assms by (simp add: fs_at_def fun_eq_iff)
  then show "fs_file v = fs_file w" by (simp add: fs_file_def fun_eq_iff)
  with at show "fs_wf v = fs_wf w" "share_files v = share_files w"
    by (simp_all add: fs_wf_def fs_is_dir_def share_files_def fun_eq_iff)
  show "dir_entries v = dir_entries w" using assms by (simp add: dir_entries_def fun_eq_iff)
qed

lemma collect_keeps_nodes [intro, simp]:
  "keeps_nodes (collect_files fuel root dir)" "keeps_nodes (collect_entries fuel root dir names)"
  by (induction fuel root dir and fuel root dir names rule: collect_files_collect_entries.induct)
    (auto simp del: io_return_eq io_fail_eq intro!: keeps_nodes_bind split: file_type.split)

lemma collect_keeps_faults [intro, simp]:
  "keeps_faults (collect_files fuel root dir)" "keeps_faults (collect_entries fuel root dir names)"
  by (induction fuel root dir and fuel root dir names rule: collect_files_collect_entries.induct)
    (auto simp del: io_return_eq io_fail_eq intro!: keeps_faults_bind split: file_type.split)

text \<open>Every node has one entry, as in a real directory tree.\<close>

definition nodes_ok :: "world \<Rightarrow> bool" where
  "nodes_ok w \<longleftrightarrow> distinct (map fst (w_nodes w))"

lemma dir_entries_distinct: "nodes_ok w \<Longrightarrow> distinct (dir_entries w d)"
proof -
  have eq: "dir_entries w d = map last (filter (\<lambda>q. q \<noteq> [] \<and> butlast q = d) (map fst (w_nodes w)))"
  proof -
    have "concat (map (\<lambda>(q, n). if q \<noteq> [] \<and> butlast q = d then [last q] else []) xs) =
        map last (filter (\<lambda>q. q \<noteq> [] \<and> butlast q = d) (map fst xs))" for xs :: "(path \<times> node) list"
      by (induction xs) auto
    then show ?thesis by (simp add: dir_entries_def)
  qed
  assume "nodes_ok w"
  then show ?thesis unfolding eq nodes_ok_def
    by (auto simp: distinct_map inj_on_def) (metis append_butlast_last_id)
qed

lemma fs_wf_above:
  assumes "fs_wf w" and "fs_at w (p @ q) \<noteq> None" and "q \<noteq> []"
  shows "fs_is_dir w p"
proof -
  have "fs_is_dir w (butlast (p @ q))" using assms(1,2) by (auto simp: fs_wf_def)
  then have "fs_is_dir w (p @ butlast q)" using assms(3) by (simp add: butlast_append)
  with assms(1) show ?thesis by (rule fs_wf_ancestors)
qed

lemma share_files_Cons:
  "name \<noteq> PEERDUP_DIR_NAME \<Longrightarrow> rel \<noteq> [] \<Longrightarrow> share_files w dir (name # rel) = share_files w (dir @ [name]) rel"
  by (auto simp: share_files_def)

lemma share_files_head:
  assumes "fs_wf w" and "share_files w dir rel \<noteq> None"
  obtains name rest where "rel = name # rest" "name \<noteq> PEERDUP_DIR_NAME" "name \<in> set (dir_entries w dir)"
    "rest \<noteq> [] \<longrightarrow> fs_at w (dir @ [name]) = Some NDir"
    "rest = [] \<longrightarrow> fs_file w (dir @ [name]) \<noteq> None"
proof -
  from assms(2) obtain name rest where r: "rel = name # rest" "name \<noteq> PEERDUP_DIR_NAME"
    and f: "fs_file w (dir @ name # rest) \<noteq> None"
    by (cases rel) (auto simp: share_files_def split: if_splits)
  from f have at: "fs_at w ((dir @ [name]) @ rest) \<noteq> None" by (auto simp: fs_file_def split: option.splits)
  have d: "fs_at w (dir @ [name]) = Some NDir" if "rest \<noteq> []"
    using fs_wf_above [OF assms(1) at that] by (simp add: fs_is_dir_def)
  with at have "name \<in> set (dir_entries w dir)" by (cases "rest = []") (auto simp: dir_entries_iff)
  with that r d f show thesis by auto
qed

text \<open>The files whose path starts with a given entry of the directory, by the kind of the entry.\<close>

definition files_under :: "world \<Rightarrow> path \<Rightarrow> string set \<Rightarrow> path set" where
  "files_under w dir names = {rel. share_files w dir rel \<noteq> None \<and> hd rel \<in> names}"

lemma files_under_insert: "files_under w dir (insert n ns) = files_under w dir {n} \<union> files_under w dir ns"
  by (auto simp: files_under_def)

lemma files_under_none [simp]: "files_under w dir {} = {}"
  by (simp add: files_under_def)

lemma files_under_disjoint: "rel \<in> files_under w dir ms \<Longrightarrow> rel \<in> files_under w dir ns \<Longrightarrow> ms \<inter> ns = {} \<Longrightarrow> False"
  by (auto simp: files_under_def)

lemma files_under_state_dir: "files_under w dir {PEERDUP_DIR_NAME} = {}"
  by (auto simp: files_under_def share_files_def split: if_splits dest: hd_in_set)

lemma files_under_all: "fs_wf w \<Longrightarrow> files_under w dir (set (dir_entries w dir)) = dom (share_files w dir)"
  by (auto simp: files_under_def dom_def) (metis list.sel(1) option.distinct(1) share_files_head)

lemma files_under_dir:
  assumes "fs_wf w" "name \<noteq> PEERDUP_DIR_NAME" "fs_at w (dir @ [name]) = Some NDir"
  shows "files_under w dir {name} = (#) name ` dom (share_files w (dir @ [name]))"
proof (intro set_eqI iffI)
  fix rel assume "rel \<in> files_under w dir {name}"
  then have rel: "share_files w dir rel \<noteq> None" "hd rel = name" by (auto simp: files_under_def)
  from assms(1) rel(1) obtain n r where nr: "rel = n # r" "r = [] \<longrightarrow> fs_file w (dir @ [n]) \<noteq> None"
    by (blast elim: share_files_head)
  with rel(2) assms(3) have "r \<noteq> []" by (auto simp: fs_file_def)
  with nr(1) rel share_files_Cons [OF assms(2), of r w dir]
  show "rel \<in> (#) name ` dom (share_files w (dir @ [name]))" by auto
next
  fix rel assume "rel \<in> (#) name ` dom (share_files w (dir @ [name]))"
  then obtain r where r: "rel = name # r" "share_files w (dir @ [name]) r \<noteq> None" by auto
  then have "r \<noteq> []" by (auto simp: share_files_def)
  with r share_files_Cons [OF assms(2) this, of w dir] show "rel \<in> files_under w dir {name}"
    by (simp add: files_under_def)
qed

lemma files_under_leaf:
  assumes "fs_wf w" "name \<noteq> PEERDUP_DIR_NAME" "fs_at w (dir @ [name]) \<noteq> Some NDir"
  shows "files_under w dir {name} = (if fs_file w (dir @ [name]) \<noteq> None then {[name]} else {})"
proof -
  have "rel = [name] \<and> fs_file w (dir @ [name]) \<noteq> None" if "rel \<in> files_under w dir {name}" for rel
  proof -
    from that have rel: "share_files w dir rel \<noteq> None" "hd rel = name" by (auto simp: files_under_def)
    from assms(1) rel(1) obtain n r where "rel = n # r" "r \<noteq> [] \<longrightarrow> fs_at w (dir @ [n]) = Some NDir"
        "r = [] \<longrightarrow> fs_file w (dir @ [n]) \<noteq> None"
      by (rule share_files_head) simp
    with rel(2) assms(3) show ?thesis by auto
  qed
  moreover have "[name] \<in> files_under w dir {name}" if "fs_file w (dir @ [name]) \<noteq> None"
    using that assms(2) by (simp add: files_under_def share_files_def)
  ultimately show ?thesis by auto
qed

text \<open>What one entry of a directory contributes.\<close>

lemma collect_entry_exact:
  assumes "fs_wf w" and "name \<noteq> PEERDUP_DIR_NAME" and "dir = root @ sub"
    and ft: "fs_file_type (dir @ [name]) w = (Inr ft, w1)" and n1: "w_nodes w1 = w_nodes w"
    and here: "(case ft of FtDir \<Rightarrow> collect_files fuel root (dir @ [name])
        | FtFile \<Rightarrow> io_return [drop (length root) (dir @ [name])] | FtOther \<Rightarrow> io_return []) w1 = (Inr here, w2)"
    and below: "ft = FtDir \<Longrightarrow> distinct here \<and> set here = (@) (sub @ [name]) ` dom (share_files w1 (dir @ [name]))"
  shows "distinct here \<and> set here = (@) sub ` files_under w dir {name}"
proof (cases ft)
  case FtDir
  with fs_file_type_ok [OF ft] have "fs_at w (dir @ [name]) = Some NDir" by simp
  with below [OF FtDir] show ?thesis
    by (simp add: files_under_dir [OF assms(1,2)] image_image nodes_cong(5) [OF n1])
next
  case FtFile
  with fs_file_type_ok [OF ft] have "fs_file w (dir @ [name]) \<noteq> None" "fs_at w (dir @ [name]) \<noteq> Some NDir"
    by auto
  with here FtFile assms(3) show ?thesis by (auto simp: files_under_leaf [OF assms(1,2)])
next
  case FtOther
  with fs_file_type_ok [OF ft] have "fs_file w (dir @ [name]) = None" "fs_at w (dir @ [name]) \<noteq> Some NDir"
    by auto
  with here FtOther show ?thesis by (simp add: files_under_leaf [OF assms(1,2)])
qed

lemma collect_exact:
  "collect_files fuel root dir w = (Inr ps, w') \<Longrightarrow> fs_wf w \<Longrightarrow> nodes_ok w \<Longrightarrow> dir = root @ sub \<Longrightarrow>
     distinct ps \<and> set ps = (@) sub ` dom (share_files w dir)"
  "collect_entries fuel root dir names w = (Inr ps, w') \<Longrightarrow> fs_wf w \<Longrightarrow> nodes_ok w \<Longrightarrow> dir = root @ sub \<Longrightarrow>
     distinct names \<Longrightarrow> distinct ps \<and> set ps = (@) sub ` files_under w dir (set names)"
proof (induction fuel root dir and fuel root dir names arbitrary: w ps w' sub and w ps w' sub
    rule: collect_files_collect_entries.induct)
  case (2 fuel root dir)
  from "2.prems"(1) obtain names w1 where rd: "fs_read_dir dir w = (Inr names, w1)"
    and es: "collect_entries fuel root dir names w1 = (Inr ps, w')"
    by (auto simp: io_bind_eq_Inr)
  have n: "w_nodes w1 = w_nodes w" using rd by (rule keeps_nodesD [rotated]) simp
  have "fs_wf w1" "nodes_ok w1" using "2.prems"(2,3) n by (simp_all add: nodes_cong(3) [OF n] nodes_ok_def)
  moreover have "names = dir_entries w1 dir" using fs_read_dir_ok [OF rd] nodes_cong(4) [OF n] by simp
  ultimately show ?case
    using "2.IH" [OF es _ _ "2.prems"(4)] files_under_all [of w1 dir] dir_entries_distinct [of w1 dir]
    by (simp add: nodes_cong(5) [OF n])
next
  case (4 fuel root dir name names)
  show ?case
  proof (cases "name = PEERDUP_DIR_NAME")
    case True
    with 4 show ?thesis using files_under_insert [of w dir name "set names"]
      by (simp add: files_under_state_dir)
  next
    case False
    let ?here = "\<lambda>ft. case ft of FtDir \<Rightarrow> collect_files fuel root (dir @ [name])
          | FtFile \<Rightarrow> io_return [drop (length root) (dir @ [name])] | FtOther \<Rightarrow> io_return []"
    from "4.prems"(1) False obtain ft w1 here w2 rest where ft: "fs_file_type (dir @ [name]) w = (Inr ft, w1)"
      and here: "?here ft w1 = (Inr here, w2)"
      and rest: "collect_entries fuel root dir names w2 = (Inr rest, w')" and ps: "ps = here @ rest"
      by (auto simp: io_bind_eq_Inr)
    have n1: "w_nodes w1 = w_nodes w" using ft by (rule keeps_nodesD [rotated]) simp
    have "keeps_nodes (?here ft)" by (auto split: file_type.split simp del: io_return_eq)
    from keeps_nodesD [OF this here] n1 have n2: "w_nodes w2 = w_nodes w" by simp
    note ok = "4.prems"(2,3)
    have ok1: "fs_wf w1" "nodes_ok w1" and ok2: "fs_wf w2" "nodes_ok w2"
      using ok by (simp_all add: nodes_cong(3) [OF n1] nodes_cong(3) [OF n2] nodes_ok_def n1 n2)
    have R: "distinct rest \<and> set rest = (@) sub ` files_under w dir (set names)"
      using "4.IH"(3) [OF False rest ok2 "4.prems"(4)] "4.prems"(5)
      by (simp add: files_under_def nodes_cong(5) [OF n2])
    have H: "distinct here \<and> set here = (@) sub ` files_under w dir {name}"
      using ok(1) False "4.prems"(4) ft n1 here
    proof (rule collect_entry_exact)
      assume "ft = FtDir"
      with "4.IH"(2) [OF False this, where w = w1 and sub = "sub @ [name]"] here ok1 "4.prems"(4)
      show "distinct here \<and> set here = (@) (sub @ [name]) ` dom (share_files w1 (dir @ [name]))" by simp
    qed
    have "set here \<inter> set rest = {}"
      using H R "4.prems"(5) files_under_disjoint [of _ w dir "{name}" "set names"] by auto
    moreover have "files_under w dir (set (name # names)) = files_under w dir {name} \<union> files_under w dir (set names)"
      unfolding list.set by (rule files_under_insert)
    ultimately show ?thesis
      using H R unfolding ps by (simp only: distinct_append set_append image_Un)
  qed
qed (auto simp: files_under_def)

text \<open>The fuel: no path of the tree is longer than the bound.\<close>

definition tree_depth :: "world \<Rightarrow> nat" where
  "tree_depth w = fold max (map (\<lambda>(p, _). length p) (w_nodes w)) 0"

lemma fold_max_ge: "a \<le> fold max xs a \<and> (x \<in> set xs \<longrightarrow> x \<le> fold max xs a)" for a x :: nat
proof (induction xs arbitrary: a)
  case (Cons y ys)
  from Cons [of "max y a"] show ?case by auto
qed simp

lemma tree_depth_bound: "fs_at w p \<noteq> None \<Longrightarrow> length p \<le> tree_depth w"
proof -
  assume "fs_at w p \<noteq> None"
  then obtain n where "(p, n) \<in> set (w_nodes w)" by (auto simp: fs_at_def dest: map_of_SomeD)
  then have "length p \<in> set (map (\<lambda>(p, _). length p) (w_nodes w))" by force
  then show ?thesis unfolding tree_depth_def using fold_max_ge by blast
qed

lemma tree_depth_cong: "w_nodes v = w_nodes w \<Longrightarrow> tree_depth v = tree_depth w"
  by (simp add: tree_depth_def)

lemma fs_file_type_err: "fs_file_type p w = (Inl e, w') \<Longrightarrow> e = IoError"
  by (auto simp: fs_file_type_def syscall_def split: if_splits option.splits node.splits)

lemma fs_read_dir_err: "fs_read_dir p w = (Inl e, w') \<Longrightarrow> e = IoError"
  by (auto simp: fs_read_dir_def syscall_def split: if_splits)

lemma collect_fuel:
  "collect_files fuel root dir w = (Inl e, w') \<Longrightarrow> tree_depth w < fuel + length dir \<Longrightarrow> 0 < fuel \<Longrightarrow> e = IoError"
  "collect_entries fuel root dir names w = (Inl e, w') \<Longrightarrow> tree_depth w \<le> fuel + length dir \<Longrightarrow> e = IoError"
proof (induction fuel root dir and fuel root dir names arbitrary: w e w' and w e w'
    rule: collect_files_collect_entries.induct)
  case (2 fuel root dir)
  from "2.prems"(1) have "io_bind (fs_read_dir dir) (collect_entries fuel root dir) w = (Inl e, w')" by simp
  then show ?case
  proof (cases rule: io_bind_cases)
    case (ok names w1)
    have "w_nodes w1 = w_nodes w" using ok(1) by (rule keeps_nodesD [rotated]) simp
    from tree_depth_cong [OF this] "2.IH" [OF ok(2)] "2.prems"(2) show ?thesis by simp
  qed (use fs_read_dir_err in auto)
next
  case (4 fuel root dir name names)
  let ?here = "\<lambda>ft. case ft of FtDir \<Rightarrow> collect_files fuel root (dir @ [name])
        | FtFile \<Rightarrow> io_return [drop (length root) (dir @ [name])] | FtOther \<Rightarrow> io_return []"
  let ?rest = "\<lambda>here. io_bind (collect_entries fuel root dir names) (\<lambda>rest. io_return (here @ rest))"
  have kn: "keeps_nodes (?here ft)" for ft by (auto split: file_type.split simp del: io_return_eq)
  show ?case
  proof (cases "name = PEERDUP_DIR_NAME")
    case True
    with 4 show ?thesis by simp
  next
    case False
    with "4.prems"(1) have "io_bind (fs_file_type (dir @ [name])) (\<lambda>ft. io_bind (?here ft) ?rest) w = (Inl e, w')" by simp
    then show ?thesis
    proof (cases rule: io_bind_cases)
      case (ok ft w1)
      note ft = fs_file_type_ok [OF ok(1)]
      have n1: "w_nodes w1 = w_nodes w" using ok(1) by (rule keeps_nodesD [rotated]) simp
      from ok(2) show ?thesis
      proof (cases rule: io_bind_cases)
        case (err e')
        then have "ft = FtDir" by (cases ft) auto
        with ft tree_depth_bound [of w "dir @ [name]"] have "length dir < tree_depth w" by simp
        with err "4.IH"(2) [OF False \<open>ft = FtDir\<close>, of w1 e' w'] "4.prems"(2) \<open>ft = FtDir\<close>
          tree_depth_cong [OF n1] show ?thesis by simp
      next
        case (ok here w2)
        from keeps_nodesD [OF kn ok(1)] n1 have n2: "w_nodes w2 = w_nodes w" by simp
        from ok(2) show ?thesis
          by (cases rule: io_bind_cases)
            (use "4.IH"(3) [OF False, of w2] "4.prems"(2) tree_depth_cong [OF n2] in auto)
      qed
    qed (use fs_file_type_err in auto)
  qed
qed auto

lemma fs_read_dir_progress:
  "fault_free w \<Longrightarrow> fs_is_dir w p \<Longrightarrow> \<exists>w'. fs_read_dir p w = (Inr (dir_entries w p), w')"
  by (simp add: fs_read_dir_def syscall_def fault_free_def dir_entries_def)

lemma fs_file_type_progress:
  "fault_free w \<Longrightarrow> fs_at w p \<noteq> None \<Longrightarrow> \<exists>t w'. fs_file_type p w = (Inr t, w')"
  by (auto simp: fs_file_type_def syscall_def fault_free_def split: node.split)

lemma keeps_faultsD: "keeps_faults m \<Longrightarrow> m w = (r, w') \<Longrightarrow> fault_free w \<Longrightarrow> fault_free w'"
  using keeps_faults_fault_free by fastforce

lemma collect_progress:
  "fault_free w \<Longrightarrow> fs_is_dir w dir \<Longrightarrow> tree_depth w < fuel + length dir \<Longrightarrow> 0 < fuel \<Longrightarrow>
     is_ok (fst (collect_files fuel root dir w))"
  "fault_free w \<Longrightarrow> \<forall>n \<in> set names. fs_at w (dir @ [n]) \<noteq> None \<Longrightarrow> tree_depth w \<le> fuel + length dir \<Longrightarrow>
     is_ok (fst (collect_entries fuel root dir names w))"
proof (induction fuel root dir and fuel root dir names arbitrary: w and w
    rule: collect_files_collect_entries.induct)
  case (2 fuel root dir)
  from fs_read_dir_progress [OF "2.prems"(1,2)] obtain w1
    where rd: "fs_read_dir dir w = (Inr (dir_entries w dir), w1)" by auto
  have n1: "w_nodes w1 = w_nodes w" and "fault_free w1"
    using rd keeps_nodesD keeps_faultsD "2.prems"(1) by (metis keeps_nodes_calls(5), metis keeps_faults_calls(11))
  with rd "2.IH" [of w1 "dir_entries w dir"] "2.prems"(3) show ?case
    by (simp add: dir_entries_iff nodes_cong(1) [OF n1] tree_depth_cong [OF n1])
next
  case (4 fuel root dir name names)
  let ?here = "\<lambda>ft. case ft of FtDir \<Rightarrow> collect_files fuel root (dir @ [name])
        | FtFile \<Rightarrow> io_return [drop (length root) (dir @ [name])] | FtOther \<Rightarrow> io_return []"
  show ?case
  proof (cases "name = PEERDUP_DIR_NAME")
    case False
    from fs_file_type_progress [OF "4.prems"(1)] "4.prems"(2) obtain ft w1
      where ft: "fs_file_type (dir @ [name]) w = (Inr ft, w1)" by fastforce
    have n1: "w_nodes w1 = w_nodes w" and f1: "fault_free w1"
      using ft keeps_nodesD keeps_faultsD "4.prems"(1) by (metis keeps_nodes_calls(6), metis keeps_faults_calls(14))
    have "is_ok (fst (?here ft w1))"
    proof (cases ft)
      case FtDir
      with fs_file_type_ok [OF ft] have d: "fs_at w (dir @ [name]) = Some NDir" by simp
      with tree_depth_bound [of w "dir @ [name]"] have "length dir < tree_depth w" by simp
      with FtDir "4.IH"(2) [OF False FtDir f1] d "4.prems"(3) show ?thesis
        by (simp add: fs_is_dir_def nodes_cong(1) [OF n1] tree_depth_cong [OF n1])
    qed simp_all
    then obtain here w2 where h: "?here ft w1 = (Inr here, w2)" by (metis is_ok_iff prod.collapse)
    have "keeps_nodes (?here ft)" "keeps_faults (?here ft)"
      by (auto split: file_type.split simp del: io_return_eq)
    with h n1 f1 have n2: "w_nodes w2 = w_nodes w" and f2: "fault_free w2"
      by (metis keeps_nodesD, metis keeps_faultsD)
    with "4.IH"(3) [OF False f2] "4.prems"(2,3) have "is_ok (fst (collect_entries fuel root dir names w2))"
      by (simp add: nodes_cong(1) [OF n2] tree_depth_cong [OF n2])
    then obtain rest w3 where "collect_entries fuel root dir names w2 = (Inr rest, w3)"
      by (metis is_ok_iff prod.collapse)
    with False ft h show ?thesis by simp
  qed (use 4 in simp)
qed auto

lemma collect_keeps [intro, simp]: "keeps_nodes (collect root)" "keeps_faults (collect root)"
  using collect_keeps_nodes collect_keeps_faults
  unfolding keeps_nodes_def keeps_faults_def collect_def by simp_all

lemma collect_ok:
  "collect root w = (Inr ps, w') \<Longrightarrow> fs_wf w \<Longrightarrow> nodes_ok w \<Longrightarrow>
     distinct ps \<and> set ps = dom (share_files w root)"
  using collect_exact(1) [where dir = root and sub = "[]"] by (simp add: collect_def)

lemma collect_err: "collect root w = (Inl e, w') \<Longrightarrow> e = IoError"
  using collect_fuel(1) [of "tree_fuel w" root root w e w'] by (simp add: collect_def tree_fuel_def tree_depth_def)

lemma collect_total: "fault_free w \<Longrightarrow> fs_is_dir w root \<Longrightarrow> is_ok (fst (collect root w))"
  using collect_progress(1) [of w root "tree_fuel w" root] by (simp add: collect_def tree_fuel_def tree_depth_def)

lemma finite_share_files: "finite (dom (share_files w root))"
proof (rule finite_subset)
  show "dom (share_files w root) \<subseteq> drop (length root) ` fst ` set (w_nodes w)"
  proof
    fix rel assume "rel \<in> dom (share_files w root)"
    then obtain n where "(root @ rel, n) \<in> set (w_nodes w)"
      by (auto simp: share_files_def fs_file_def fs_at_def split: if_splits option.splits) (metis map_of_SomeD)
    then show "rel \<in> drop (length root) ` fst ` set (w_nodes w)" by (force simp: image_image)
  qed
qed simp

section \<open>What the version hash stands for\<close>

text \<open>
  The reference definition: the hash of a content, given as a map from relative paths to
  bytes, over its entries in path order.
\<close>

definition content_bytes :: "('z) crypto_crates_scheme \<Rightarrow> (path \<Rightarrow> byte list option) \<Rightarrow> byte list" where
  "content_bytes C m = concat (map (\<lambda>rel. snapshot_entry C rel (the (m rel))) (sorted_list_of_set (dom m)))"

definition version_of :: "('z) crypto_crates_scheme \<Rightarrow> (path \<Rightarrow> byte list option) \<Rightarrow> string" where
  "version_of C m = bytes_hex (blake3 C (content_bytes C m))"

lemma snapshot_loop_ok:
  "snapshot_loop C root paths hashed man w = (Inr (h, man'), w') \<Longrightarrow>
     h = hashed @ concat (map (\<lambda>rel. snapshot_entry C rel (the (fs_file w (root @ rel)))) paths) \<and>
     set man' = set man \<union> set paths \<and> (bset_ok man \<longrightarrow> bset_ok man') \<and> w_nodes w' = w_nodes w"
proof (induction C root paths hashed man arbitrary: w rule: snapshot_loop.induct)
  case (2 C root rel paths hashed man)
  from "2.prems" obtain content w1 where rd: "fs_read (root @ rel) w = (Inr content, w1)"
    and rest: "snapshot_loop C root paths (hashed @ snapshot_entry C rel content) (bset_insert rel man) w1 = (Inr (h, man'), w')"
    by (auto simp: io_bind_eq_Inr)
  have n1: "w_nodes w1 = w_nodes w" using rd by (rule keeps_nodesD [rotated]) simp
  from fs_read_ok [OF rd] "2.IH" [OF rest] show ?case
    by (auto simp: nodes_cong(2) [OF n1] n1)
qed simp

lemma snapshot_ok:
  assumes "snapshot_content C root w = (Inr (vh, man), w')" "fs_wf w" "nodes_ok w"
  shows "vh = version_of C (share_files w root)" "man = sorted_list_of_set (dom (share_files w root))"
    "w_nodes w' = w_nodes w"
proof -
  from assms(1) obtain paths w1 h where c: "collect root w = (Inr paths, w1)"
    and l: "snapshot_loop C root (sort paths) [] [] w1 = (Inr (h, man), w')"
    and vh: "vh = bytes_hex (blake3 C h)"
    by (auto simp: snapshot_content_def io_bind_eq_Inr)
  have n1: "w_nodes w1 = w_nodes w" using c by (rule keeps_nodesD [rotated]) simp
  note ps = collect_ok [OF c assms(2,3)]
  then have sorted: "sort paths = sorted_list_of_set (dom (share_files w root))"
    by (metis sorted_list_of_set_sort_remdups distinct_remdups_id)
  have files: "fs_file w1 (root @ rel) = share_files w root rel" if "rel \<in> set (sort paths)" for rel
    using that ps by (auto simp: nodes_cong(2) [OF n1] share_files_def split: if_splits)
  note L = snapshot_loop_ok [OF l]
  have "h = content_bytes C (share_files w root)"
    using L files unfolding content_bytes_def sorted [symmetric] by (auto intro!: arg_cong [where f = concat])
  with vh show "vh = version_of C (share_files w root)" by (simp add: version_of_def)
  show "man = sorted_list_of_set (dom (share_files w root))"
    using L ps finite_share_files by (intro bset_ok_ext) (auto simp: bset_ok_def)
  show "w_nodes w' = w_nodes w" using L n1 by simp
qed

lemma snapshot_loop_progress:
  "fault_free w \<Longrightarrow> \<forall>rel \<in> set paths. fs_file w (root @ rel) \<noteq> None \<Longrightarrow>
     is_ok (fst (snapshot_loop C root paths hashed man w))"
proof (induction C root paths hashed man arbitrary: w rule: snapshot_loop.induct)
  case (2 C root rel paths hashed man)
  then obtain bs where "fs_read (root @ rel) w = (Inr bs, w\<lparr>w_tick := Suc (w_tick w)\<rparr>)"
    using fs_read_progress [OF "2.prems"(1)] by fastforce
  with "2.IH" [of "w\<lparr>w_tick := Suc (w_tick w)\<rparr>" bs] "2.prems" show ?case by simp
qed simp

lemma snapshot_total:
  assumes "fault_free w" "fs_is_dir w root" "fs_wf w" "nodes_ok w"
  shows "is_ok (fst (snapshot_content C root w))"
proof -
  from collect_total [OF assms(1,2)] obtain ps w1 where c: "collect root w = (Inr ps, w1)"
    by (metis is_ok_iff prod.collapse)
  have n1: "w_nodes w1 = w_nodes w" using c by (rule keeps_nodesD [rotated]) simp
  have "fault_free w1" using c assms(1) keeps_faultsD collect_keeps(2) by metis
  moreover have "\<forall>rel \<in> set (sort ps). fs_file w1 (root @ rel) \<noteq> None"
    using collect_ok [OF c assms(3,4)] by (auto simp: nodes_cong(2) [OF n1] share_files_def split: if_splits)
  ultimately have "is_ok (fst (snapshot_loop C root (sort ps) [] [] w1))" by (rule snapshot_loop_progress)
  then obtain h man w2 where "snapshot_loop C root (sort ps) [] [] w1 = (Inr (h, man), w2)"
    by (metis is_ok_iff prod.collapse)
  with c show ?thesis by (simp add: snapshot_content_def)
qed

text \<open>The encoding of a content is injective, up to collisions of the hash.\<close>

lemma bytes_hex_inject: "bytes_hex a = bytes_hex b \<Longrightarrow> a = b"
proof -
  assume eq: "bytes_hex a = bytes_hex b"
  then have "length a = length b" by (metis length_bytes_hex mult_cancel1 zero_neq_numeral)
  then have "(Inr (drop 0 a) :: byte list result) = Inr (drop 0 b)"
    using from_hex_loop_bytes [of 0 "length a" a] from_hex_loop_bytes [of 0 "length a" b]
    unfolding eq add_0 by metis
  then show "a = b" by simp
qed

definition name_ok :: "string \<Rightarrow> bool" where
  "name_ok n \<longleftrightarrow> n \<noteq> '''' \<and> CHR ''/'' \<notin> set n"

lemma split_at_slash:
  "CHR ''/'' \<notin> set x \<Longrightarrow> takeWhile (\<lambda>c. c \<noteq> CHR ''/'') (x @ CHR ''/'' # y) = x"
  "CHR ''/'' \<notin> set x \<Longrightarrow> takeWhile (\<lambda>c. c \<noteq> CHR ''/'') x = x"
  by (induction x) auto

lemma path_string_inject:
  "path_string p = path_string q \<Longrightarrow> list_all name_ok p \<Longrightarrow> list_all name_ok q \<Longrightarrow> p = q"
proof (induction p arbitrary: q rule: path_string.induct)
  case 1
  then show ?case by (cases q rule: path_string.cases) (auto simp: name_ok_def)
next
  case (2 x)
  then show ?case by (cases q rule: path_string.cases) (auto simp: name_ok_def)
next
  case (3 x v va)
  then obtain y ys where q: "q = y # ys" by (cases q) (auto simp: name_ok_def)
  with 3 have "ys \<noteq> []" by (auto simp: name_ok_def)
  with q obtain z zs where q: "q = y # z # zs" by (cases ys) auto
  with 3 have "x = y" using split_at_slash(1) [of x "path_string (v # va)"] split_at_slash(1) [of y "path_string (z # zs)"]
    by (auto simp: name_ok_def)
  with 3 q show ?case by auto
qed

text \<open>BLAKE3 digests have 32 bytes.\<close>

definition hash_len :: "('z) crypto_crates_scheme \<Rightarrow> bool" where
  "hash_len C \<longleftrightarrow> (\<forall>x. length (blake3 C x) = 32)"

definition content_ok :: "(path \<Rightarrow> byte list option) \<Rightarrow> bool" where
  "content_ok m \<longleftrightarrow> finite (dom m) \<and>
     (\<forall>rel \<in> dom m. list_all name_ok rel \<and> length (path_string rel) < 2 ^ 64)"

lemma snapshot_entry_inject:
  assumes "hash_len C" and "snapshot_entry C p x @ u = snapshot_entry C q y @ v"
    and "list_all name_ok p" "length (path_string p) < 2 ^ 64"
    and "list_all name_ok q" "length (path_string q) < 2 ^ 64"
  shows "p = q \<and> blake3 C x = blake3 C y \<and> u = v"
proof -
  let ?n = "\<lambda>p. of_nat (length (path_string p)) :: u64"
  from assms(2) have 1: "to_le_bytes (?n p) = to_le_bytes (?n q)"
    and 2: "as_bytes (path_string p) @ blake3 C x @ u = as_bytes (path_string q) @ blake3 C y @ v"
    unfolding snapshot_entry_def by (simp_all add: append_eq_append_conv)
  from 1 have "?n p = ?n q" by (simp only: to_le_bytes_inject)
  then have "unat (?n p) = unat (?n q)" by (simp only:)
  then have l: "length (path_string p) = length (path_string q)"
    using assms(4,6) by (simp add: unat_of_nat)
  with 2 have "as_bytes (path_string p) = as_bytes (path_string q)" and 3: "blake3 C x @ u = blake3 C y @ v"
    by (simp_all add: append_eq_append_conv)
  then have "p = q" using path_string_inject assms(3,5) by (simp add: as_bytes_inject)
  moreover have "length (blake3 C x) = length (blake3 C y)" using assms(1) by (simp add: hash_len_def)
  with 3 have "blake3 C x = blake3 C y \<and> u = v" by (simp add: append_eq_append_conv)
  ultimately show ?thesis by simp
qed

lemma entries_inject:
  assumes "hash_len C"
    and "concat (map (\<lambda>rel. snapshot_entry C rel (f rel)) ps) = concat (map (\<lambda>rel. snapshot_entry C rel (g rel)) qs)"
    and "\<forall>rel \<in> set ps \<union> set qs. list_all name_ok rel \<and> length (path_string rel) < 2 ^ 64"
  shows "ps = qs \<and> (\<forall>rel \<in> set ps. blake3 C (f rel) = blake3 C (g rel))"
  using assms(2,3)
proof (induction ps arbitrary: qs)
  case Nil
  then show ?case by (cases qs) (auto simp: snapshot_entry_def dest: arg_cong [where f = length])
next
  case (Cons p ps)
  show ?case
  proof (cases qs)
    case Nil
    with Cons.prems(1) show ?thesis by (auto simp: snapshot_entry_def dest: arg_cong [where f = length])
  next
    case (Cons q qs')
    with Cons.prems snapshot_entry_inject [OF assms(1), of p "f p" _ q "g q"]
    have "p = q" "blake3 C (f p) = blake3 C (g q)"
      "concat (map (\<lambda>rel. snapshot_entry C rel (f rel)) ps) = concat (map (\<lambda>rel. snapshot_entry C rel (g rel)) qs')"
      by auto
    with Cons Cons.IH [of qs'] Cons.prems(2) show ?thesis by simp
  qed
qed

text \<open>The inputs a snapshot hashes: the files' contents and the list of entries.\<close>

definition hash_inputs :: "('z) crypto_crates_scheme \<Rightarrow> (path \<Rightarrow> byte list option) \<Rightarrow> byte list set" where
  "hash_inputs C m = insert (content_bytes C m) (ran m)"

lemma version_of_inject:
  assumes "hash_len C" "content_ok m" "content_ok n" "inj_on (blake3 C) (hash_inputs C m \<union> hash_inputs C n)"
    and "version_of C m = version_of C n"
  shows "m = n"
proof -
  from assms(5) have "blake3 C (content_bytes C m) = blake3 C (content_bytes C n)"
    unfolding version_of_def by (rule bytes_hex_inject)
  then have eq: "content_bytes C m = content_bytes C n"
    by (rule inj_onD [OF assms(4)]) (simp_all add: hash_inputs_def)
  have fin: "finite (dom m)" "finite (dom n)" using assms(2,3) by (simp_all add: content_ok_def)
  have "\<forall>rel \<in> set (sorted_list_of_set (dom m)) \<union> set (sorted_list_of_set (dom n)).
      list_all name_ok rel \<and> length (path_string rel) < 2 ^ 64"
    using assms(2,3) fin unfolding content_ok_def by simp blast
  from entries_inject [OF assms(1) eq [unfolded content_bytes_def] this]
  have s: "sorted_list_of_set (dom m) = sorted_list_of_set (dom n)"
    and h: "\<forall>rel \<in> set (sorted_list_of_set (dom m)). blake3 C (the (m rel)) = blake3 C (the (n rel))"
    by blast+
  from s fin have d: "dom m = dom n" by (metis sorted_list_of_set.set_sorted_key_list_of_set)
  show "m = n"
  proof
    fix rel
    show "m rel = n rel"
    proof (cases "rel \<in> dom m")
      case True
      then obtain a b where ab: "m rel = Some a" "n rel = Some b" using d by blast
      have "rel \<in> set (sorted_list_of_set (dom m))" using True fin by simp
      with h have "blake3 C (the (m rel)) = blake3 C (the (n rel))" by blast
      with ab have "blake3 C a = blake3 C b" by simp
      moreover have "a \<in> hash_inputs C m" "b \<in> hash_inputs C n"
        using ab unfolding hash_inputs_def by (blast intro: ranI)+
      ultimately have "a = b" by (blast intro: inj_onD [OF assms(4)])
      with ab show ?thesis by simp
    next
      case False
      with d show ?thesis by (metis domIff)
    qed
  qed
qed

text \<open>Every file system call gives names without a slash; the content of a share is well formed.\<close>

definition names_ok :: "world \<Rightarrow> bool" where
  "names_ok w \<longleftrightarrow> (\<forall>(p, _) \<in> set (w_nodes w). list_all name_ok p \<and> length (path_string p) < 2 ^ 64)"

lemma path_string_append_length: "length (path_string q) \<le> length (path_string (p @ q))"
proof (induction p)
  case (Cons a p)
  then show ?case by (cases "p @ q") (auto simp: neq_Nil_conv)
qed simp

lemma content_ok_share: "names_ok w \<Longrightarrow> content_ok (share_files w root)"
proof -
  assume ok: "names_ok w"
  have "list_all name_ok rel \<and> length (path_string rel) < 2 ^ 64" if "rel \<in> dom (share_files w root)" for rel
  proof -
    from that obtain n where "(root @ rel, n) \<in> set (w_nodes w)"
      by (auto simp: share_files_def fs_file_def fs_at_def split: if_splits option.splits) (metis map_of_SomeD)
    with ok path_string_append_length [of rel root] show ?thesis
      by (fastforce simp: names_ok_def list_all_append)
  qed
  then show ?thesis by (simp add: content_ok_def finite_share_files)
qed

section \<open>Properties\<close>

text \<open>
  C36. Walking a share terminates and reports its files: on every tree, whatever calls
  fail, the walk ends with an I/O error or with each regular file outside the state
  directory exactly once; it changes nothing; and on a directory it succeeds when no call
  fails.
\<close>

theorem walk_reports_files:
  assumes "fs_wf w" "nodes_ok w" "collect root w = (r, w')"
  shows "w_nodes w' = w_nodes w \<and> (\<forall>e. r = Inl e \<longrightarrow> e = IoError) \<and>
    (\<forall>ps. r = Inr ps \<longrightarrow> distinct ps \<and> set ps = dom (share_files w root)) \<and>
    (fault_free w \<and> fs_is_dir w root \<longrightarrow> is_ok r)"
  using collect_err collect_ok [OF _ assms(1,2)] collect_total [of w root] keeps_nodesD [OF collect_keeps(1)] assms(3)
  by auto

lemma run_eq: "fst x = r \<Longrightarrow> x = (r, snd x)"
  by (metis prod.collapse)

text \<open>A share in two places: the entries in another order, and with a shadow.\<close>

definition demo_here :: world where
  "demo_here = calm_world [([''r''], NDir), ([''r'', ''d''], NDir), ([''r'', ''d'', ''f''], NFile 420 [1, 2])]"

definition demo_there :: world where
  "demo_there = calm_world [([''q'', ''.peerdup'', ''x''], NFile 384 [5]), ([''q'', ''d'', ''f''], NFile 384 [1, 2]),
     ([''q'', ''.peerdup''], NDir), ([''q'', ''d''], NDir), ([''q''], NDir)]"

lemma demo_share_files:
  "share_files demo_here [''r''] = [[''d'', ''f''] \<mapsto> [1, 2]]"
  "share_files demo_there [''q''] = [[''d'', ''f''] \<mapsto> [1, 2]]"
  by (auto simp: share_files_def fs_file_def fs_at_def demo_here_def demo_there_def calm_world_def
      PEERDUP_DIR_NAME_def fun_eq_iff)

lemma fs_wf_list:
  assumes "list_all (\<lambda>(p, _). butlast p = [] \<or> map_of (w_nodes w) (butlast p) = Some NDir) (w_nodes w)"
  shows "fs_wf w"
  using assms by (auto simp: fs_wf_def fs_at_def fs_is_dir_def list_all_iff dest!: map_of_SomeD)

lemma demo_trees:
  "fs_wf demo_here" "nodes_ok demo_here" "names_ok demo_here"
  "fs_wf demo_there" "nodes_ok demo_there" "names_ok demo_there"
  by (auto intro!: fs_wf_list simp: nodes_ok_def names_ok_def name_ok_def demo_here_def demo_there_def calm_world_def)

theorem walk_reports_files_witness:
  "fst (collect [''q''] demo_there) = Inr [[''d'', ''f'']] \<and> distinct [[''d'', ''f'']] \<and>
     set [[''d'', ''f'']] = dom (share_files demo_there [''q''])"
proof -
  have run: "fst (collect [''q''] demo_there) = Inr [[''d'', ''f'']]" by code_simp
  from walk_reports_files [OF demo_trees(4,5) run_eq [OF run]] run show ?thesis by simp
qed



text \<open>
  \<open>debounce\<close> merges a burst: it returns after the first pause that is at least as
  long as the settling time, and consumes exactly the events before it.
\<close>

lemma debounce_merges_burst:
  "debounce settle gaps = (case gaps of [] \<Rightarrow> (None, [])
     | _ # rest \<Rightarrow> (Some (), dropWhile (\<lambda>gap. gap < settle) rest))"
proof -
  have "debounce_loop settle rest = dropWhile (\<lambda>gap. gap < settle) rest" for rest
    by (induction rest) auto
  then show ?thesis by (simp add: debounce_def split: list.split)
qed

end
