(* ===== verification/Shadow.thy ===== *)
theory Shadow
  imports Content
begin

text \<open>
  \<^verbatim>\<open>src/daemon.rs\<close>, the encrypted shadow copy under \<^verbatim>\<open>.peerdup/encrypted\<close> that BitTorrent
  transfers: encryption of the share's files into it, decryption back into the share, and
  the deletion of files that are gone from the new version.
\<close>

section \<open>The encrypted shadow\<close>

definition shadow_root :: "path \<Rightarrow> path" where
  "shadow_root root = root @ [PEERDUP_DIR_NAME, ''encrypted'']"

definition shadow_file_for :: "path \<Rightarrow> path \<Rightarrow> path" where
  "shadow_file_for root plaintext_rel =
     (let p = shadow_root root @ plaintext_rel in butlast p @ [last p @ ''.bin''])"

definition strip_suffix :: "string \<Rightarrow> string \<Rightarrow> string option" where
  "strip_suffix suf s = (if suffix suf s then Some (take (length s - length suf) s) else None)"

text \<open>\<open>set_file_name\<close> with an empty name leaves the parent.\<close>

definition plaintext_rel_from_shadow_rel :: "path \<Rightarrow> path option" where
  "plaintext_rel_from_shadow_rel shadow_rel =
     (if shadow_rel = [] then None
      else map_option (\<lambda>stripped. butlast shadow_rel @ (if stripped = '''' then [] else [stripped]))
        (strip_suffix ''.bin'' (last shadow_rel)))"

fun encrypt_files :: "('z) crypto_crates_scheme \<Rightarrow> path \<Rightarrow> keyring \<Rightarrow> path list \<Rightarrow> unit io" where
  "encrypt_files C root key [] = io_return ()"
| "encrypt_files C root key (rel # rels) =
     (let shadow_path = shadow_file_for root rel in
      io_bind (fs_create_dir_all (butlast shadow_path)) (\<lambda>_.
      io_bind (fs_read (root @ rel)) (\<lambda>pt_bytes.
      io_bind (encrypt C key pt_bytes) (\<lambda>ct_bytes.
      io_bind (fs_write shadow_path ct_bytes) (\<lambda>_.
      encrypt_files C root key rels)))))"

text \<open>\<open>let _ = fs::remove_file(..)\<close>: the outcome is dropped.\<close>

definition try_remove :: "path \<Rightarrow> world \<Rightarrow> world" where
  "try_remove p w = snd (fs_remove_file p w)"

fun remove_shadow_orphans :: "path \<Rightarrow> path list \<Rightarrow> path list \<Rightarrow> world \<Rightarrow> world" where
  "remove_shadow_orphans shadow manifest [] w = w"
| "remove_shadow_orphans shadow manifest (shadow_rel # rels) w =
     (case plaintext_rel_from_shadow_rel shadow_rel of
        None \<Rightarrow> remove_shadow_orphans shadow manifest rels w
      | Some pt_rel \<Rightarrow>
          if pt_rel \<notin> set manifest
          then remove_shadow_orphans shadow manifest rels (try_remove (shadow @ shadow_rel) w)
          else remove_shadow_orphans shadow manifest rels w)"

definition sync_plaintext_to_shadow ::
  "('z) crypto_crates_scheme \<Rightarrow> path \<Rightarrow> keyring \<Rightarrow> path list \<Rightarrow> unit io" where
  "sync_plaintext_to_shadow C root key plaintext_manifest =
     (let shadow = shadow_root root in
      io_bind (fs_create_dir_all shadow) (\<lambda>_.
      io_bind (encrypt_files C root key plaintext_manifest) (\<lambda>_ w.
      io_bind (if fs_exists w shadow then collect shadow else io_return []) (\<lambda>shadow_files w'.
      io_return () (remove_shadow_orphans shadow plaintext_manifest shadow_files w')) w)))"

fun decrypt_files ::
  "('z) crypto_crates_scheme \<Rightarrow> path \<Rightarrow> keyring \<Rightarrow> path list \<Rightarrow> path list \<Rightarrow> path list io" where
  "decrypt_files C root key [] manifest = io_return manifest"
| "decrypt_files C root key (shadow_rel # rels) manifest =
     (case plaintext_rel_from_shadow_rel shadow_rel of
        None \<Rightarrow> decrypt_files C root key rels manifest
      | Some pt_rel \<Rightarrow>
          let pt_path = root @ pt_rel in
          io_bind (fs_read (shadow_root root @ shadow_rel)) (\<lambda>ct_bytes.
          io_bind (io_lift (decrypt C key ct_bytes)) (\<lambda>pt_bytes.
          io_bind (if pt_path = [] then io_return () else fs_create_dir_all (butlast pt_path)) (\<lambda>_.
          if pt_path = [] then io_fail (Bail ''plaintext path has no filename'' [])
          else
            let tmp = butlast pt_path @ [last pt_path @ ''.peerdup-tmp''] in
            io_bind (fs_write tmp pt_bytes) (\<lambda>_.
            io_bind (fs_rename tmp pt_path) (\<lambda>_.
            decrypt_files C root key rels (bset_insert pt_rel manifest)))))))"

definition sync_shadow_to_plaintext ::
  "('z) crypto_crates_scheme \<Rightarrow> path \<Rightarrow> keyring \<Rightarrow> path list io" where
  "sync_shadow_to_plaintext C root key w =
     (let shadow = shadow_root root in
      if \<not> fs_exists w shadow then io_return [] w
      else
        io_bind (collect shadow) (\<lambda>shadow_files.
        decrypt_files C root key shadow_files []) w)"

fun remove_all :: "path \<Rightarrow> path list \<Rightarrow> world \<Rightarrow> world" where
  "remove_all root [] w = w"
| "remove_all root (rel # rels) w = remove_all root rels (try_remove (root @ rel) w)"

definition delete_orphans :: "path \<Rightarrow> path list \<Rightarrow> path list \<Rightarrow> world \<Rightarrow> world" where
  "delete_orphans root old_manifest new_manifest w =
     remove_all root (bset_difference old_manifest new_manifest) w"

section \<open>Well-formed trees stay well formed\<close>

definition tree_ok :: "world \<Rightarrow> bool" where
  "tree_ok w \<longleftrightarrow> fs_wf w \<and> nodes_ok w"

definition keeps_tree :: "'a io \<Rightarrow> bool" where
  "keeps_tree m \<longleftrightarrow> (\<forall>w. tree_ok w \<longrightarrow> tree_ok (snd (m w)))"

lemma keeps_tree_bind [intro]:
  "keeps_tree m \<Longrightarrow> (\<And>x. keeps_tree (f x)) \<Longrightarrow> keeps_tree (io_bind m f)"
  unfolding keeps_tree_def io_bind_def
  by (metis (mono_tags, lifting) case_prod_beta' old.sum.simps(5,6) snd_conv sum.exhaust)

lemma keeps_treeD: "keeps_tree m \<Longrightarrow> m w = (r, w') \<Longrightarrow> tree_ok w \<Longrightarrow> tree_ok w'"
  by (metis keeps_tree_def snd_conv)

lemma tree_ok_nodes: "w_nodes v = w_nodes w \<Longrightarrow> tree_ok v = tree_ok w"
  using nodes_cong(3) [of v w] by (simp add: tree_ok_def nodes_ok_def)

lemma keeps_nodes_tree [intro]: "keeps_nodes m \<Longrightarrow> keeps_tree m"
  unfolding keeps_nodes_def keeps_tree_def using tree_ok_nodes by blast

lemma tree_ok_tick [simp]: "tree_ok (w\<lparr>w_tick := t\<rparr>) = tree_ok w"
  by (rule tree_ok_nodes) simp

lemma nodes_ok_tick [simp]: "nodes_ok (w\<lparr>w_tick := t\<rparr>) = nodes_ok w"
  by (simp add: nodes_ok_def)

lemma nodes_ok_set_node [simp]: "nodes_ok w \<Longrightarrow> nodes_ok (set_node p n w)"
  by (simp add: nodes_ok_def set_node_def distinct_update)

lemma nodes_ok_del_node [simp]: "nodes_ok w \<Longrightarrow> nodes_ok (del_node p w)"
  by (simp add: nodes_ok_def del_node_def distinct_delete)

lemma tree_ok_mkdir: "tree_ok w \<Longrightarrow> fs_is_dir w q \<Longrightarrow> fs_at w (q @ [x]) = None \<Longrightarrow> tree_ok (set_node (q @ [x]) NDir w)"
  by (auto simp: tree_ok_def fs_wf_def fs_is_dir_def)

lemma mk_dirs_tree: "tree_ok w \<Longrightarrow> fs_is_dir w q \<Longrightarrow> tree_ok (snd (mk_dirs q xs w))"
proof (induction q xs w rule: mk_dirs.induct)
  case (2 q x xs w)
  show ?case
  proof (cases "fs_at w (q @ [x])")
    case None
    with 2 tree_ok_mkdir show ?thesis by (simp add: fs_is_dir_def)
  next
    case (Some n)
    with 2 show ?thesis by (cases n) (simp_all add: fs_is_dir_def)
  qed
qed simp

lemma put_file_tree: "tree_ok w \<Longrightarrow> p \<noteq> [] \<Longrightarrow> fs_is_dir w (butlast p) \<Longrightarrow> fs_at w p \<noteq> Some NDir \<Longrightarrow> tree_ok (put_file p bs w)"
  by (simp add: tree_ok_def put_file_def fs_wf_set_file)

lemma rename_tree:
  assumes "tree_ok w" "fs_at w a = Some (NFile m bs)" "b \<noteq> []" "fs_is_dir w (butlast b)" "fs_at w b \<noteq> Some NDir"
  shows "tree_ok (set_node b (NFile m bs) (del_node a w))"
proof -
  have "fs_wf (del_node a w)" "nodes_ok (del_node a w)"
    using assms(1,2) by (simp_all add: tree_ok_def fs_wf_del_file)
  moreover have "fs_is_dir (del_node a w) (butlast b)" using assms(2,4) by (auto simp: fs_is_dir_def)
  ultimately show ?thesis using assms(3,5) by (simp add: tree_ok_def fs_wf_set_file)
qed

lemma keeps_tree_calls [intro, simp]:
  "keeps_tree (io_return x)" "keeps_tree (io_fail e)" "keeps_tree (io_lift r)" "keeps_tree (fs_read p)"
  "keeps_tree (fs_create_dir_all p)" "keeps_tree (fs_write p bs)" "keeps_tree (fs_rename a b)"
  "keeps_tree (fs_remove_file p)"
proof -
  show "keeps_tree (fs_create_dir_all p)"
    using mk_dirs_tree [of _ "[]" p] by (auto simp: keeps_tree_def fs_create_dir_all_def syscall_def fs_is_dir_def)
  show "keeps_tree (fs_write p bs)"
    using put_file_tree by (auto simp: keeps_tree_def fs_write_def syscall_def split: option.split nat.split)
  show "keeps_tree (fs_rename a b)"
    using rename_tree by (auto simp: keeps_tree_def fs_rename_def syscall_def split: option.split node.split)
  show "keeps_tree (fs_remove_file p)"
    by (auto simp: keeps_tree_def fs_remove_file_def syscall_def fs_is_dir_def)
      (simp add: tree_ok_def fs_wf_del_file)
qed (auto simp del: io_return_eq io_fail_eq io_lift_eq)

section \<open>Paths in the shadow\<close>

definition shadow_rel :: "path \<Rightarrow> path" where
  "shadow_rel rel = butlast rel @ [last rel @ ''.bin'']"

lemma shadow_file_for_eq: "rel \<noteq> [] \<Longrightarrow> shadow_file_for root rel = shadow_root root @ shadow_rel rel"
  by (simp add: shadow_file_for_def shadow_rel_def shadow_root_def butlast_append)

lemma shadow_rel_inject: "p \<noteq> [] \<Longrightarrow> q \<noteq> [] \<Longrightarrow> shadow_rel p = shadow_rel q \<Longrightarrow> p = q"
  by (simp add: shadow_rel_def) (metis append_butlast_last_id)

lemma plaintext_rel_shadow_rel:
  "rel \<noteq> [] \<Longrightarrow> last rel \<noteq> '''' \<Longrightarrow> plaintext_rel_from_shadow_rel (shadow_rel rel) = Some rel"
  by (simp add: plaintext_rel_from_shadow_rel_def shadow_rel_def strip_suffix_def suffix_def)

lemma plaintext_relD:
  assumes "plaintext_rel_from_shadow_rel sr = Some rel" "last sr \<noteq> ''.bin''"
  shows "rel \<noteq> [] \<and> sr = shadow_rel rel \<and> last rel \<noteq> ''''"
proof -
  from assms obtain zs where "sr \<noteq> []" "last sr = zs @ ''.bin''" "zs \<noteq> ''''" "rel = butlast sr @ [zs]"
    by (auto simp: plaintext_rel_from_shadow_rel_def strip_suffix_def suffix_def split: if_splits)
  then show ?thesis by (simp add: shadow_rel_def) (metis append_butlast_last_id)
qed

lemma not_in_shadow: "PEERDUP_DIR_NAME \<notin> set rel \<Longrightarrow> root @ rel \<noteq> shadow_root root @ sr"
  by (auto simp: shadow_root_def)

lemma bin_not_state_dir: "s @ ''.bin'' \<noteq> PEERDUP_DIR_NAME"
  by (auto simp: PEERDUP_DIR_NAME_def dest: arg_cong [where f = last])

section \<open>Encrypting into the shadow\<close>

lemma encrypt_keeps_nodes [intro, simp]: "keeps_nodes (encrypt C key pt)"
  unfolding encrypt_def Let_def
  by (intro keeps_nodes_bind) (auto simp del: io_return_eq io_fail_eq split: option.split)

lemma encrypt_keeps_faults [intro, simp]: "keeps_faults (encrypt C key pt)"
  unfolding encrypt_def Let_def
  by (intro keeps_faults_bind) (auto simp del: io_return_eq io_fail_eq split: option.split)

definition user_rel :: "path \<Rightarrow> bool" where
  "user_rel rel \<longleftrightarrow> rel \<noteq> [] \<and> PEERDUP_DIR_NAME \<notin> set rel"

lemma share_files_user_rel: "share_files w root rel = (if user_rel rel then fs_file w (root @ rel) else None)"
  by (auto simp: share_files_def user_rel_def)

definition usable_ring :: "('z) crypto_crates_scheme \<Rightarrow> keyring \<Rightarrow> bool" where
  "usable_ring C key \<longleftrightarrow> aead_ok C \<and> ring_ok key \<and> length (kr_keys key) < 2 ^ 58"

lemma encrypt_one:
  assumes "usable_ring C key" and "encrypt_files C root key (rel # rels) w = (Inr u, w')"
  obtains pt ct w1 where "fs_file w (root @ rel) = Some pt" "fs_file w1 = (fs_file w)(shadow_file_for root rel \<mapsto> ct)"
    "encrypt_files C root key rels w1 = (Inr u, w')"
    "\<forall>later. prefix (kr_keys key) (kr_keys later) \<longrightarrow> decrypt C later ct = Inr pt"
proof -
  let ?s = "shadow_file_for root rel"
  from assms(2) obtain u1 w1 pt w2 ct w3 u4 w4 where
    1: "fs_create_dir_all (butlast ?s) w = (Inr u1, w1)" and 2: "fs_read (root @ rel) w1 = (Inr pt, w2)"
    and 3: "encrypt C key pt w2 = (Inr ct, w3)" and 4: "fs_write ?s ct w3 = (Inr u4, w4)"
    and 5: "encrypt_files C root key rels w4 = (Inr u, w')"
    by (auto simp: Let_def io_bind_eq_Inr)
  have f1: "fs_file w1 = fs_file w" using 1 fs_create_dir_all_files [of "butlast ?s" w] by simp
  have f2: "fs_file w2 = fs_file w" using f1 fs_read_files [of "root @ rel" w1] 2 by simp
  have "w_nodes w3 = w_nodes w2" using 3 by (rule keeps_nodesD [rotated]) simp
  from nodes_cong(2) [OF this] f2 have f3: "fs_file w3 = fs_file w" by simp
  have "decrypt C later ct = Inr pt" if "prefix (kr_keys key) (kr_keys later)" for later
    using assms(1) 3 that unfolding usable_ring_def by (blast intro: sealed_opens)
  with fs_read_ok [OF 2] f1 fs_write_ok [OF 4] f3 5 show thesis by (intro that [of pt w4 ct]) auto
qed

lemma shadow_file_fresh:
  assumes "distinct (rel # rels)" and "\<forall>r \<in> set (rel # rels). user_rel r"
  shows "shadow_file_for root rel \<notin> shadow_file_for root ` set rels"
proof
  assume "shadow_file_for root rel \<in> shadow_file_for root ` set rels"
  then obtain r where r: "r \<in> set rels" "shadow_file_for root rel = shadow_file_for root r" by blast
  then have "rel \<noteq> []" "r \<noteq> []" using assms(2) by (auto simp: user_rel_def)
  with r(2) have "rel = r" by (simp add: shadow_file_for_eq shadow_rel_inject)
  with r(1) assms(1) show False by simp
qed

lemma encrypt_files_ok:
  assumes "usable_ring C key"
  shows "encrypt_files C root key rels w = (Inr u, w') \<Longrightarrow> distinct rels \<Longrightarrow> \<forall>rel \<in> set rels. user_rel rel \<Longrightarrow>
    (\<forall>q. q \<notin> shadow_file_for root ` set rels \<longrightarrow> fs_file w' q = fs_file w q) \<and>
    (\<forall>rel \<in> set rels. \<exists>pt ct. fs_file w (root @ rel) = Some pt \<and> fs_file w' (shadow_file_for root rel) = Some ct \<and>
       (\<forall>later. prefix (kr_keys key) (kr_keys later) \<longrightarrow> decrypt C later ct = Inr pt))"
proof (induction rels arbitrary: w)
  case (Cons rel rels)
  let ?s = "shadow_file_for root rel"
  obtain pt ct w4 where pt: "fs_file w (root @ rel) = Some pt" and f4: "fs_file w4 = (fs_file w)(?s \<mapsto> ct)"
    and 5: "encrypt_files C root key rels w4 = (Inr u, w')"
    and open_ct: "\<forall>later. prefix (kr_keys key) (kr_keys later) \<longrightarrow> decrypt C later ct = Inr pt"
    using assms Cons.prems(1) by (rule encrypt_one)
  note s_new = shadow_file_fresh [OF Cons.prems(2,3), of root]
  have plain: "root @ r \<noteq> ?s" if "r \<in> set (rel # rels)" for r
    using Cons.prems(3) that not_in_shadow [of r root] by (auto simp: shadow_file_for_eq user_rel_def)
  note IH = Cons.IH [OF 5] Cons.prems(2,3)
  then have fr: "\<forall>q. q \<notin> shadow_file_for root ` set rels \<longrightarrow> fs_file w' q = fs_file w4 q"
    and rs: "\<forall>r \<in> set rels. \<exists>pt ct. fs_file w4 (root @ r) = Some pt \<and> fs_file w' (shadow_file_for root r) = Some ct \<and>
       (\<forall>later. prefix (kr_keys key) (kr_keys later) \<longrightarrow> decrypt C later ct = Inr pt)" by simp_all
  show ?case
  proof (intro conjI ballI allI impI)
    fix q assume "q \<notin> shadow_file_for root ` set (rel # rels)"
    with fr f4 show "fs_file w' q = fs_file w q" by simp
  next
    fix r assume r: "r \<in> set (rel # rels)"
    show "\<exists>pt ct. fs_file w (root @ r) = Some pt \<and> fs_file w' (shadow_file_for root r) = Some ct \<and>
       (\<forall>later. prefix (kr_keys key) (kr_keys later) \<longrightarrow> decrypt C later ct = Inr pt)"
    proof (cases "r = rel")
      case True
      with pt open_ct fr s_new f4 show ?thesis by auto
    next
      case False
      with r have "r \<in> set rels" by simp
      from bspec [OF rs this] plain [OF r] f4 show ?thesis by simp
    qed
  qed
qed simp

lemma encrypt_files_keeps [intro, simp]:
  "keeps_tree (encrypt_files C root key rels)" "keeps_faults (encrypt_files C root key rels)"
proof -
  show "keeps_tree (encrypt_files C root key rels)"
    by (induction rels) (auto simp: Let_def simp del: io_return_eq intro!: keeps_tree_bind)
  show "keeps_faults (encrypt_files C root key rels)"
    by (induction rels) (auto simp: Let_def simp del: io_return_eq intro!: keeps_faults_bind)
qed

text \<open>Removing a file, with the outcome dropped.\<close>

lemma try_remove_files: "fault_free w \<Longrightarrow> p \<noteq> [] \<Longrightarrow> fs_file (try_remove p w) = (fs_file w)(p := None)"
  by (auto simp: try_remove_def fs_remove_file_def syscall_def fault_free_def fs_is_dir_def fs_file_def fun_eq_iff)

lemma try_remove_frame: "q \<noteq> p \<Longrightarrow> fs_file (try_remove p w) q = fs_file w q"
  by (auto simp: try_remove_def fs_remove_file_def syscall_def)

lemma try_remove_sub: "fs_file (try_remove p w) q = None \<or> fs_file (try_remove p w) q = fs_file w q"
  by (cases "q = p") (auto simp: try_remove_frame, auto simp: try_remove_def fs_remove_file_def syscall_def split: if_splits)

lemma try_remove_ok: "fault_free w \<Longrightarrow> fault_free (try_remove p w)" "tree_ok w \<Longrightarrow> tree_ok (try_remove p w)"
  unfolding try_remove_def by (meson keeps_faults_calls(10) keeps_faults_fault_free)
    (meson keeps_tree_calls(8) keeps_tree_def)

definition shadow_orphan :: "path list \<Rightarrow> path \<Rightarrow> bool" where
  "shadow_orphan man sr \<longleftrightarrow> (\<exists>p. plaintext_rel_from_shadow_rel sr = Some p \<and> p \<notin> set man)"

lemma remove_shadow_orphans_files:
  "fault_free w \<Longrightarrow> shadow \<noteq> [] \<Longrightarrow> fs_file (remove_shadow_orphans shadow man srs w) =
     (\<lambda>q. if \<exists>sr \<in> set srs. q = shadow @ sr \<and> shadow_orphan man sr then None else fs_file w q)"
proof (induction shadow man srs w rule: remove_shadow_orphans.induct)
  case (2 shadow man sr srs w)
  show ?case
  proof (cases "shadow_orphan man sr")
    case True
    then obtain p where "plaintext_rel_from_shadow_rel sr = Some p" "p \<notin> set man" by (auto simp: shadow_orphan_def)
    with 2 True show ?thesis by (auto simp: try_remove_files try_remove_ok fun_eq_iff)
  next
    case False
    with 2 show ?thesis by (auto simp: shadow_orphan_def fun_eq_iff split: option.split)
  qed
qed auto

text \<open>The plaintext a shadow stands for, as a map from the share's relative paths.\<close>

definition shadow_content :: "('z) crypto_crates_scheme \<Rightarrow> keyring \<Rightarrow> world \<Rightarrow> path \<Rightarrow> path \<Rightarrow> byte list option" where
  "shadow_content C ring w root rel =
     (if rel = [] \<or> last rel = '''' then None
      else case share_files w (shadow_root root) (shadow_rel rel) of
        None \<Rightarrow> None
      | Some ct \<Rightarrow> (case decrypt C ring ct of Inl _ \<Rightarrow> None | Inr pt \<Rightarrow> Some pt))"

lemma shadow_rel_user: "user_rel rel \<Longrightarrow> user_rel (shadow_rel rel)"
  using bin_not_state_dir [of "last rel", symmetric] by (auto simp: user_rel_def shadow_rel_def dest: in_set_butlastD)

lemma shadow_files_at: "user_rel rel \<Longrightarrow> share_files w (shadow_root root) (shadow_rel rel) = fs_file w (shadow_file_for root rel)"
  using shadow_rel_user [of rel] by (simp add: share_files_user_rel shadow_file_for_eq) (simp add: user_rel_def shadow_file_for_eq)

lemma sync_plaintext_to_shadow_steps:
  assumes w: "fault_free w" "tree_ok w" and run: "sync_plaintext_to_shadow C root key man w = (Inr u, w')"
  obtains w1 w2 u2 where "fs_file w1 = fs_file w" "encrypt_files C root key man w1 = (Inr u2, w2)"
    "\<forall>q. fs_file w' q = (if \<exists>sr \<in> dom (share_files w2 (shadow_root root)). q = shadow_root root @ sr \<and> shadow_orphan man sr
       then None else fs_file w2 q)"
proof -
  let ?sh = "shadow_root root"
  from run obtain u1 w1 u2 w2 srs w3 where 1: "fs_create_dir_all ?sh w = (Inr u1, w1)"
    and 2: "encrypt_files C root key man w1 = (Inr u2, w2)"
    and 3: "(if fs_exists w2 ?sh then collect ?sh else io_return []) w2 = (Inr srs, w3)"
    and 4: "w' = remove_shadow_orphans ?sh man srs w3"
    by (auto simp: sync_plaintext_to_shadow_def Let_def io_bind_eq_Inr)
  have f1: "fs_file w1 = fs_file w" using 1 fs_create_dir_all_files [of ?sh w] by simp
  have ok1: "tree_ok w1" "fault_free w1"
    using 1 w keeps_treeD keeps_faultsD by (metis keeps_tree_calls(5), metis keeps_faults_calls(8))
  have ok2: "tree_ok w2" "fault_free w2"
    using 2 ok1 keeps_treeD keeps_faultsD by (metis encrypt_files_keeps(1), metis encrypt_files_keeps(2))
  have n3: "w_nodes w3 = w_nodes w2" and ok3: "fault_free w3"
    using 3 ok2(2) keeps_nodesD [OF collect_keeps(1)] keeps_faultsD [OF collect_keeps(2)]
    by (auto split: if_splits)
  have sh: "fs_is_dir w2 ?sh \<or> fs_file w2 q = None" if "q = ?sh @ sr" "sr \<noteq> []" for q sr
    using ok2(1) fs_wf_above [of w2 ?sh sr] that by (auto simp: tree_ok_def fs_file_def split: option.splits)
  have srs: "set srs = dom (share_files w2 ?sh)"
  proof (cases "fs_exists w2 ?sh")
    case True
    with 3 ok2 collect_ok [of ?sh w2 srs w3] show ?thesis by (simp add: tree_ok_def)
  next
    case False
    then have "share_files w2 ?sh sr = None" for sr
      using sh [of "?sh @ sr" sr] by (auto simp: share_files_def fs_is_dir_def fs_exists_def)
    with 3 False show ?thesis by (auto simp: dom_def)
  qed
  have f': "fs_file w' q = (if \<exists>sr \<in> dom (share_files w2 ?sh). q = ?sh @ sr \<and> shadow_orphan man sr
      then None else fs_file w2 q)" for q
  proof -
    have "?sh \<noteq> []" by (simp add: shadow_root_def)
    from remove_shadow_orphans_files [OF ok3 this, of man srs] show ?thesis
      unfolding 4 srs nodes_cong(2) [OF n3] by (rule fun_cong)
  qed
  with f1 2 show thesis by (intro that) auto
qed

text \<open>
  The shadow after the removal of orphans (\<open>w'\<close>), from the one after the encryption
  (\<open>w2\<close>): the names in it, and what it decrypts to.
\<close>

definition orphans_removed :: "path \<Rightarrow> path list \<Rightarrow> world \<Rightarrow> world \<Rightarrow> bool" where
  "orphans_removed root man w2 w' \<longleftrightarrow> (\<forall>q. fs_file w' q =
     (if \<exists>sr \<in> dom (share_files w2 (shadow_root root)). q = shadow_root root @ sr \<and> shadow_orphan man sr
      then None else fs_file w2 q))"

lemma orphans_removed_names:
  assumes "orphans_removed root man w2 w'" and "sr \<in> dom (share_files w' (shadow_root root))"
  shows "user_rel sr \<and> \<not> shadow_orphan man sr \<and> fs_file w2 (shadow_root root @ sr) \<noteq> None"
proof -
  let ?sh = "shadow_root root"
  have sr: "user_rel sr" "fs_file w' (?sh @ sr) \<noteq> None"
    using assms(2) by (auto simp: share_files_user_rel split: if_splits)
  with assms(1) have "\<not> (\<exists>sr' \<in> dom (share_files w2 ?sh). ?sh @ sr = ?sh @ sr' \<and> shadow_orphan man sr')"
    and w2: "fs_file w2 (?sh @ sr) \<noteq> None" unfolding orphans_removed_def by (metis (mono_tags, lifting))+
  moreover have "sr \<in> dom (share_files w2 ?sh)" using sr(1) w2 by (auto simp: share_files_user_rel)
  ultimately show ?thesis using sr(1) by blast
qed

lemma orphans_removed_content:
  assumes "orphans_removed root man w2 w'"
    and man: "rel \<in> set man \<Longrightarrow> user_rel rel \<and> last rel \<noteq> '''' \<and>
      fs_file w2 (shadow_file_for root rel) = Some ct \<and> decrypt C later ct = Inr pt"
  shows "shadow_content C later w' root rel = (if rel \<in> set man then Some pt else None)"
proof (cases "rel \<in> set man")
  case True
  with man have r: "user_rel rel" "rel \<noteq> []" "last rel \<noteq> ''''" and ct: "fs_file w2 (shadow_file_for root rel) = Some ct"
    "decrypt C later ct = Inr pt" by (auto simp: user_rel_def)
  then have "\<not> shadow_orphan man (shadow_rel rel)"
    using True plaintext_rel_shadow_rel by (auto simp: shadow_orphan_def)
  then have "fs_file w' (shadow_file_for root rel) = Some ct"
    using assms(1) [unfolded orphans_removed_def, rule_format, of "shadow_file_for root rel"] ct(1) r
    by (auto simp: shadow_file_for_eq)
  with ct(2) r True show ?thesis by (simp add: shadow_content_def shadow_files_at)
next
  case False
  have "shadow_orphan man (shadow_rel rel)" if "rel \<noteq> []" "last rel \<noteq> ''''"
    using False that plaintext_rel_shadow_rel by (auto simp: shadow_orphan_def)
  then have "share_files w' (shadow_root root) (shadow_rel rel) = None" if "rel \<noteq> []" "last rel \<noteq> ''''"
    using that assms(1) [unfolded orphans_removed_def, rule_format, of "shadow_root root @ shadow_rel rel"]
    by (auto simp: share_files_def)
  with False show ?thesis by (simp add: shadow_content_def)
qed

lemma sync_plaintext_to_shadow_ok:
  assumes ring: "usable_ring C key" "prefix (kr_keys key) (kr_keys later)"
    and w: "fault_free w" "tree_ok w" and names: "\<forall>rel \<in> dom (share_files w root). '''' \<notin> set rel"
    and man: "set man = dom (share_files w root)" "distinct man"
    and run: "sync_plaintext_to_shadow C root key man w = (Inr u, w')"
  shows "share_files w' root = share_files w root" "shadow_content C later w' root = share_files w root"
    "\<forall>sr \<in> dom (share_files w' (shadow_root root)). \<not> shadow_orphan man sr \<and>
       (sr \<in> shadow_rel ` set man \<or> sr \<in> dom (share_files w (shadow_root root)))"
proof -
  let ?sh = "shadow_root root"
  obtain w1 w2 u2 where f1: "fs_file w1 = fs_file w"
    and 2: "encrypt_files C root key man w1 = (Inr u2, w2)"
    and f': "orphans_removed root man w2 w'" unfolding orphans_removed_def
    by (rule sync_plaintext_to_shadow_steps [OF w run])
  have user: "\<forall>rel \<in> set man. user_rel rel" using man(1) by (auto simp: share_files_user_rel split: if_splits)
  note E = encrypt_files_ok [OF ring(1) 2 man(2) user]
  have out: "fs_file w2 (root @ rel) = fs_file w (root @ rel)" if "user_rel rel" for rel
    using E f1 user that not_in_shadow [of rel root] by (auto simp: user_rel_def shadow_file_for_eq image_iff)
  have out': "fs_file w' (root @ rel) = fs_file w (root @ rel)" if "user_rel rel" for rel
    using f' [unfolded orphans_removed_def, rule_format, of "root @ rel"] out [OF that] not_in_shadow [of rel root] that by (auto simp: user_rel_def)
  then show "share_files w' root = share_files w root" by (auto simp: share_files_user_rel fun_eq_iff)
  show "\<forall>sr \<in> dom (share_files w' ?sh). \<not> shadow_orphan man sr \<and>
      (sr \<in> shadow_rel ` set man \<or> sr \<in> dom (share_files w ?sh))"
  proof
    fix sr assume "sr \<in> dom (share_files w' ?sh)"
    from orphans_removed_names [OF f' this] have sr: "user_rel sr" and orph: "\<not> shadow_orphan man sr"
      and w2: "fs_file w2 (?sh @ sr) \<noteq> None" by auto
    show "\<not> shadow_orphan man sr \<and> (sr \<in> shadow_rel ` set man \<or> sr \<in> dom (share_files w ?sh))"
    proof (cases "?sh @ sr \<in> shadow_file_for root ` set man")
      case True
      then have "sr \<in> shadow_rel ` set man" using user by (auto simp: user_rel_def shadow_file_for_eq)
      with orph show ?thesis by simp
    next
      case False
      with E f1 w2 sr have "share_files w ?sh sr \<noteq> None" by (simp add: share_files_user_rel)
      with orph show ?thesis by auto
    qed
  qed
  show "shadow_content C later w' root = share_files w root"
  proof
    fix rel
    obtain pt ct where p: "rel \<in> set man \<Longrightarrow> fs_file w1 (root @ rel) = Some pt \<and>
        fs_file w2 (shadow_file_for root rel) = Some ct \<and> decrypt C later ct = Inr pt" using E ring(2) by blast
    have r: "user_rel rel \<and> last rel \<noteq> ''''" if "rel \<in> set man"
      using that user names man(1) by (metis last_in_set user_rel_def)
    have "shadow_content C later w' root rel = (if rel \<in> set man then Some pt else None)"
      by (rule orphans_removed_content [OF f']) (use p r in auto)
    moreover have "share_files w root rel = (if rel \<in> set man then Some pt else None)"
      using p r f1 man(1) by (auto simp: share_files_user_rel)
    ultimately show "shadow_content C later w' root rel = share_files w root rel" by simp
  qed
qed

section \<open>Decrypting the shadow\<close>

text \<open>The temporary name next to a file; no file of a version may have such a name.\<close>

definition tmp_rel :: "path \<Rightarrow> path" where
  "tmp_rel rel = butlast rel @ [last rel @ ''.peerdup-tmp'']"

lemma tmp_rel_inject: "p \<noteq> [] \<Longrightarrow> q \<noteq> [] \<Longrightarrow> tmp_rel p = tmp_rel q \<Longrightarrow> p = q"
  by (simp add: tmp_rel_def) (metis append_butlast_last_id)

lemma tmp_rel_user: "user_rel rel \<Longrightarrow> user_rel (tmp_rel rel)"
proof -
  have "last rel @ ''.peerdup-tmp'' \<noteq> PEERDUP_DIR_NAME"
    by (auto simp: PEERDUP_DIR_NAME_def dest: arg_cong [where f = last])
  then show "user_rel rel \<Longrightarrow> user_rel (tmp_rel rel)"
    by (auto simp: user_rel_def tmp_rel_def dest: in_set_butlastD)
qed

lemma tmp_path: "rel \<noteq> [] \<Longrightarrow> butlast (root @ rel) @ [last rel @ ''.peerdup-tmp''] = root @ tmp_rel rel"
  by (simp add: tmp_rel_def butlast_append)

text \<open>What decrypting the listed shadow files leaves, when nothing clashes with a temporary name.\<close>

definition decrypts_to :: "('z) crypto_crates_scheme \<Rightarrow> keyring \<Rightarrow> world \<Rightarrow> path \<Rightarrow> path \<Rightarrow> byte list \<Rightarrow> bool" where
  "decrypts_to C key w root sr pt \<longleftrightarrow>
     (\<exists>ct. fs_file w (shadow_root root @ sr) = Some ct \<and> decrypt C key ct = Inr pt)"

lemma decrypt_one:
  assumes "decrypt_files C root key (sr # srs) man w = (Inr man', w')"
    and "plaintext_rel_from_shadow_rel sr = Some rel" and "user_rel rel"
  obtains pt w1 where "decrypts_to C key w root sr pt"
    "fs_file w1 = (fs_file w)(root @ tmp_rel rel := None, root @ rel \<mapsto> pt)"
    "decrypt_files C root key srs (bset_insert rel man) w1 = (Inr man', w')"
proof -
  have ne: "rel \<noteq> []" using assms(3) by (simp add: user_rel_def)
  from assms(1,2) ne obtain ct w1 pt u2 w2 u3 w3 u4 w4 where
    1: "fs_read (shadow_root root @ sr) w = (Inr ct, w1)" and 2: "decrypt C key ct = Inr pt"
    and 3: "fs_create_dir_all (butlast (root @ rel)) w1 = (Inr u2, w2)"
    and 4: "fs_write (root @ tmp_rel rel) pt w2 = (Inr u3, w3)"
    and 5: "fs_rename (root @ tmp_rel rel) (root @ rel) w3 = (Inr u4, w4)"
    and 6: "decrypt_files C root key srs (bset_insert rel man) w4 = (Inr man', w')"
    by (auto simp: Let_def io_bind_eq_Inr tmp_path)
  have f2: "fs_file w2 = fs_file w"
    using 1 3 fs_read_files [of "shadow_root root @ sr" w] fs_create_dir_all_files [of "butlast (root @ rel)" w1] by simp
  have "tmp_rel rel \<noteq> rel"
    using ne by (simp add: tmp_rel_def) (metis append_butlast_last_id append_self_conv last_snoc list.distinct(1))
  with fs_rename_ok [OF 5] fs_write_ok [OF 4] f2
  have "fs_file w4 = (fs_file w)(root @ tmp_rel rel := None, root @ rel \<mapsto> pt)" by auto
  moreover have "decrypts_to C key w root sr pt" using fs_read_ok [OF 1] 2 by (simp add: decrypts_to_def)
  ultimately show thesis using that 6 by blast
qed

definition versions_of :: "path list \<Rightarrow> path set" where
  "versions_of srs = {rel. \<exists>sr \<in> set srs. plaintext_rel_from_shadow_rel sr = Some rel}"

lemma versions_of_Nil [simp]: "versions_of [] = {}"
  by (simp add: versions_of_def)

lemma versions_of_Cons [simp]:
  "versions_of (sr # srs) = (case plaintext_rel_from_shadow_rel sr of None \<Rightarrow> {} | Some rel \<Rightarrow> {rel}) \<union> versions_of srs"
  by (auto simp: versions_of_def split: option.splits)

lemma versions_of_fresh:
  assumes "plaintext_rel_from_shadow_rel sr = Some rel" and "\<forall>sr' \<in> set (sr # srs). last sr' \<noteq> ''.bin''"
    and "distinct (sr # srs)"
  shows "rel \<notin> versions_of srs"
proof
  assume "rel \<in> versions_of srs"
  then obtain sr' where sr': "sr' \<in> set srs" "plaintext_rel_from_shadow_rel sr' = Some rel"
    by (auto simp: versions_of_def)
  then have "sr' = sr" using assms(1,2) plaintext_relD by (metis list.set_intros(1,2))
  with sr' assms(3) show False by simp
qed

lemma decrypts_to_outside:
  assumes "user_rel rel" and "fs_file w1 = (fs_file w)(root @ tmp_rel rel := None, root @ rel \<mapsto> pt)"
  shows "decrypts_to C key w1 root sr p = decrypts_to C key w root sr p"
proof -
  have "fs_file w1 (shadow_root root @ sr) = fs_file w (shadow_root root @ sr)"
    using assms tmp_rel_user [OF assms(1)] not_in_shadow [of rel root sr] not_in_shadow [of "tmp_rel rel" root sr]
    by (auto simp: user_rel_def)
  then show ?thesis by (simp add: decrypts_to_def)
qed

lemma decrypt_files_ok:
  assumes "decrypt_files C root key srs man w = (Inr man', w')"
    and "\<forall>sr \<in> set srs. last sr \<noteq> ''.bin''" "distinct srs"
    and "\<forall>rel \<in> versions_of srs. user_rel rel \<and> tmp_rel rel \<notin> versions_of srs"
  shows "set man' = set man \<union> versions_of srs \<and> (bset_ok man \<longrightarrow> bset_ok man') \<and>
    (\<forall>sr \<in> set srs. \<forall>rel. plaintext_rel_from_shadow_rel sr = Some rel \<longrightarrow>
       (\<exists>pt. decrypts_to C key w root sr pt \<and> fs_file w' (root @ rel) = Some pt)) \<and>
    (\<forall>q. q \<notin> (@) root ` versions_of srs \<longrightarrow>
       fs_file w' q = (if q \<in> (\<lambda>rel. root @ tmp_rel rel) ` versions_of srs then None else fs_file w q))"
  using assms
proof (induction srs arbitrary: man w)
  case (Cons sr srs)
  show ?case
  proof (cases "plaintext_rel_from_shadow_rel sr")
    case None
    with Cons show ?thesis by simp
  next
    case (Some rel)
    have rel: "user_rel rel" using Cons.prems(4) Some by simp
    obtain pt w1 where pt: "decrypts_to C key w root sr pt"
      and f1: "fs_file w1 = (fs_file w)(root @ tmp_rel rel := None, root @ rel \<mapsto> pt)"
      and rest: "decrypt_files C root key srs (bset_insert rel man) w1 = (Inr man', w')"
      by (rule decrypt_one [OF Cons.prems(1) Some rel])
    have "\<forall>r \<in> versions_of srs. user_rel r \<and> tmp_rel r \<notin> versions_of srs" using Cons.prems(4) Some by simp
    note IH = Cons.IH [OF rest _ _ this]
    note fresh = versions_of_fresh [OF Some Cons.prems(2,3)]
    have tmp: "tmp_rel rel \<notin> versions_of srs" "rel \<notin> tmp_rel ` versions_of srs" "tmp_rel rel \<noteq> rel"
      using Cons.prems(4) Some by auto
    have shadow: "decrypts_to C key w1 root sr' p = decrypts_to C key w root sr' p" for sr' p
      by (rule decrypts_to_outside [OF rel f1])
    have A: "\<forall>sr' \<in> set srs. \<forall>r. plaintext_rel_from_shadow_rel sr' = Some r \<longrightarrow>
       (\<exists>pt. decrypts_to C key w root sr' pt \<and> fs_file w' (root @ r) = Some pt)"
      and M: "set man' = insert rel (set man) \<union> versions_of srs \<and> (bset_ok man \<longrightarrow> bset_ok man')"
      and F: "\<forall>q. q \<notin> (@) root ` versions_of srs \<longrightarrow>
       fs_file w' q = (if q \<in> (\<lambda>rel. root @ tmp_rel rel) ` versions_of srs then None else fs_file w1 q)"
      using IH Cons.prems(2,3) shadow by simp_all
    have "root @ rel \<notin> (@) root ` versions_of srs" "root @ rel \<notin> (\<lambda>rel. root @ tmp_rel rel) ` versions_of srs"
      using fresh tmp(2) by auto
    with F f1 have here: "fs_file w' (root @ rel) = Some pt" by simp
    have "fs_file w' q = (if q \<in> (\<lambda>rel. root @ tmp_rel rel) ` versions_of (sr # srs) then None else fs_file w q)"
      if "q \<notin> (@) root ` versions_of (sr # srs)" for q
      using F [rule_format, of q] f1 that Some by auto
    with A M here pt Some show ?thesis by auto
  qed
qed simp

lemma sync_shadow_to_plaintext_steps:
  assumes "sync_shadow_to_plaintext C root key w = (Inr man, w')" and "tree_ok w"
  obtains srs w1 where "set srs = dom (share_files w (shadow_root root))" "distinct srs"
    "decrypt_files C root key srs [] w1 = (Inr man, w')" "w_nodes w1 = w_nodes w"
proof (cases "fs_exists w (shadow_root root)")
  case True
  let ?sh = "shadow_root root"
  from True assms(1) obtain srs w1 where c: "collect ?sh w = (Inr srs, w1)"
    and d: "decrypt_files C root key srs [] w1 = (Inr man, w')"
    by (auto simp: sync_shadow_to_plaintext_def Let_def io_bind_eq_Inr)
  from c assms(2) have "distinct srs \<and> set srs = dom (share_files w ?sh)"
    unfolding tree_ok_def by (metis collect_ok)
  with that [OF _ _ d keeps_nodesD [OF collect_keeps(1) c]] show thesis by simp
next
  case False
  let ?sh = "shadow_root root"
  from False assms(1) have *: "man = []" "w' = w" by (simp_all add: sync_shadow_to_plaintext_def)
  have "share_files w ?sh sr = None" for sr
    using fs_wf_above [of w ?sh sr] assms(2) False
    by (auto simp: share_files_def tree_ok_def fs_file_def fs_is_dir_def fs_exists_def split: option.splits)
  then have "dom (share_files w ?sh) = {}" by auto
  with that [of "[]" w] * show thesis by simp
qed

lemma sync_shadow_to_plaintext_ok:
  assumes "sync_shadow_to_plaintext C root key w = (Inr man, w')" and "tree_ok w"
    and sh: "dom (share_files w (shadow_root root)) = shadow_rel ` V \<union> U"
    and V: "\<forall>rel \<in> V. user_rel rel \<and> last rel \<noteq> '''' \<and> tmp_rel rel \<notin> V"
    and U: "\<forall>sr \<in> U. plaintext_rel_from_shadow_rel sr = None"
  shows "set man = V" "bset_ok man" "\<forall>rel \<in> V. fs_file w' (root @ rel) = shadow_content C key w root rel \<and> fs_file w' (root @ rel) \<noteq> None"
    "\<forall>q. q \<notin> (@) root ` V \<longrightarrow> fs_file w' q = (if q \<in> (\<lambda>rel. root @ tmp_rel rel) ` V then None else fs_file w q)"
proof -
  let ?sh = "shadow_root root"
  have pr: "plaintext_rel_from_shadow_rel (shadow_rel rel) = Some rel" if "rel \<in> V" for rel
    using V that by (intro plaintext_rel_shadow_rel) (auto simp: user_rel_def)
  obtain srs w1 where srs: "set srs = shadow_rel ` V \<union> U" "distinct srs"
    and run: "decrypt_files C root key srs [] w1 = (Inr man, w')" and n1: "w_nodes w1 = w_nodes w"
    by (rule sync_shadow_to_plaintext_steps [OF assms(1,2)]) (use sh in simp)
  have vs: "versions_of srs = V"
    using srs(1) pr U by (auto simp: versions_of_def)
  have "\<forall>sr \<in> set srs. plaintext_rel_from_shadow_rel sr = None \<or> last sr \<noteq> ''.bin''"
    using srs(1) U V by (auto simp: shadow_rel_def)
  moreover have "plaintext_rel_from_shadow_rel sr = None \<Longrightarrow> last sr = ''.bin'' \<Longrightarrow> sr = []" for sr
    by (auto simp: plaintext_rel_from_shadow_rel_def strip_suffix_def split: if_splits)
  moreover have "[] \<notin> set srs"
    using srs(1) sh by (auto simp: shadow_rel_def share_files_def dom_def)
  ultimately have nb: "\<forall>sr \<in> set srs. last sr \<noteq> ''.bin''" by metis
  have ok: "\<forall>rel \<in> versions_of srs. user_rel rel \<and> tmp_rel rel \<notin> versions_of srs" using V by (simp add: vs)
  note D = decrypt_files_ok [OF run nb srs(2) ok, unfolded vs]
  then show "set man = V" "bset_ok man" by auto
  show "\<forall>q. q \<notin> (@) root ` V \<longrightarrow> fs_file w' q = (if q \<in> (\<lambda>rel. root @ tmp_rel rel) ` V then None else fs_file w q)"
    using D nodes_cong(2) [OF n1] by simp
  show "\<forall>rel \<in> V. fs_file w' (root @ rel) = shadow_content C key w root rel \<and> fs_file w' (root @ rel) \<noteq> None"
  proof
    fix rel assume rel: "rel \<in> V"
    with D srs(1) pr obtain pt where "decrypts_to C key w1 root (shadow_rel rel) pt" "fs_file w' (root @ rel) = Some pt"
      by blast
    moreover have "user_rel (shadow_rel rel)" "rel \<noteq> []" "last rel \<noteq> ''''"
      using V rel shadow_rel_user by (auto simp: user_rel_def)
    ultimately show "fs_file w' (root @ rel) = shadow_content C key w root rel \<and> fs_file w' (root @ rel) \<noteq> None"
      using nodes_cong(2) [OF n1] by (auto simp: decrypts_to_def shadow_content_def share_files_user_rel)
  qed
qed

section \<open>Deleting files of the old version\<close>

lemma remove_all_frame: "q \<notin> (@) root ` set rels \<Longrightarrow> fs_file (remove_all root rels w) q = fs_file w q"
  by (induction root rels w rule: remove_all.induct) (auto simp: try_remove_frame)

lemma remove_all_sub: "fs_file (remove_all root rels w) q = None \<or> fs_file (remove_all root rels w) q = fs_file w q"
proof (induction root rels w rule: remove_all.induct)
  case (2 root rel rels w)
  then show ?case using try_remove_sub [of "root @ rel" w q] by auto
qed simp

lemma remove_all_files:
  "fault_free w \<Longrightarrow> [] \<notin> set rels \<Longrightarrow>
     fs_file (remove_all root rels w) q = (if q \<in> (@) root ` set rels then None else fs_file w q)"
  by (induction root rels w rule: remove_all.induct) (auto simp: try_remove_files try_remove_ok)

text \<open>If the new manifest lists every file that is there, nothing is deleted.\<close>

lemma delete_orphans_keeps:
  assumes "dom (share_files w root) \<subseteq> set man"
  shows "share_files (delete_orphans root old man w) root = share_files w root"
proof
  fix rel
  let ?w = "delete_orphans root old man w"
  show "share_files ?w root rel = share_files w root rel"
  proof (cases "rel \<in> set man")
    case True
    then have "root @ rel \<notin> (@) root ` set (bset_difference old man)" by (auto simp: bset_difference_def)
    from remove_all_frame [OF this] show ?thesis by (simp add: share_files_user_rel delete_orphans_def)
  next
    case False
    with assms have "share_files w root rel = None" by blast
    then show ?thesis using remove_all_sub [of root "bset_difference old man" w "root @ rel"]
      by (auto simp: share_files_user_rel delete_orphans_def split: if_splits)
  qed
qed

section \<open>Properties\<close>

text \<open>The shadow an encryption leaves: the files of the share and names that decryption skips.\<close>

lemma synced_shadow:
  assumes "usable_ring C key" "prefix (kr_keys key) (kr_keys later)" and "fault_free w" "tree_ok w"
    and names: "\<forall>rel \<in> dom (share_files w root). '''' \<notin> set rel"
    and old: "\<forall>sr \<in> dom (share_files w (shadow_root root)). last sr \<noteq> ''.bin''"
    and man: "man = sorted_list_of_set (dom (share_files w root))"
    and run: "sync_plaintext_to_shadow C root key man w = (Inr u, w')"
  obtains U where "share_files w' root = share_files w root" "shadow_content C later w' root = share_files w root"
    "dom (share_files w' (shadow_root root)) = shadow_rel ` dom (share_files w root) \<union> U"
    "\<forall>sr \<in> U. plaintext_rel_from_shadow_rel sr = None"
proof -
  let ?V = "dom (share_files w root)" and ?sh = "shadow_root root"
  have man: "set man = ?V" "distinct man" using man finite_share_files [of w root] by simp_all
  note S = sync_plaintext_to_shadow_ok [OF assms(1-4) names man run]
  have "shadow_rel rel \<in> dom (share_files w' ?sh)" if "rel \<in> ?V" for rel
    using S(2) that by (auto simp: shadow_content_def fun_eq_iff split: if_splits option.splits)
  then have dom: "dom (share_files w' ?sh) = shadow_rel ` ?V \<union> (dom (share_files w' ?sh) - shadow_rel ` ?V)" by auto
  have "\<forall>sr \<in> dom (share_files w' ?sh) - shadow_rel ` ?V. plaintext_rel_from_shadow_rel sr = None"
  proof (intro ballI, rule ccontr)
    fix sr assume sr: "sr \<in> dom (share_files w' ?sh) - shadow_rel ` ?V" "plaintext_rel_from_shadow_rel sr \<noteq> None"
    then obtain rel where rel: "plaintext_rel_from_shadow_rel sr = Some rel" by auto
    have "rel \<in> ?V" using S(3) sr(1) rel man(1) by (auto simp: shadow_orphan_def)
    moreover have "last sr \<noteq> ''.bin''" using S(3) sr(1) man(1) old by blast
    ultimately show False using sr(1) plaintext_relD [OF rel] by auto
  qed
  with that [OF S(1,2) dom] show thesis by blast
qed

lemma shadow_content_cong:
  "share_files v (shadow_root root') = share_files w (shadow_root root) \<Longrightarrow>
     shadow_content C key v root' = shadow_content C key w root"
  by (simp add: shadow_content_def fun_eq_iff)

text \<open>Decrypting a shadow that holds the content \<open>m\<close>.\<close>

definition sendable :: "(path \<Rightarrow> byte list option) \<Rightarrow> bool" where
  "sendable m \<longleftrightarrow> finite (dom m) \<and> (\<forall>rel \<in> dom m. user_rel rel \<and> '''' \<notin> set rel \<and> tmp_rel rel \<notin> dom m)"

lemma sendable_share:
  "\<forall>rel \<in> dom (share_files w root). '''' \<notin> set rel \<and> tmp_rel rel \<notin> dom (share_files w root) \<Longrightarrow>
     sendable (share_files w root)"
  by (auto simp: sendable_def finite_share_files share_files_user_rel split: if_splits)

lemma sendable_last: "sendable m \<Longrightarrow> rel \<in> dom m \<Longrightarrow> user_rel rel \<and> last rel \<noteq> '''' \<and> tmp_rel rel \<notin> dom m"
  unfolding sendable_def user_rel_def by (metis last_in_set)

lemma shadow_received:
  assumes "sync_shadow_to_plaintext C root key v = (Inr man, v')" and "tree_ok v" and m: "sendable m"
    and dom: "dom (share_files v (shadow_root root)) = shadow_rel ` dom m \<union> U"
    and U: "\<forall>sr \<in> U. plaintext_rel_from_shadow_rel sr = None" and c: "shadow_content C key v root = m"
  shows "man = sorted_list_of_set (dom m)"
    "share_files v' root rel = (if rel \<in> dom m then m rel else if rel \<in> tmp_rel ` dom m then None else share_files v root rel)"
proof -
  have user: "\<forall>rel \<in> dom m. user_rel rel \<and> last rel \<noteq> '''' \<and> tmp_rel rel \<notin> dom m" using sendable_last [OF m] by blast
  note D = sync_shadow_to_plaintext_ok [OF assms(1,2) dom user U]
  show "man = sorted_list_of_set (dom m)"
    using D(1,2) m by (intro bset_ok_ext) (simp_all add: bset_ok_def sendable_def)
  show "share_files v' root rel = (if rel \<in> dom m then m rel else if rel \<in> tmp_rel ` dom m then None else share_files v root rel)"
  proof (cases "rel \<in> dom m")
    case True
    with user D(3) c show ?thesis by (simp add: share_files_user_rel [of v'])
  next
    case False
    then have "root @ rel \<notin> (@) root ` dom m" by auto
    moreover have "root @ rel \<in> (\<lambda>rel. root @ tmp_rel rel) ` dom m \<longleftrightarrow> rel \<in> tmp_rel ` dom m" by auto
    ultimately have "fs_file v' (root @ rel) = (if rel \<in> tmp_rel ` dom m then None else fs_file v (root @ rel))"
      using D(4) by metis
    with False show ?thesis by (simp only: share_files_user_rel [of v'] share_files_user_rel [of v] if_False if_cancel split: if_split) simp
  qed
qed

text \<open>If every ciphertext can be opened, decryption fails only when a system call does.\<close>

lemma fs_call_errors:
  "fs_read p w = (Inl e, w') \<Longrightarrow> e = IoError" "fs_write p bs w = (Inl e, w') \<Longrightarrow> e = IoError"
  "fs_rename p q w = (Inl e, w') \<Longrightarrow> e = IoError" "fs_create_dir_all p w = (Inl e, w') \<Longrightarrow> e = IoError"
proof -
  have "mk_dirs q xs w = (Inl e, w') \<Longrightarrow> e = IoError" for q xs w
    by (induction q xs w rule: mk_dirs.induct) (auto split: option.splits node.splits)
  then show "fs_create_dir_all p w = (Inl e, w') \<Longrightarrow> e = IoError"
    by (auto simp: fs_create_dir_all_def syscall_def split: if_splits)
qed (auto simp: fs_read_def fs_write_def fs_rename_def syscall_def split: if_splits option.splits nat.splits node.splits)

lemma decrypt_one_err:
  assumes "decrypt_files C root key (sr # srs) man w = (Inl e, w')"
    and "plaintext_rel_from_shadow_rel sr = Some rel" and "user_rel rel" and "decrypts_to C key w root sr pt"
  shows "e = IoError \<or> (\<exists>w1. fs_file w1 = (fs_file w)(root @ tmp_rel rel := None, root @ rel \<mapsto> pt) \<and>
    decrypt_files C root key srs (bset_insert rel man) w1 = (Inl e, w'))"
proof (cases "e = IoError")
  case e: False
  have ne: "rel \<noteq> []" using assms(3) by (simp add: user_rel_def)
  obtain ct where ct: "fs_file w (shadow_root root @ sr) = Some ct" "decrypt C key ct = Inr pt"
    using assms(4) by (auto simp: decrypts_to_def)
  obtain r w1 where 1: "fs_read (shadow_root root @ sr) w = (r, w1)" by (metis prod.exhaust)
  obtain r2 w2 where 2: "fs_create_dir_all (butlast (root @ rel)) w1 = (r2, w2)" by (metis prod.exhaust)
  obtain r3 w3 where 3: "fs_write (root @ tmp_rel rel) pt w2 = (r3, w3)" by (metis prod.exhaust)
  obtain r4 w4 where 4: "fs_rename (root @ tmp_rel rel) (root @ rel) w3 = (r4, w4)" by (metis prod.exhaust)
  have r: "r = Inr ct" using 1 ct(1) fs_read_ok [of "shadow_root root @ sr" w] fs_call_errors(1) assms(1,2) e
    by (cases r) (fastforce simp: Let_def io_bind_def)+
  have r2: "r2 = Inr ()" using 1 2 r ct(2) fs_call_errors(4) assms(1,2) e ne
    by (cases r2) (auto simp: Let_def io_bind_def)
  have r3: "r3 = Inr ()" using 1 2 3 r r2 ct(2) fs_call_errors(2) assms(1,2) e ne
    by (cases r3) (auto simp: Let_def io_bind_def tmp_path)
  have r4: "r4 = Inr ()" using 1 2 3 4 r r2 r3 ct(2) fs_call_errors(3) assms(1,2) e ne
    by (cases r4) (auto simp: Let_def io_bind_def tmp_path)
  have d: "decrypt_files C root key srs (bset_insert rel man) w4 = (Inl e, w')"
    using assms(1,2) 1 2 3 4 r r2 r3 r4 ct(2) ne by (simp add: Let_def io_bind_def tmp_path)
  have "fs_file w2 = fs_file w"
    using 1 2 fs_read_files [of "shadow_root root @ sr" w] fs_create_dir_all_files [of "butlast (root @ rel)" w1] by simp
  moreover have "tmp_rel rel \<noteq> rel"
    using ne by (simp add: tmp_rel_def) (metis append_butlast_last_id append_self_conv last_snoc list.distinct(1))
  ultimately have "fs_file w4 = (fs_file w)(root @ tmp_rel rel := None, root @ rel \<mapsto> pt)"
    using fs_rename_ok [OF 4 [unfolded r4]] fs_write_ok [OF 3 [unfolded r3]] by auto
  with d show ?thesis by blast
qed simp

lemma decrypt_files_err:
  "decrypt_files C root key srs man w = (Inl e, w') \<Longrightarrow>
   \<forall>sr \<in> set srs. \<forall>rel. plaintext_rel_from_shadow_rel sr = Some rel \<longrightarrow>
     user_rel rel \<and> (\<exists>pt. decrypts_to C key w root sr pt) \<Longrightarrow> e = IoError"
proof (induction srs arbitrary: man w)
  case (Cons sr srs)
  show ?case
  proof (cases "plaintext_rel_from_shadow_rel sr")
    case None
    show ?thesis by (rule Cons.IH [of man w]) (use Cons.prems None in auto)
  next
    case (Some rel)
    then obtain pt where rel: "user_rel rel" and pt: "decrypts_to C key w root sr pt" using Cons.prems(2) by auto
    from decrypt_one_err [OF Cons.prems(1) Some rel pt] show ?thesis
    proof (elim disjE exE conjE)
      fix w1 assume f1: "fs_file w1 = (fs_file w)(root @ tmp_rel rel := None, root @ rel \<mapsto> pt)"
        and d: "decrypt_files C root key srs (bset_insert rel man) w1 = (Inl e, w')"
      have "decrypts_to C key w1 root sr' p = decrypts_to C key w root sr' p" for sr' p
        by (rule decrypts_to_outside [OF rel f1])
      with Cons.IH [OF d] Cons.prems(2) show ?thesis by simp
    qed
  qed
qed simp

lemma shadow_received_err:
  assumes "sync_shadow_to_plaintext C root key v = (Inl e, v')" and "tree_ok v" and m: "sendable m"
    and dom: "dom (share_files v (shadow_root root)) = shadow_rel ` dom m \<union> U"
    and U: "\<forall>sr \<in> U. plaintext_rel_from_shadow_rel sr = None" and c: "shadow_content C key v root = m"
  shows "e = IoError"
proof (cases "fst (collect (shadow_root root) v)")
  case (Inl e')
  then obtain v1 where "collect (shadow_root root) v = (Inl e', v1)" by (metis prod.collapse)
  with assms(1) collect_err [of "shadow_root root" v e' v1] show ?thesis
    by (auto simp: sync_shadow_to_plaintext_def Let_def split: if_splits)
next
  case (Inr srs)
  then obtain v1 where col: "collect (shadow_root root) v = (Inr srs, v1)" by (metis prod.collapse)
  then have d: "decrypt_files C root key srs [] v1 = (Inl e, v')"
    using assms(1) by (auto simp: sync_shadow_to_plaintext_def Let_def split: if_splits)
  have f: "fs_file v1 = fs_file v" by (rule nodes_cong(2) [OF keeps_nodesD [OF collect_keeps(1) col]])
  have srs: "set srs = dom (share_files v (shadow_root root))" using collect_ok [OF col] assms(2) by (simp add: tree_ok_def)
  have "user_rel rel \<and> (\<exists>pt. decrypts_to C key v1 root sr pt)"
    if sr: "sr \<in> set srs" "plaintext_rel_from_shadow_rel sr = Some rel" for sr rel
  proof -
    from sr U srs dom obtain r where r: "r \<in> dom m" "sr = shadow_rel r" by auto
    note l = sendable_last [OF m r(1)]
    then have "rel = r" using sr(2) r(2) plaintext_rel_shadow_rel [of r] by (simp add: user_rel_def)
    moreover have "\<exists>pt. decrypts_to C key v root sr pt"
      using r c [THEN fun_cong, of r]
      by (auto simp: shadow_content_def decrypts_to_def share_files_user_rel split: if_splits option.splits sum.splits)
    ultimately show ?thesis using l by (simp add: decrypts_to_def f)
  qed
  with decrypt_files_err [OF d] show ?thesis by blast
qed

text \<open>
  C6. Content survives the shadow: what one peer encrypts into its shadow, another peer
  that received that shadow and holds the ring -- or a later one -- decrypts to the same
  files and the same manifest; its other files stay, except those that have the name of
  a temporary file.  Encrypting does not change the share itself.
\<close>

theorem shadow_round_trip:
  assumes "usable_ring C key" "prefix (kr_keys key) (kr_keys later)"
    and "fault_free w" "tree_ok w" "\<forall>rel \<in> dom (share_files w root). '''' \<notin> set rel \<and> tmp_rel rel \<notin> dom (share_files w root)"
    and "\<forall>sr \<in> dom (share_files w (shadow_root root)). last sr \<noteq> ''.bin''"
    and "man = sorted_list_of_set (dom (share_files w root))"
    and "sync_plaintext_to_shadow C root key man w = (Inr (), w')"
    and "tree_ok v" "share_files v (shadow_root root') = share_files w' (shadow_root root)"
    and "sync_shadow_to_plaintext C root' later v = (Inr man', v')"
  shows "share_files w' root = share_files w root \<and> man' = man \<and>
    share_files v' root' rel = (if rel \<in> set man then share_files w root rel
       else if rel \<in> tmp_rel ` set man then None else share_files v root' rel)"
proof -
  let ?m = "share_files w root"
  have names: "\<forall>rel \<in> dom ?m. '''' \<notin> set rel" using assms(5) by blast
  obtain U where S: "share_files w' root = ?m" "shadow_content C later w' root = ?m"
    "dom (share_files w' (shadow_root root)) = shadow_rel ` dom ?m \<union> U" "\<forall>sr \<in> U. plaintext_rel_from_shadow_rel sr = None"
    by (rule synced_shadow [OF assms(1-4) names assms(6-8)])
  have c: "shadow_content C later v root' = ?m" using shadow_content_cong [OF assms(10), of C later] S(2) by simp
  note R = shadow_received [OF assms(11,9) sendable_share [OF assms(5)] S(3) [folded assms(10)] S(4) c]
  show ?thesis using S(1) R assms(7) finite_share_files [of w root] by simp
qed

text \<open>A sender with one file and a receiver that was given its shadow.\<close>

definition demo_sender :: world where
  "demo_sender = calm_world [([''r''], NDir), ([''r'', ''a''], NFile 420 [1, 2])]"

definition demo_ring :: keyring where
  "demo_ring = \<lparr>kr_keys = [replicate 32 7]\<rparr>"

definition demo_sent :: world where
  "demo_sent = snd (sync_plaintext_to_shadow demo_crypto [''r''] demo_ring [[''a'']] demo_sender)"

definition demo_receiver :: world where
  "demo_receiver = calm_world (([''q'', ''b''], NFile 420 [9]) #
     map (\<lambda>(p, n). (''q'' # tl p, n)) (filter (\<lambda>(p, _). p \<noteq> [''r'', ''a'']) (w_nodes demo_sent)))"

lemma demo_sent_nodes: "w_nodes demo_sent =
   [([''r''], NDir), ([''r'', ''a''], NFile 420 [1, 2]), ([''r'', ''.peerdup''], NDir),
    ([''r'', ''.peerdup'', ''encrypted''], NDir),
    ([''r'', ''.peerdup'', ''encrypted'', ''a.bin''],
     NFile 420 ([1, 0, 0, 0, 0, 0, 0, 0] @ map of_nat [0..<24] @ [1, 2] @ replicate 16 0))]"
  by code_simp

lemma demo_receiver_nodes: "w_nodes demo_receiver =
   [([''q'', ''b''], NFile 420 [9]), ([''q''], NDir), ([''q'', ''.peerdup''], NDir),
    ([''q'', ''.peerdup'', ''encrypted''], NDir),
    ([''q'', ''.peerdup'', ''encrypted'', ''a.bin''],
     NFile 420 ([1, 0, 0, 0, 0, 0, 0, 0] @ map of_nat [0..<24] @ [1, 2] @ replicate 16 0))]"
  by (simp add: demo_receiver_def demo_sent_nodes calm_world_def)

lemma demo_sender_files: "share_files demo_sender [''r''] = [[''a''] \<mapsto> [1, 2]]"
  by (auto simp: share_files_def fs_file_def fs_at_def demo_sender_def calm_world_def PEERDUP_DIR_NAME_def fun_eq_iff)

lemma demo_sender_shadow: "share_files demo_sender (shadow_root [''r'']) = (\<lambda>_. None)"
  by (auto simp: share_files_def fs_file_def fs_at_def demo_sender_def calm_world_def shadow_root_def fun_eq_iff)

lemma demo_shadows: "share_files demo_receiver (shadow_root [''q'']) = share_files demo_sent (shadow_root [''r''])"
  by (auto simp: share_files_def fs_file_def fs_at_def demo_receiver_nodes demo_sent_nodes shadow_root_def fun_eq_iff
      PEERDUP_DIR_NAME_def)

lemma demo_tree_ok: "tree_ok demo_sender" "tree_ok demo_receiver"
  by (auto intro!: fs_wf_list simp: tree_ok_def nodes_ok_def demo_sender_def calm_world_def demo_receiver_nodes)

theorem shadow_round_trip_witness:
  "\<exists>v'. sync_shadow_to_plaintext demo_crypto [''q''] demo_ring demo_receiver = (Inr [[''a'']], v') \<and>
     share_files v' [''q''] [''a''] = Some [1, 2] \<and> share_files v' [''q''] [''b''] = Some [9]"
proof -
  let ?v = "snd (sync_shadow_to_plaintext demo_crypto [''q''] demo_ring demo_receiver)"
  have run: "sync_plaintext_to_shadow demo_crypto [''r''] demo_ring [[''a'']] demo_sender = (Inr (), demo_sent)"
    unfolding demo_sent_def by (rule run_eq) code_simp
  have dec: "sync_shadow_to_plaintext demo_crypto [''q''] demo_ring demo_receiver = (Inr [[''a'']], ?v)"
    by (rule run_eq) code_simp
  have ring: "usable_ring demo_crypto demo_ring"
    by (simp add: usable_ring_def demo_aead_ok demo_ring_def keys_ok_def KEY_LEN_def)
  have ff: "fault_free demo_sender" by (simp add: demo_sender_def)
  have names: "\<forall>rel \<in> dom (share_files demo_sender [''r'']).
      '''' \<notin> set rel \<and> tmp_rel rel \<notin> dom (share_files demo_sender [''r''])"
    by (simp add: demo_sender_files tmp_rel_def)
  have shadow: "\<forall>sr \<in> dom (share_files demo_sender (shadow_root [''r''])). last sr \<noteq> ''.bin''"
    by (simp add: demo_sender_shadow)
  have man: "[[''a'']] = sorted_list_of_set (dom (share_files demo_sender [''r'']))"
    by (simp add: demo_sender_files)
  have "share_files ?v [''q''] rel = (if rel \<in> set [[''a'']] then share_files demo_sender [''r''] rel
      else if rel \<in> tmp_rel ` set [[''a'']] then None else share_files demo_receiver [''q''] rel)" for rel
    using shadow_round_trip [OF ring prefix_order.refl ff demo_tree_ok(1) names shadow man run
          demo_tree_ok(2) demo_shadows dec] by blast
  from this [of "[''a'']"] this [of "[''b'']"] dec show ?thesis
    by (intro exI [of _ ?v]) (simp add: demo_sender_files tmp_rel_def share_files_def fs_file_def fs_at_def
      demo_receiver_nodes PEERDUP_DIR_NAME_def)
qed

end
