(* ===== verification/Endpoint.thy ===== *)
theory Endpoint
  imports Prelude
begin

text \<open>
  The endpoints of an announce: \<^verbatim>\<open>src/daemon.rs\<close> formats each as \<open>host:port\<close> and keeps the
  ones that \<open>str::parse::<SocketAddr>\<close> accepts.  This is the standard library's parser, as a
  recogniser: each reader consumes a prefix and returns the rest.
\<close>

definition dec_digit :: "char \<Rightarrow> nat option" where
  "dec_digit c = (let n = of_char c in if 48 \<le> n \<and> n \<le> 57 then Some (n - 48) else None)"

definition hex_digit_val :: "char \<Rightarrow> nat option" where
  "hex_digit_val c = (let n = of_char c in
     if 48 \<le> n \<and> n \<le> 57 then Some (n - 48)
     else if 97 \<le> n \<and> n \<le> 102 then Some (n - 87)
     else if 65 \<le> n \<and> n \<le> 70 then Some (n - 55)
     else None)"

definition read_number ::
  "(char \<Rightarrow> nat option) \<Rightarrow> int \<Rightarrow> nat option \<Rightarrow> bool \<Rightarrow> int \<Rightarrow> string \<Rightarrow> string option" where
  "read_number digit radix max_digits allow_zero_prefix bound s =
     (let ds = takeWhile (\<lambda>c. digit c \<noteq> None) s;
          v = foldl (\<lambda>a c. radix * a + int (the (digit c))) 0 ds in
      if ds = [] then None
      else if (case max_digits of None \<Rightarrow> False | Some m \<Rightarrow> length ds > m) then None
      else if v > bound then None
      else if \<not> allow_zero_prefix \<and> hd ds = CHR ''0'' \<and> length ds > 1 then None
      else Some (drop (length ds) s))"

definition read_char :: "char \<Rightarrow> string \<Rightarrow> string option" where
  "read_char c s = (case s of d # r \<Rightarrow> if c = d then Some r else None | [] \<Rightarrow> None)"

definition read_octet :: "string \<Rightarrow> string option" where
  "read_octet = read_number dec_digit 10 (Some 3) False 255"

definition read_ipv4 :: "string \<Rightarrow> string option" where
  "read_ipv4 s =
     Option.bind (read_octet s) (\<lambda>s. Option.bind (read_char CHR ''.'' s) (\<lambda>s.
     Option.bind (read_octet s) (\<lambda>s. Option.bind (read_char CHR ''.'' s) (\<lambda>s.
     Option.bind (read_octet s) (\<lambda>s. Option.bind (read_char CHR ''.'' s) (\<lambda>s.
     read_octet s))))))"

definition read_port :: "string \<Rightarrow> string option" where
  "read_port s = Option.bind (read_char CHR '':'' s) (read_number dec_digit 10 None True 65535)"

text \<open>A separator in front of every group but the first.\<close>

definition read_separated :: "nat \<Rightarrow> (string \<Rightarrow> string option) \<Rightarrow> string \<Rightarrow> string option" where
  "read_separated i f s = (if i > 0 then Option.bind (read_char CHR '':'' s) f else f s)"

text \<open>Groups \<open>i\<close>, ..., up to \<open>i + n\<close>: how many were read, whether an IPv4 address ended them.\<close>

fun read_groups :: "nat \<Rightarrow> nat \<Rightarrow> string \<Rightarrow> nat \<times> bool \<times> string" where
  "read_groups i 0 s = (i, False, s)"
| "read_groups i (Suc n) s =
     (case (if n > 0 then read_separated i read_ipv4 s else None) of
        Some r \<Rightarrow> (i + 2, True, r)
      | None \<Rightarrow> (case read_separated i (read_number hex_digit_val 16 (Some 4) True 65535) s of
          Some r \<Rightarrow> read_groups (Suc i) n r
        | None \<Rightarrow> (i, False, s)))"

definition read_ipv6 :: "string \<Rightarrow> string option" where
  "read_ipv6 s = (case read_groups 0 8 s of (head_size, head_ipv4, r) \<Rightarrow>
     if head_size = 8 then Some r
     else if head_ipv4 then None
     else Option.bind (read_char CHR '':'' r) (\<lambda>r. Option.bind (read_char CHR '':'' r) (\<lambda>r.
       case read_groups 0 (8 - (head_size + 1)) r of (_, _, r') \<Rightarrow> Some r')))"

definition read_scope_id :: "string \<Rightarrow> string" where
  "read_scope_id s = (case Option.bind (read_char CHR ''%'' s) (read_number dec_digit 10 None True 4294967295) of
     Some r \<Rightarrow> r | None \<Rightarrow> s)"

definition read_socket_addr :: "string \<Rightarrow> string option" where
  "read_socket_addr s = (case Option.bind (read_ipv4 s) read_port of
     Some r \<Rightarrow> Some r
   | None \<Rightarrow>
       Option.bind (read_char CHR ''['' s) (\<lambda>s. Option.bind (read_ipv6 s) (\<lambda>s.
       Option.bind (read_char CHR '']'' (read_scope_id s)) read_port)))"

definition socket_addr_ok :: "string \<Rightarrow> bool" where
  "socket_addr_ok s \<longleftrightarrow> read_socket_addr s = Some []"

type_synonym endpoint = "string \<times> 16 word"

definition usable_peers :: "endpoint list \<Rightarrow> string list" where
  "usable_peers bt_endpoints =
     filter socket_addr_ok (map (\<lambda>(host, port). host @ '':'' @ show_nat (unat port)) bt_endpoints)"

text \<open>What a peer announces of itself is usable, for every port.\<close>

lemma foldl_digits_value:
  assumes "\<And>c. c \<in> set s \<Longrightarrow> dec_digit c \<noteq> None"
  shows "foldl (\<lambda>a c. 10 * a + int (the (dec_digit c))) 0 s = int (digits_value s)"
  using assms
proof (induction s rule: rev_induct)
  case (snoc c s)
  have "the (dec_digit c) = of_char c - 48"
    using snoc.prems [of c] by (auto simp: dec_digit_def Let_def split: if_splits)
  with snoc show ?case by (simp add: digits_value_def)
qed (simp add: digits_value_def)

lemma read_port_show: "n \<le> 65535 \<Longrightarrow> read_port (CHR '':'' # show_nat n) = Some []"
proof -
  assume n: "n \<le> 65535"
  have d: "dec_digit c \<noteq> None" if "c \<in> set (show_nat n)" for c
    using show_nat_digits [OF that] by (simp add: dec_digit_def Let_def)
  then have tw: "takeWhile (\<lambda>c. dec_digit c \<noteq> None) (show_nat n) = show_nat n"
    by (simp add: takeWhile_eq_all_conv)
  have v: "foldl (\<lambda>a c. 10 * a + int (the (dec_digit c))) 0 (show_nat n) = int n"
    using foldl_digits_value [of "show_nat n"] d by simp
  show ?thesis
    unfolding read_port_def read_char_def read_number_def Let_def
    using n by (simp add: tw v del: not_None_eq takeWhile_eq_all_conv)
qed

lemma own_endpoint_usable: "usable_peers [(''127.0.0.1'', port)] = [''127.0.0.1:'' @ show_nat (unat port)]"
proof -
  have "unat port < 2 ^ LENGTH(16)" by (rule unsigned_less)
  then have p: "read_port (CHR '':'' # show_nat (unat port)) = Some []" by (intro read_port_show) simp
  have "read_octet (CHR ''1'' # CHR ''2'' # CHR ''7'' # CHR ''.'' # r) = Some (CHR ''.'' # r)"
    "read_octet (CHR ''0'' # CHR ''.'' # r) = Some (CHR ''.'' # r)"
    "read_octet (CHR ''1'' # CHR '':'' # r) = Some (CHR '':'' # r)" for r
    by (simp_all add: read_octet_def read_number_def dec_digit_def Let_def)
  then have "read_ipv4 (''127.0.0.1'' @ CHR '':'' # show_nat (unat port)) = Some (CHR '':'' # show_nat (unat port))"
    by (simp add: read_ipv4_def read_char_def)
  with p show ?thesis by (simp add: usable_peers_def socket_addr_ok_def read_socket_addr_def)
qed

end
