(* ===== verification/Replica.thy ===== *)
theory Replica
  imports Clock "HOL-Library.Product_Lexorder"
begin

text \<open>
  What synchronising a share promises.  The specification is an edit log: every replica
  knows a set of edits, learns sets that others told, and shows the edit with the
  greatest time stamp (the greater version hash on a tie) among those it knows.  Replicas
  that know the same edits therefore show the same version.

  A replica of \<^verbatim>\<open>src/daemon.rs\<close> keeps no such set but a vector clock, a time stamp and a
  version hash.  The locale \<open>replica_loop\<close> is the interface between a loop that keeps
  versions and the network: each step leaves the version, edits it, or takes in an
  announced one by \<open>received\<close>, the decision \<open>sync_loop\<close> makes.  In it the network of such
  loops is shown to implement the edit log, as long as an edit gets a later time stamp
  than the version it replaces and no counter wraps around.
\<close>

section \<open>Versions\<close>

record version =
  v_clock :: vector_clock
  v_ts :: timestamp
  v_hash :: string

definition lww_we_win :: "timestamp \<Rightarrow> string \<Rightarrow> timestamp \<Rightarrow> string \<Rightarrow> bool" where
  "lww_we_win local_ts local_vhash remote_ts remote_vhash =
     (if remote_ts < local_ts then True
      else if local_ts < remote_ts then False
      else remote_vhash < local_vhash)"

definition version_clock :: "version option \<Rightarrow> vector_clock" where
  "version_clock l = (case l of None \<Rightarrow> vc_new | Some v \<Rightarrow> v_clock v)"

definition edited :: "string \<Rightarrow> timestamp \<Rightarrow> string \<Rightarrow> version option \<Rightarrow> version" where
  "edited me ts vh l = \<lparr>v_clock = increment (version_clock l) me, v_ts = ts, v_hash = vh\<rparr>"

definition taken :: "version \<Rightarrow> version option \<Rightarrow> version" where
  "taken r l = \<lparr>v_clock = merge (version_clock l) (v_clock r), v_ts = v_ts r, v_hash = v_hash r\<rparr>"

definition received :: "version \<Rightarrow> version option \<Rightarrow> version" where
  "received r l = (case l of
     None \<Rightarrow> taken r None
   | Some v \<Rightarrow> (case compare (v_clock v) (v_clock r) of
       Equal \<Rightarrow> v
     | SelfDominates \<Rightarrow> v
     | OtherDominates \<Rightarrow> taken r l
     | Concurrent \<Rightarrow>
         if lww_we_win (v_ts v) (v_hash v) (v_ts r) (v_hash r)
         then v\<lparr>v_clock := merge (v_clock v) (v_clock r)\<rparr> else taken r l))"

abbreviation v_key :: "version \<Rightarrow> timestamp \<times> string" where
  "v_key v \<equiv> (v_ts v, v_hash v)"

lemma lww_iff: "lww_we_win t h t' h' \<longleftrightarrow> (t', h') < (t, h)"
  by (auto simp: lww_we_win_def)

section \<open>The edit log\<close>

type_synonym edit = "string \<times> nat"

text \<open>The edits of each peer in order, what each replica knows, and what has been told.\<close>

record edit_log =
  el_edits :: "string \<Rightarrow> (timestamp \<times> string) list"
  el_known :: "string \<Rightarrow> edit set"
  el_told :: "edit set set"

definition edit_key :: "edit_log \<Rightarrow> edit \<Rightarrow> timestamp \<times> string" where
  "edit_key sp x = el_edits sp (fst x) ! (snd x - 1)"

definition shown :: "edit_log \<Rightarrow> edit set \<Rightarrow> timestamp \<times> string" where
  "shown sp K = Max (edit_key sp ` K)"

inductive log_step :: "edit_log \<Rightarrow> edit_log \<Rightarrow> bool" where
  Edit: "(\<And>x. x \<in> el_known sp p \<Longrightarrow> edit_key sp x < key) \<Longrightarrow>
    log_step sp (sp\<lparr>el_edits := (el_edits sp)(p := el_edits sp p @ [key]),
      el_known := (el_known sp)(p := insert (p, Suc (length (el_edits sp p))) (el_known sp p))\<rparr>)"
| Learn: "K \<in> el_told sp \<Longrightarrow>
    log_step sp (sp\<lparr>el_known := (el_known sp)(p := el_known sp p \<union> K)\<rparr>)"
| Tell: "log_step sp (sp\<lparr>el_told := insert (el_known sp p) (el_told sp)\<rparr>)"

definition log_start :: edit_log where
  "log_start = \<lparr>el_edits = (\<lambda>_. []), el_known = (\<lambda>_. {}), el_told = {}\<rparr>"

text \<open>Only edits that were made are known, and everyone knows their own.\<close>

definition made :: "edit_log \<Rightarrow> edit set" where
  "made sp = {(p, k). 0 < k \<and> k \<le> length (el_edits sp p)}"

definition log_inv :: "edit_log \<Rightarrow> bool" where
  "log_inv sp \<longleftrightarrow> (\<forall>K \<in> range (el_known sp) \<union> el_told sp. finite K \<and> K \<subseteq> made sp) \<and>
     (\<forall>p k. (p, k) \<in> made sp \<longrightarrow> (p, k) \<in> el_known sp p)"

lemma log_inv_start: "log_inv log_start"
  by (auto simp: log_inv_def log_start_def made_def)

lemma made_edit:
  "made (sp\<lparr>el_edits := (el_edits sp)(p := el_edits sp p @ [key]), el_known := kn\<rparr>) =
     insert (p, Suc (length (el_edits sp p))) (made sp)"
  by (auto simp: made_def split: if_splits)

interpretation log_run: step_invariant log_step log_inv
proof
  fix sp sp'
  assume "log_step sp sp'" and "log_inv sp"
  then show "log_inv sp'"
  proof (induction rule: log_step.induct)
    case (Edit sp p key)
    have "(p, Suc (length (el_edits sp p))) \<notin> made sp" by (simp add: made_def)
    with Edit(2) show ?case unfolding log_inv_def made_edit by (auto simp: image_iff)
  next
    case (Learn K sp p)
    then show ?case by (auto simp: log_inv_def made_def image_iff)
  next
    case (Tell sp p)
    then show ?case by (auto simp: log_inv_def made_def image_iff)
  qed
qed

text \<open>What a set of edits shows does not change when later edits are appended.\<close>

lemma edit_key_append:
  "x \<in> made sp \<Longrightarrow>
   edit_key (sp\<lparr>el_edits := (el_edits sp)(p := el_edits sp p @ [key]), el_known := kn\<rparr>) x = edit_key sp x"
  by (cases x) (auto simp: edit_key_def made_def nth_append)

lemma shown_append:
  "K \<subseteq> made sp \<Longrightarrow>
   shown (sp\<lparr>el_edits := (el_edits sp)(p := el_edits sp p @ [key]), el_known := kn\<rparr>) K = shown sp K"
  unfolding shown_def by (rule arg_cong [where f = Max]) (auto intro!: image_cong edit_key_append)

section \<open>Clocks as sets of edits\<close>

definition counted :: "vector_clock \<Rightarrow> edit set" where
  "counted c = {(p, k). 0 < k \<and> k \<le> unat (count c p)}"

lemma counted_new [simp]: "counted vc_new = {}"
  by (auto simp: counted_def count_def vc_new_def)

lemma unat_max: "unat (max a b) = max (unat a) (unat (b :: u64))"
  by (simp add: max_def word_le_nat_alt)

lemma counted_merge: "btree_ok b \<Longrightarrow> counted (merge a b) = counted a \<union> counted b"
  by (auto simp: counted_def count_merge unat_max)

lemma counted_mono: "(\<forall>p. count a p \<le> count b p) \<Longrightarrow> counted a \<subseteq> counted b"
  by (auto simp: counted_def word_le_nat_alt) (meson order_trans)

lemma counted_inject: "counted a = counted b \<longleftrightarrow> (\<forall>p. count a p = count b p)"
proof
  assume eq: "counted a = counted b"
  show "\<forall>p. count a p = count b p"
  proof
    fix p
    have "k \<le> unat (count a p) \<longleftrightarrow> k \<le> unat (count b p)" if "0 < k" for k
      using eq that by (auto simp: counted_def set_eq_iff)
    then have "unat (count a p) = unat (count b p)" by (metis linorder_not_less neq0_conv order_eq_iff)
    then show "count a p = count b p" by (rule word_unat_eq_iff [THEN iffD2])
  qed
qed (simp add: counted_def)

lemma counted_compare: "counted a = counted b \<longleftrightarrow> compare a b = Equal"
  by (simp add: counted_inject vc.cmp_Equal)

lemma unat_plus_one: "x \<noteq> - 1 \<Longrightarrow> unat (x + 1) = Suc (unat x)" for x :: u64
  by (metis add.commute Suc_eq_plus1_left add.inverse_inverse eq_neg_iff_add_eq_0 unatSuc)

lemma counted_increment:
  "count c p \<noteq> - 1 \<Longrightarrow> counted (increment c p) = insert (p, Suc (unat (count c p))) (counted c)"
  by (auto simp: counted_def increment_def unat_plus_one split: if_splits)

lemma finite_counted: "finite (counted c)"
proof (rule finite_subset)
  show "counted c \<subseteq> (\<Union>p \<in> fst ` set c. {p} \<times> {..unat (count c p)})"
  proof
    fix x assume "x \<in> counted c"
    then obtain p k where x: "x = (p, k)" "0 < k" "k \<le> unat (count c p)" by (auto simp: counted_def)
    then have "count c p \<noteq> 0" by auto
    then have "p \<in> fst ` set c" by (auto simp: count_def split: option.splits) (metis fst_conv image_eqI map_of_SomeD)
    with x show "x \<in> (\<Union>p \<in> fst ` set c. {p} \<times> {..unat (count c p)})" by auto
  qed
qed simp

section \<open>A replica shows what it knows\<close>

definition represents :: "edit_log \<Rightarrow> edit set \<Rightarrow> version option \<Rightarrow> bool" where
  "represents sp K l = (case l of
     None \<Rightarrow> K = {}
   | Some v \<Rightarrow> btree_ok (v_clock v) \<and> counted (v_clock v) = K \<and> K \<noteq> {} \<and> v_key v = shown sp K)"

lemma represents_Some: "represents sp K (Some v) \<longleftrightarrow>
    btree_ok (v_clock v) \<and> counted (v_clock v) = K \<and> K \<noteq> {} \<and> v_key v = shown sp K"
  by (simp add: represents_def)

lemma shown_upd [simp]:
  "shown (sp\<lparr>el_known := f\<rparr>) = shown sp" "shown (sp\<lparr>el_told := t\<rparr>) = shown sp"
  by (simp_all add: shown_def fun_eq_iff edit_key_def)

lemma represents_upd [simp]:
  "represents (sp\<lparr>el_known := f\<rparr>) = represents sp" "represents (sp\<lparr>el_told := t\<rparr>) = represents sp"
  by (simp_all add: represents_def fun_eq_iff split: option.split)

lemma represents_clock: "represents sp K l \<Longrightarrow> counted (version_clock l) = K \<and> btree_ok (version_clock l) \<and> finite K"
  using counted_new btree_ok_Nil by (auto simp: represents_def version_clock_def finite_counted split: option.splits)
    (simp_all add: vc_new_def)

lemma shown_Un: "finite K \<Longrightarrow> finite L \<Longrightarrow> K \<noteq> {} \<Longrightarrow> L \<noteq> {} \<Longrightarrow> shown sp (K \<union> L) = max (shown sp K) (shown sp L)"
  by (simp add: shown_def image_Un Max_Un)

text \<open>Taking in a version is learning its edits: the decision of the loop is the maximum.\<close>

text \<open>
  The version a replica holds after it received \<open>r\<close>: the sets of edits are joined, and the
  greater of the two shown edits is shown.
\<close>

lemma represents_taken:
  assumes "represents sp K l" and "represents sp L (Some r)" and "shown sp (K \<union> L) = shown sp L"
  shows "represents sp (K \<union> L) (Some (taken r l))"
  using assms(2) [unfolded represents_Some] represents_clock [OF assms(1)] assms(3)
  by (auto simp: represents_Some taken_def counted_merge btree_ok_merge)

lemma represents_concurrent:
  assumes l: "represents sp K (Some v)" and r: "represents sp L (Some r)"
  shows "represents sp (K \<union> L) (Some (if lww_we_win (v_ts v) (v_hash v) (v_ts r) (v_hash r)
    then v\<lparr>v_clock := merge (v_clock v) (v_clock r)\<rparr> else taken r (Some v)))"
proof -
  note V = l [unfolded represents_Some] and R = r [unfolded represents_Some]
  have fin: "finite K" "finite L" using V R finite_counted by auto
  have mx: "shown sp (K \<union> L) = max (shown sp K) (shown sp L)" using shown_Un fin V R by blast
  show ?thesis
  proof (cases "v_key r < v_key v")
    case True
    then have "shown sp L < shown sp K" using V R by simp
    then have "shown sp (K \<union> L) = shown sp K" using mx by (simp add: max_absorb1)
    moreover have "counted (merge (v_clock v) (v_clock r)) = K \<union> L" "btree_ok (merge (v_clock v) (v_clock r))"
      using V R by (simp_all add: counted_merge btree_ok_merge)
    ultimately show ?thesis using True V R by (simp add: lww_iff represents_Some)
  next
    case False
    then have "shown sp K \<le> shown sp L" using V R by simp
    then have "shown sp (K \<union> L) = shown sp L" using mx by (simp add: max_absorb2)
    then have "represents sp (K \<union> L) (Some (taken r (Some v)))" by (rule represents_taken [OF l r])
    moreover have "\<not> lww_we_win (v_ts v) (v_hash v) (v_ts r) (v_hash r)" using False by (simp only: lww_iff) simp
    ultimately show ?thesis by simp
  qed
qed

lemma represents_received:
  assumes l: "represents sp K l" and r: "represents sp L (Some r)"
  shows "represents sp (K \<union> L) (Some (received r l))"
proof (cases l)
  case None
  with l have "K = {}" by (simp add: represents_def)
  with represents_taken [OF l r] None show ?thesis by (simp add: received_def)
next
  case (Some v)
  note V = l [unfolded Some represents_Some] and R = r [unfolded represents_Some]
  have above: "represents sp (K \<union> L) (Some v)" if "\<forall>p. count (v_clock r) p \<le> count (v_clock v) p"
    using counted_mono [OF that] V R Un_absorb2 [of L K] l Some by simp
  show ?thesis
  proof (cases "compare (v_clock v) (v_clock r)")
    case Equal
    then have "\<forall>p. count (v_clock r) p \<le> count (v_clock v) p" by (simp add: vc.cmp_Equal)
    with above Some Equal show ?thesis by (simp add: received_def)
  next
    case SelfDominates
    then have "\<forall>p. count (v_clock r) p \<le> count (v_clock v) p" by (simp add: vc.cmp_SelfDominates)
    with above Some SelfDominates show ?thesis by (simp add: received_def)
  next
    case OtherDominates
    then have "K \<subseteq> L" using counted_mono [of "v_clock v" "v_clock r"] V R by (auto simp: vc.cmp_OtherDominates)
    then have "K \<union> L = L" by blast
    with represents_taken [OF l r] OtherDominates Some show ?thesis by (simp add: received_def)
  next
    case Concurrent
    with represents_concurrent [OF l [unfolded Some] r] Some show ?thesis by (simp add: received_def)
  qed
qed

text \<open>After an exchange in both directions the clocks are equal.\<close>

lemma known_received:
  assumes "btree_ok (v_clock r)"
  shows "counted (v_clock (received r l)) = counted (version_clock l) \<union> counted (v_clock r)"
proof (cases l)
  case (Some v)
  have "counted (v_clock r) \<subseteq> counted (v_clock v)" if "compare (v_clock v) (v_clock r) \<in> {Equal, SelfDominates}"
    using that by (intro counted_mono) (simp add: vc.cmp_ge_iff del: insert_iff)
  then show ?thesis using assms Some
    by (auto simp: received_def taken_def version_clock_def counted_merge split: clock_ordering.split)
qed (use assms in \<open>simp add: received_def taken_def version_clock_def counted_merge\<close>)

lemma received_exchange:
  assumes "btree_ok (v_clock a)" "btree_ok (v_clock b)"
  shows "compare (v_clock (received b (Some a))) (v_clock (received (received b (Some a)) (Some b))) = Equal"
proof -
  have "btree_ok (v_clock (received b (Some a)))"
    using assms by (auto simp: received_def taken_def version_clock_def btree_ok_merge split: clock_ordering.split)
  then show ?thesis
    using assms by (auto simp: counted_compare [symmetric] known_received version_clock_def)
qed

text \<open>An edit extends the log.\<close>

definition timely :: "string \<Rightarrow> timestamp \<times> string \<Rightarrow> version option \<Rightarrow> bool" where
  "timely p key l \<longleftrightarrow> count (version_clock l) p \<noteq> - 1 \<and> (case l of None \<Rightarrow> True | Some v \<Rightarrow> v_key v < key)"

lemma log_edit:
  assumes inv: "log_inv sp" and l: "represents sp (el_known sp p) l" and t: "timely p (ts, vh) l"
  defines "sp' \<equiv> sp\<lparr>el_edits := (el_edits sp)(p := el_edits sp p @ [(ts, vh)]),
      el_known := (el_known sp)(p := insert (p, Suc (length (el_edits sp p))) (el_known sp p))\<rparr>"
  shows "log_step sp sp'" and "represents sp' (el_known sp' p) (Some (edited p ts vh l))"
    and "K \<subseteq> made sp \<Longrightarrow> represents sp' K m = represents sp K m"
proof -
  let ?K = "el_known sp p" and ?new = "(p, Suc (length (el_edits sp p)))"
  note C = represents_clock [OF l]
  have below: "edit_key sp x < (ts, vh)" if x: "x \<in> ?K" for x
  proof -
    from x l obtain v where v: "l = Some v" "v_key v = shown sp ?K" by (cases l) (auto simp: represents_def)
    have "edit_key sp x \<le> shown sp ?K" using x C unfolding shown_def by (intro Max_ge) auto
    also have "\<dots> < (ts, vh)" using v t by (simp add: timely_def)
    finally show ?thesis .
  qed
  then show "log_step sp sp'" unfolding sp'_def by (rule Edit)
  have sub: "?K \<subseteq> made sp" using inv by (auto simp: log_inv_def)
  have own: "unat (count (version_clock l) p) = length (el_edits sp p)"
  proof -
    have "(p, k) \<in> ?K \<longleftrightarrow> 0 < k \<and> k \<le> length (el_edits sp p)" for k
      using inv sub by (auto simp: log_inv_def made_def)
    then have "0 < k \<and> k \<le> unat (count (version_clock l) p) \<longleftrightarrow> 0 < k \<and> k \<le> length (el_edits sp p)" for k
      using C by (auto simp: counted_def)
    then show ?thesis by (metis linorder_not_less neq0_conv order_eq_iff)
  qed
  have keys: "edit_key sp' x = edit_key sp x" if "x \<in> made sp" for x
    unfolding sp'_def using that by (rule edit_key_append)
  have new: "edit_key sp' ?new = (ts, vh)" by (simp add: sp'_def edit_key_def)
  have "edit_key sp' x \<le> (ts, vh)" if "x \<in> insert ?new ?K" for x
    using that new keys [of x] below [of x] sub by (metis insert_iff order_less_imp_le order_refl subsetD)
  then have "shown sp' (insert ?new ?K) = (ts, vh)"
    unfolding shown_def using C new by (intro Max_eqI) (auto simp del: new simp: image_iff intro: new [symmetric])
  moreover have "counted (increment (version_clock l) p) = insert ?new ?K"
    using t C own by (simp add: timely_def counted_increment)
  ultimately show "represents sp' (el_known sp' p) (Some (edited p ts vh l))"
    using C by (simp add: represents_Some edited_def btree_ok_increment) (simp add: sp'_def)
  show "represents sp' K m = represents sp K m" if "K \<subseteq> made sp"
    unfolding represents_def sp'_def shown_append [OF that] by simp
qed

section \<open>The network\<close>

text \<open>
  Replicas that run a loop, and every message published so far: a replica handles an
  event of its own or the delivery of any published message, in any order, any number of
  times; nothing forces a delivery.
\<close>

inductive net_step ::
  "('s \<Rightarrow> version option) \<Rightarrow> (string \<Rightarrow> 'ev \<Rightarrow> 's \<Rightarrow> 's \<times> 'm list \<Rightarrow> bool) \<Rightarrow> ('ev \<Rightarrow> 'm option) \<Rightarrow>
   (string \<Rightarrow> 's) \<times> 'm set \<Rightarrow> (string \<Rightarrow> 's) \<times> 'm set \<Rightarrow> bool"
  for view :: "'s \<Rightarrow> version option" and run :: "string \<Rightarrow> 'ev \<Rightarrow> 's \<Rightarrow> 's \<times> 'm list \<Rightarrow> bool"
    and delivers :: "'ev \<Rightarrow> 'm option" where
  Handle: "run p e (nodes p) (s', out) \<Longrightarrow> (\<And>m. delivers e = Some m \<Longrightarrow> m \<in> pool) \<Longrightarrow>
    (\<And>ts vh. delivers e = None \<Longrightarrow> view s' = Some (edited p ts vh (view (nodes p))) \<Longrightarrow>
       timely p (ts, vh) (view (nodes p))) \<Longrightarrow>
    net_step view run delivers (nodes, pool) (nodes(p := s'), pool \<union> set out)"

text \<open>A network and an edit log agree.\<close>

definition agrees ::
  "('s \<Rightarrow> version option) \<Rightarrow> ('m \<Rightarrow> version option) \<Rightarrow> (string \<Rightarrow> 's) \<times> 'm set \<Rightarrow> edit_log \<Rightarrow> bool" where
  "agrees view announced n sp \<longleftrightarrow> log_inv sp \<and>
     (\<forall>p. represents sp (el_known sp p) (view (fst n p))) \<and>
     (\<forall>m \<in> snd n. \<forall>v. announced m = Some v \<longrightarrow> (\<exists>K \<in> el_told sp. represents sp K (Some v)))"

locale replica_loop =
  fixes lawful :: bool
    and view :: "'s \<Rightarrow> version option"
    and run :: "string \<Rightarrow> 'ev \<Rightarrow> 's \<Rightarrow> 's \<times> 'm list \<Rightarrow> bool"
    and delivers :: "'ev \<Rightarrow> 'm option"
    and announced :: "'m \<Rightarrow> version option"
  assumes run_view: "lawful \<Longrightarrow> run p e s (s', out) \<Longrightarrow> view s' = view s \<or>
      (delivers e = None \<and> (\<exists>ts vh. view s' = Some (edited p ts vh (view s)))) \<or>
      (\<exists>m v. delivers e = Some m \<and> announced m = Some v \<and> view s' = Some (received v (view s)))"
    and run_out: "lawful \<Longrightarrow> run p e s (s', out) \<Longrightarrow> m \<in> set out \<Longrightarrow> announced m = Some v \<Longrightarrow> view s' = Some v"
begin

text \<open>One event of one replica is a stutter, an edit or the learning of a told set.\<close>

lemma run_refines:
  assumes lawful: lawful and inv: "log_inv sp" and run: "run p e (nodes p) (s', out)"
    and rep: "\<And>q. represents sp (el_known sp q) (view (nodes q))"
    and deliv: "\<And>m v. delivers e = Some m \<Longrightarrow> announced m = Some v \<Longrightarrow> \<exists>K \<in> el_told sp. represents sp K (Some v)"
    and fresh: "\<And>ts vh. delivers e = None \<Longrightarrow> view s' = Some (edited p ts vh (view (nodes p))) \<Longrightarrow>
      timely p (ts, vh) (view (nodes p))"
  obtains sp1 where "log_step\<^sup>*\<^sup>* sp sp1" "represents sp1 (el_known sp1 p) (view s')"
    "\<And>q. q \<noteq> p \<Longrightarrow> represents sp1 (el_known sp1 q) (view (nodes q))"
    "el_told sp1 = el_told sp" "\<And>K m. K \<in> el_told sp \<Longrightarrow> represents sp K m \<Longrightarrow> represents sp1 K m"
proof -
  have told: "K \<subseteq> made sp" if "K \<in> range (el_known sp) \<union> el_told sp" for K using inv that by (auto simp: log_inv_def)
  consider (same) "view s' = view (nodes p)"
    | (edit) ts vh where "delivers e = None" "view s' = Some (edited p ts vh (view (nodes p)))"
    | (recv) m v where "delivers e = Some m" "announced m = Some v" "view s' = Some (received v (view (nodes p)))"
    using run_view [OF lawful run] by blast
  then show thesis
  proof cases
    case same
    with that [of sp] rep show thesis by simp
  next
    case edit
    note E = log_edit [OF inv rep [of p] fresh [OF edit]]
    show thesis
      by (rule that [OF r_into_rtranclp [where r = log_step, OF E(1)]]) (use E(2,3) edit(2) rep told in auto)
  next
    case recv
    then obtain K where K: "K \<in> el_told sp" "represents sp K (Some v)" using deliv by blast
    from represents_received [OF rep K(2)] recv(3) rep show thesis
      by (intro that [OF r_into_rtranclp [where r = log_step, OF Learn [OF K(1), of p]]]) simp_all
  qed
qed

lemma net_step_refines:
  assumes lawful: lawful and step: "net_step view run delivers n n'" and n: "agrees view announced n sp"
  shows "\<exists>sp'. log_step\<^sup>*\<^sup>* sp sp' \<and> agrees view announced n' sp'"
  using step
proof cases
  case (Handle p e nodes s' out pool)
  note inv = n [unfolded agrees_def, THEN conjunct1]
  have rep: "represents sp (el_known sp q) (view (nodes q))" for q using n Handle(1) by (simp add: agrees_def)
  have pool: "\<exists>K \<in> el_told sp. represents sp K (Some v)" if "m \<in> pool" "announced m = Some v" for m v
    using n Handle(1) that by (auto simp: agrees_def)
  obtain sp1 where s1: "log_step\<^sup>*\<^sup>* sp sp1" and r1: "represents sp1 (el_known sp1 p) (view s')"
    and o1: "\<And>q. q \<noteq> p \<Longrightarrow> represents sp1 (el_known sp1 q) (view (nodes q))"
    and t1: "el_told sp1 = el_told sp" "\<And>K m. K \<in> el_told sp \<Longrightarrow> represents sp K m \<Longrightarrow> represents sp1 K m"
    using lawful inv Handle(3) rep pool [OF Handle(4)] Handle(5) by (rule run_refines) auto
  let ?sp = "sp1\<lparr>el_told := insert (el_known sp1 p) (el_told sp1)\<rparr>"
  have s2: "log_step\<^sup>*\<^sup>* sp ?sp" using s1 Tell [of sp1 p] by (rule rtranclp.rtrancl_into_rtrancl)
  then have "log_inv ?sp" using inv by (rule log_run.run_good)
  moreover have "\<exists>K \<in> el_told ?sp. represents ?sp K (Some v)" if "m \<in> pool \<union> set out" "announced m = Some v" for m v
    using that
  proof (cases "m \<in> set out")
    case True
    with r1 run_out [OF lawful Handle(3)] that show ?thesis by auto
  next
    case False
    with that(1) have "m \<in> pool" by simp
    from pool [OF this that(2)] obtain K where "K \<in> el_told sp" "represents sp K (Some v)" by blast
    with t1 show ?thesis by auto
  qed
  ultimately have "agrees view announced n' ?sp"
    using r1 o1 by (auto simp: agrees_def Handle(2))
  with s2 show ?thesis by blast
qed

lemma net_refines:
  assumes lawful and "(net_step view run delivers)\<^sup>*\<^sup>* (nodes, {}) n" and "\<And>p. view (nodes p) = None"
  shows "\<exists>sp. log_step\<^sup>*\<^sup>* log_start sp \<and> agrees view announced n sp"
  using assms(2)
proof (induction rule: rtranclp_induct)
  case base
  have "agrees view announced (nodes, {}) log_start"
    using assms(3) log_inv_start by (simp add: agrees_def represents_def log_start_def)
  then show ?case by blast
next
  case (step n n')
  then show ?case using net_step_refines [OF assms(1)] by (meson rtranclp_trans)
qed

text \<open>Equal clocks, equal versions -- wherever and in whatever order the messages went.\<close>

lemma converged:
  assumes lawful and "(net_step view run delivers)\<^sup>*\<^sup>* (nodes, {}) n" and "\<And>p. view (nodes p) = None"
    and "view (fst n p) = Some a" "view (fst n q) = Some b" "compare (v_clock a) (v_clock b) = Equal"
  shows "v_key a = v_key b"
proof -
  from net_refines [OF assms(1-3)] obtain sp where sp: "agrees view announced n sp" by blast
  then have "represents sp (el_known sp p) (Some a)" "represents sp (el_known sp q) (Some b)"
    unfolding agrees_def using assms(4,5) by metis+
  with assms(6) show ?thesis by (simp add: represents_Some counted_compare [symmetric])
qed

end

end
