(* ===== verification/Sync.thy ===== *)
theory Sync
  imports Commands Shadow Endpoint Replica
begin

text \<open>
  \<^verbatim>\<open>src/daemon.rs\<close>, the share loops: reconciling the stored state with the disk at start,
  turning a local change into a new version, deciding on a remote announce by vector
  clock and last writer wins, fetching and applying a remote version, and the three
  loops (seed, leech, sync) as functions from one event to the next state.

  \<open>librqbit\<close> is a further part of the crates parameter: \<open>bt_seed\<close> creates a torrent over
  a directory and adds it to the session, \<open>bt_fetch\<close> adds a magnet link and waits for its
  completion, \<open>bt_delete\<close> forgets a torrent.  \<open>gossip_stream\<close> (p2panda) joins the gossip
  topic of a share and \<open>watch_start\<close> (notify) starts the file watcher.  What \<open>select!\<close> picks next is an event; the
  messages a handler publishes are a list.
\<close>

section \<open>Versions\<close>

record share_state =
  st_version_hash :: string
  st_info_hash :: string
  st_torrent_id :: nat
  st_clock :: vector_clock
  st_timestamp :: timestamp
  st_manifest :: "path list"

record 'c sync_crates = "'c daemon_crates" +
  bt_seed :: "path \<Rightarrow> string option \<Rightarrow> (string \<times> nat) io"
  bt_fetch :: "path \<Rightarrow> string \<Rightarrow> string list \<Rightarrow> nat io"
  bt_delete :: "nat \<Rightarrow> world \<Rightarrow> world"
  gossip_stream :: "byte list \<Rightarrow> unit io"
  watch_start :: "path \<Rightarrow> unit io"

definition persist ::
  "('c, 'z) sync_crates_scheme \<Rightarrow> path \<Rightarrow> string \<Rightarrow> share_state \<Rightarrow> unit io" where
  "persist C data_dir share_id s = state_save C data_dir share_id
     \<lparr>ps_version_hash = st_version_hash s, ps_clock = st_clock s, ps_timestamp = st_timestamp s,
      ps_manifest = st_manifest s\<rparr>"

definition create_and_add_shadow_torrent ::
  "('c, 'z) sync_crates_scheme \<Rightarrow> share_config \<Rightarrow> path \<Rightarrow> (string \<times> nat) io" where
  "create_and_add_shadow_torrent C config root = bt_seed C (shadow_root root) (Some (sc_id config))"

text \<open>A version made from what is on disk now, with the given clock.\<close>

definition version_from_disk ::
  "('c, 'z) sync_crates_scheme \<Rightarrow> share_config \<Rightarrow> path \<Rightarrow> keyring \<Rightarrow> string \<Rightarrow> path list \<Rightarrow> vector_clock \<Rightarrow>
   share_state io" where
  "version_from_disk C config root key vhash manifest clock =
     io_bind (sync_plaintext_to_shadow C root key manifest) (\<lambda>_.
     io_bind (create_and_add_shadow_torrent C config root) (\<lambda>(info_hash, torrent_id).
     io_bind utc_now (\<lambda>now.
     io_return \<lparr>st_version_hash = vhash, st_info_hash = info_hash, st_torrent_id = torrent_id,
       st_clock = clock, st_timestamp = now, st_manifest = manifest\<rparr>)))"

definition reconcile_on_start ::
  "('c, 'z) sync_crates_scheme \<Rightarrow> share_config \<Rightarrow> path \<Rightarrow> path \<Rightarrow> string \<Rightarrow> keyring \<Rightarrow> share_state option io" where
  "reconcile_on_start C config root data_dir peer_id_hex key =
     io_bind (state_load C data_dir (sc_id config)) (\<lambda>persisted.
     io_bind (has_content root) (\<lambda>content.
     if \<not> content then io_return None
     else
       io_bind (snapshot_content C root) (\<lambda>(disk_vh, manifest).
       case persisted of
         None \<Rightarrow>
           io_bind (version_from_disk C config root key disk_vh manifest (increment vc_new peer_id_hex)) (\<lambda>state.
           io_bind (persist C data_dir (sc_id config) state) (\<lambda>_.
           io_return (Some state)))
       | Some p \<Rightarrow>
           if ps_version_hash p = disk_vh then
             io_bind (sync_plaintext_to_shadow C root key manifest) (\<lambda>_.
             io_bind (create_and_add_shadow_torrent C config root) (\<lambda>(info_hash, torrent_id).
             io_return (Some \<lparr>st_version_hash = disk_vh, st_info_hash = info_hash,
               st_torrent_id = torrent_id, st_clock = ps_clock p, st_timestamp = ps_timestamp p,
               st_manifest = manifest\<rparr>)))
           else
             io_bind (version_from_disk C config root key disk_vh manifest
               (increment (ps_clock p) peer_id_hex)) (\<lambda>state.
             io_bind (persist C data_dir (sc_id config) state) (\<lambda>_.
             io_return (Some state))))))"

definition drop_torrent ::
  "('c, 'z) sync_crates_scheme \<Rightarrow> share_state option \<Rightarrow> world \<Rightarrow> world" where
  "drop_torrent C current w = (case current of None \<Rightarrow> w | Some s \<Rightarrow> bt_delete C (st_torrent_id s) w)"

definition clock_of :: "share_state option \<Rightarrow> vector_clock" where
  "clock_of current = (case current of None \<Rightarrow> vc_new | Some s \<Rightarrow> st_clock s)"

definition handle_local_change ::
  "('c, 'z) sync_crates_scheme \<Rightarrow> share_config \<Rightarrow> path \<Rightarrow> path \<Rightarrow> string \<Rightarrow> keyring \<Rightarrow> share_state option \<Rightarrow>
   share_state option io" where
  "handle_local_change C config root data_dir peer_id_hex key current =
     io_bind (has_content root) (\<lambda>content.
     if \<not> content then io_return None
     else
       io_bind (snapshot_content C root) (\<lambda>(new_vhash, new_manifest) w.
       if (case current of None \<Rightarrow> False | Some s \<Rightarrow> st_version_hash s = new_vhash)
       then io_return None w
       else
         io_bind (version_from_disk C config root key new_vhash new_manifest
           (increment (clock_of current) peer_id_hex)) (\<lambda>new_state.
         io_bind (persist C data_dir (sc_id config) new_state) (\<lambda>_.
         io_return (Some new_state))) (drop_torrent C current w)))"

text \<open>Fetching the ciphertext, decrypting it and hashing the result.\<close>

definition fetch_remote ::
  "('c, 'z) sync_crates_scheme \<Rightarrow> path \<Rightarrow> string \<Rightarrow> string list \<Rightarrow> keyring \<Rightarrow> (nat \<times> path list \<times> string) io" where
  "fetch_remote C root info_hash initial_peers key =
     io_bind (fs_create_dir_all (shadow_root root)) (\<lambda>_.
     io_bind (bt_fetch C (shadow_root root) info_hash initial_peers) (\<lambda>torrent_id.
     io_bind (sync_shadow_to_plaintext C root key) (\<lambda>new_manifest.
     io_bind (snapshot_content C root) (\<lambda>(computed_vhash, _).
     io_return (torrent_id, new_manifest, computed_vhash)))))"

definition apply_remote_sync ::
  "('c, 'z) sync_crates_scheme \<Rightarrow> path \<Rightarrow> string \<Rightarrow> string \<Rightarrow> vector_clock \<Rightarrow> timestamp \<Rightarrow> endpoint list \<Rightarrow>
   keyring \<Rightarrow> share_state option \<Rightarrow> share_state io" where
  "apply_remote_sync C root info_hash remote_vhash remote_clock remote_timestamp bt_endpoints key current w =
     (let initial_peers = usable_peers bt_endpoints in
      if initial_peers = [] then io_fail (Bail ''announce had no usable peers'' []) w
      else
        io_bind (fetch_remote C root info_hash initial_peers key) (\<lambda>(torrent_id, new_manifest, computed_vhash) w'.
        if computed_vhash \<noteq> remote_vhash
        then io_fail (Bail ''decrypted plaintext version_hash differs from the announced one'' []) w'
        else
          io_return \<lparr>st_version_hash = remote_vhash, st_info_hash = info_hash, st_torrent_id = torrent_id,
              st_clock = merge (clock_of current) remote_clock, st_timestamp = remote_timestamp,
              st_manifest = new_manifest\<rparr>
            (case current of None \<Rightarrow> w' | Some s \<Rightarrow> delete_orphans root (st_manifest s) new_manifest w'))
        (drop_torrent C current w))"

definition publish_sync_announce ::
  "('c, 'z) sync_crates_scheme \<Rightarrow> share_state \<Rightarrow> 16 word \<Rightarrow> byte list list" where
  "publish_sync_announce C state bt_port =
     (case enc_msg C (Announce (st_info_hash state) [(''127.0.0.1'', bt_port)]
        (Some (st_version_hash state)) (Some (st_clock state)) (Some (st_timestamp state))) of
        None \<Rightarrow> [] | Some bytes \<Rightarrow> [bytes])"

section \<open>The sync loop\<close>

text \<open>What a share task is given when it starts.\<close>

record share_env =
  en_config :: share_config
  en_root :: path
  en_data_dir :: path
  en_peer_id_hex :: string
  en_identity :: "byte list"
  en_bt_port :: "16 word"

datatype loop_event =
    LocalChange
  | AnnounceTick
  | Command share_command
  | GossipItem "byte list"
  | GossipLag
  | GossipClosed

record 'c loop_state =
  ls_task :: "'c task"
  ls_current :: "share_state option"

datatype loop_outcome = Continue | Exit

type_synonym 'c loop_result =
  "(loop_outcome \<times> command_reply option \<times> 'c loop_state \<times> byte list list) \<times> world"

text \<open>The receipt of membership operations and of key rotations, the same in all loops.\<close>

definition on_auth_ops ::
  "('c, 'z) sync_crates_scheme \<Rightarrow> share_env \<Rightarrow> byte list list \<Rightarrow> 'c task \<Rightarrow> world \<Rightarrow> 'c task \<times> world" where
  "on_auth_ops C env ops t w =
     (case apply_auth_ops C ops (en_data_dir env) (sc_id (en_config env)) (ta_auth t) w of
        ((_, auth), w') \<Rightarrow> (t\<lparr>ta_auth := auth\<rparr>, w'))"

definition on_key_rotation ::
  "('c, 'z) sync_crates_scheme \<Rightarrow> share_env \<Rightarrow> signed_rotation \<Rightarrow> 'c task \<Rightarrow> world \<Rightarrow> 'c task \<times> world" where
  "on_key_rotation C env rot t w =
     (let sid = sc_id (en_config env) in
      case apply_key_rotation C rot (ta_auth t) (group_id_for C sid) (en_identity env) (en_data_dir env) sid
        (ta_key t, ta_buffer t) w of
        ((_, key, buf), w') \<Rightarrow> (t\<lparr>ta_key := key, ta_buffer := buf\<rparr>, w'))"

definition on_command ::
  "('c, 'z) sync_crates_scheme \<Rightarrow> share_env \<Rightarrow> share_command \<Rightarrow> 'c loop_state \<Rightarrow> world \<Rightarrow> 'c loop_result" where
  "on_command C env cmd ls w =
     (case handle_share_command C cmd (en_config env) (en_data_dir env) (en_identity env) (ls_task ls) w of
        ((reply, stop, t), w') \<Rightarrow>
          ((if stop then Exit else Continue, Some reply, ls\<lparr>ls_task := t\<rparr>, []), w'))"

text \<open>A remote announce that is applied: fetch, store, publish; an error leaves the state.\<close>

definition apply_announce ::
  "('c, 'z) sync_crates_scheme \<Rightarrow> share_env \<Rightarrow> string \<Rightarrow> endpoint list \<Rightarrow> string \<Rightarrow> vector_clock \<Rightarrow> timestamp \<Rightarrow>
   'c loop_state \<Rightarrow> world \<Rightarrow> 'c loop_result" where
  "apply_announce C env info_hash bt_endpoints remote_vhash remote_clock remote_ts ls w =
     (case apply_remote_sync C (en_root env) info_hash remote_vhash remote_clock remote_ts bt_endpoints
        (ta_key (ls_task ls)) (ls_current ls) w of
        (Inl _, w') \<Rightarrow> ((Continue, None, ls, []), w')
      | (Inr new_state, w') \<Rightarrow>
          (case persist C (en_data_dir env) (sc_id (en_config env)) new_state w' of
             (_, w'') \<Rightarrow> ((Continue, None, ls\<lparr>ls_current := Some new_state\<rparr>,
               publish_sync_announce C new_state (en_bt_port env)), w'')))"

definition on_announce ::
  "('c, 'z) sync_crates_scheme \<Rightarrow> share_env \<Rightarrow> string \<Rightarrow> endpoint list \<Rightarrow> string option \<Rightarrow> vector_clock option \<Rightarrow>
   timestamp option \<Rightarrow> 'c loop_state \<Rightarrow> world \<Rightarrow> 'c loop_result" where
  "on_announce C env info_hash bt_endpoints version_hash clock timestamp ls w =
     (case (version_hash, clock, timestamp) of
        (Some remote_vhash, Some remote_clock, Some remote_ts) \<Rightarrow>
          (case ls_current ls of
             None \<Rightarrow> apply_announce C env info_hash bt_endpoints remote_vhash remote_clock remote_ts ls w
           | Some s \<Rightarrow>
               (case compare (st_clock s) remote_clock of
                  Equal \<Rightarrow> ((Continue, None, ls, []), w)
                | SelfDominates \<Rightarrow> ((Continue, None, ls, []), w)
                | OtherDominates \<Rightarrow>
                    apply_announce C env info_hash bt_endpoints remote_vhash remote_clock remote_ts ls w
                | Concurrent \<Rightarrow>
                    if lww_we_win (st_timestamp s) (st_version_hash s) remote_ts remote_vhash then
                      (let new_state = s\<lparr>st_clock := merge (st_clock s) remote_clock\<rparr> in
                       case persist C (en_data_dir env) (sc_id (en_config env)) new_state w of
                         (_, w') \<Rightarrow> ((Continue, None, ls\<lparr>ls_current := Some new_state\<rparr>,
                           publish_sync_announce C new_state (en_bt_port env)), w'))
                    else apply_announce C env info_hash bt_endpoints remote_vhash remote_clock remote_ts ls w))
      | _ \<Rightarrow> ((Continue, None, ls, []), w))"

fun sync_step ::
  "('c, 'z) sync_crates_scheme \<Rightarrow> share_env \<Rightarrow> loop_event \<Rightarrow> 'c loop_state \<Rightarrow> world \<Rightarrow> 'c loop_result" where
  "sync_step C env LocalChange ls w =
     (case handle_local_change C (en_config env) (en_root env) (en_data_dir env) (en_peer_id_hex env)
        (ta_key (ls_task ls)) (ls_current ls) w of
        (Inr (Some new_state), w') \<Rightarrow> ((Continue, None, ls\<lparr>ls_current := Some new_state\<rparr>,
          publish_sync_announce C new_state (en_bt_port env)), w')
      | (_, w') \<Rightarrow> ((Continue, None, ls, []), w'))"
| "sync_step C env AnnounceTick ls w =
     ((Continue, None, ls,
       (case ls_current ls of None \<Rightarrow> [] | Some s \<Rightarrow> publish_sync_announce C s (en_bt_port env)) @
       publish_auth_ops C (ta_auth (ls_task ls)) @
       publish_pending_rotations C (ta_pending (ls_task ls))), w)"
| "sync_step C env (Command cmd) ls w = on_command C env cmd ls w"
| "sync_step C env GossipClosed ls w = ((Exit, None, ls, []), w)"
| "sync_step C env GossipLag ls w = ((Continue, None, ls, []), w)"
| "sync_step C env (GossipItem payload) ls w =
     (case decode_msg C payload of
        None \<Rightarrow> ((Continue, None, ls, []), w)
      | Some (Announce info_hash bt_endpoints version_hash clock timestamp) \<Rightarrow>
          on_announce C env info_hash bt_endpoints version_hash clock timestamp ls w
      | Some (AuthOps ops) \<Rightarrow>
          (case on_auth_ops C env ops (ls_task ls) w of
             (t, w') \<Rightarrow> ((Continue, None, ls\<lparr>ls_task := t\<rparr>, []), w'))
      | Some (KeyRotation rot) \<Rightarrow>
          (case on_key_rotation C env rot (ls_task ls) w of
             (t, w') \<Rightarrow> ((Continue, None, ls\<lparr>ls_task := t\<rparr>, []), w')))"

text \<open>\<open>canonicalize\<close> fails on a path that is not there; the model has no links to resolve.\<close>

definition canonicalize :: "path \<Rightarrow> path io" where
  "canonicalize p w = (if fs_exists w p then io_return p w else io_fail IoError w)"

text \<open>The gossip topic of a share.\<close>

definition share_topic :: "('c, 'z) sync_crates_scheme \<Rightarrow> share_config \<Rightarrow> byte list" where
  "share_topic C config = blake3 C (as_bytes (sc_topic config))"

text \<open>
  The part of \<open>sync_loop\<close> before the loop.  The version is announced before the watcher starts,
  also when the watcher then fails.
\<close>

definition sync_start ::
  "('c, 'z) sync_crates_scheme \<Rightarrow> share_env \<Rightarrow> 'c task \<Rightarrow> ('c loop_state result \<times> byte list list) io" where
  "sync_start C env t =
     io_bind (fs_create_dir_all (en_root env)) (\<lambda>_.
     io_bind (canonicalize (en_root env)) (\<lambda>root.
     io_bind (gossip_stream C (share_topic C (en_config env))) (\<lambda>_.
     io_bind (reconcile_on_start C (en_config env) root (en_data_dir env) (en_peer_id_hex env) (ta_key t))
       (\<lambda>state w.
     (let out = (case state of None \<Rightarrow> [] | Some s \<Rightarrow> publish_sync_announce C s (en_bt_port env)) in
      case watch_start C root w of
        (Inl e, w') \<Rightarrow> io_return (Inl e, out) w'
      | (Inr _, w') \<Rightarrow> io_return (Inr \<lparr>ls_task = t, ls_current = state\<rparr>, out) w')))))"

section \<open>The seed and leech loops\<close>

definition seed_start ::
  "('c, 'z) sync_crates_scheme \<Rightarrow> share_env \<Rightarrow> byte list io" where
  "seed_start C env =
     io_bind (canonicalize (sc_root_path (en_config env))) (\<lambda>root.
     io_bind (bt_seed C root None) (\<lambda>(info_hash, _).
     case enc_msg C (Announce info_hash [(''127.0.0.1'', en_bt_port env)] None None None) of
       None \<Rightarrow> io_fail (Bail ''encoding announce'' [])
     | Some announce_bytes \<Rightarrow>
         io_bind (gossip_stream C (share_topic C (en_config env))) (\<lambda>_.
         io_return announce_bytes)))"

fun seed_step ::
  "('c, 'z) sync_crates_scheme \<Rightarrow> share_env \<Rightarrow> byte list \<Rightarrow> loop_event \<Rightarrow> 'c loop_state \<Rightarrow> world \<Rightarrow> 'c loop_result" where
  "seed_step C env announce_bytes AnnounceTick ls w =
     ((Continue, None, ls, announce_bytes # publish_auth_ops C (ta_auth (ls_task ls)) @
       publish_pending_rotations C (ta_pending (ls_task ls))), w)"
| "seed_step C env announce_bytes (Command cmd) ls w = on_command C env cmd ls w"
| "seed_step C env announce_bytes GossipClosed ls w = ((Exit, None, ls, []), w)"
| "seed_step C env announce_bytes (GossipItem payload) ls w =
     (case decode_msg C payload of
        Some (AuthOps ops) \<Rightarrow>
          (case on_auth_ops C env ops (ls_task ls) w of
             (t, w') \<Rightarrow> ((Continue, None, ls\<lparr>ls_task := t\<rparr>, []), w'))
      | Some (KeyRotation rot) \<Rightarrow>
          (case on_key_rotation C env rot (ls_task ls) w of
             (t, w') \<Rightarrow> ((Continue, None, ls\<lparr>ls_task := t\<rparr>, []), w'))
      | _ \<Rightarrow> ((Continue, None, ls, []), w))"
| "seed_step C env announce_bytes _ ls w = ((Continue, None, ls, []), w)"

definition leech_apply_announce ::
  "('c, 'z) sync_crates_scheme \<Rightarrow> path \<Rightarrow> string \<Rightarrow> endpoint list \<Rightarrow> unit io" where
  "leech_apply_announce C root info_hash bt_endpoints =
     (let initial_peers = usable_peers bt_endpoints in
      if initial_peers = [] then io_fail (Bail ''announce had no usable peers'' [])
      else io_bind (bt_fetch C root info_hash initial_peers) (\<lambda>_. io_return ()))"

text \<open>
  \<open>cmd_closed\<close> says whether the control side has dropped its sender when the check at
  the end of the body runs; the flag returned is \<open>completed\<close>.
\<close>

definition leech_end :: "bool \<Rightarrow> bool \<Rightarrow> loop_outcome" where
  "leech_end cmd_closed completed = (if completed \<and> cmd_closed then Exit else Continue)"

fun leech_step ::
  "('c, 'z) sync_crates_scheme \<Rightarrow> share_env \<Rightarrow> bool \<Rightarrow> loop_event \<Rightarrow> bool \<Rightarrow> 'c loop_state \<Rightarrow> world \<Rightarrow>
   bool \<times> 'c loop_result" where
  "leech_step C env cmd_closed (Command cmd) completed ls w =
     (case on_command C env cmd ls w of
        ((Exit, r), w') \<Rightarrow> (completed, ((Exit, r), w'))
      | ((Continue, r), w') \<Rightarrow> (completed, ((leech_end cmd_closed completed, r), w')))"
| "leech_step C env cmd_closed GossipClosed completed ls w = (completed, ((Exit, None, ls, []), w))"
| "leech_step C env cmd_closed (GossipItem payload) completed ls w =
     (case decode_msg C payload of
        None \<Rightarrow> (completed, ((Continue, None, ls, []), w))
      | Some (Announce info_hash bt_endpoints _ _ _) \<Rightarrow>
          if \<not> completed then
            (case leech_apply_announce C (en_root env) info_hash bt_endpoints w of
               (Inl _, w') \<Rightarrow> (False, ((leech_end cmd_closed False, None, ls, []), w'))
             | (Inr _, w') \<Rightarrow> (True, ((leech_end cmd_closed True, None, ls, []), w')))
          else (completed, ((leech_end cmd_closed completed, None, ls, []), w))
      | Some (AuthOps ops) \<Rightarrow>
          (case on_auth_ops C env ops (ls_task ls) w of
             (t, w') \<Rightarrow> (completed, ((leech_end cmd_closed completed, None, ls\<lparr>ls_task := t\<rparr>, []), w')))
      | Some (KeyRotation rot) \<Rightarrow>
          (case on_key_rotation C env rot (ls_task ls) w of
             (t, w') \<Rightarrow> (completed, ((leech_end cmd_closed completed, None, ls\<lparr>ls_task := t\<rparr>, []), w'))))"
| "leech_step C env cmd_closed _ completed ls w = (completed, ((Continue, None, ls, []), w))"

definition leech_start ::
  "('c, 'z) sync_crates_scheme \<Rightarrow> share_env \<Rightarrow> 'c task \<Rightarrow> ('c loop_state \<times> byte list list) io" where
  "leech_start C env t =
     io_bind (fs_create_dir_all (en_root env)) (\<lambda>_.
     io_bind (canonicalize (en_root env)) (\<lambda>_.
     io_bind (gossip_stream C (share_topic C (en_config env))) (\<lambda>_.
     io_return (\<lparr>ls_task = t, ls_current = None\<rparr>, publish_pending_rotations C (ta_pending t)))))"

section \<open>The loop as a replica\<close>

definition state_version :: "share_state \<Rightarrow> version" where
  "state_version s = \<lparr>v_clock = st_clock s, v_ts = st_timestamp s, v_hash = st_version_hash s\<rparr>"

abbreviation loop_version :: "'c loop_state \<Rightarrow> version option" where
  "loop_version ls \<equiv> map_option state_version (ls_current ls)"

lemma clock_of_version: "clock_of current = version_clock (map_option state_version current)"
  by (simp add: clock_of_def version_clock_def state_version_def split: option.split)

lemma version_from_disk_version:
  "version_from_disk C config root key vh man c w = (Inr st, w') \<Longrightarrow>
     \<exists>ts. state_version st = \<lparr>v_clock = c, v_ts = ts, v_hash = vh\<rparr>"
  by (auto simp: version_from_disk_def io_bind_eq_Inr state_version_def)

lemma handle_local_change_version:
  assumes "handle_local_change C config root dd me key current w = (Inr (Some st), w')"
  shows "\<exists>ts vh. state_version st = edited me ts vh (map_option state_version current)"
proof -
  from assms obtain vh man w1 w2 where
    "version_from_disk C config root key vh man (increment (clock_of current) me) w1 = (Inr st, w2)"
    by (auto simp: handle_local_change_def io_bind_eq_Inr split: if_splits)
  from version_from_disk_version [OF this] show ?thesis by (auto simp: edited_def clock_of_version)
qed

lemma apply_remote_sync_ok:
  assumes "apply_remote_sync C root ih rvh rc rts eps key current w = (Inr st, w')"
  obtains w1 w2 tid man where "fetch_remote C root ih (usable_peers eps) key w1 = (Inr (tid, man, rvh), w2)"
    "w1 = drop_torrent C current w" "st = \<lparr>st_version_hash = rvh, st_info_hash = ih, st_torrent_id = tid,
       st_clock = merge (clock_of current) rc, st_timestamp = rts, st_manifest = man\<rparr>"
    "w' = (case current of None \<Rightarrow> w2 | Some s \<Rightarrow> delete_orphans root (st_manifest s) man w2)"
  using assms that by (auto simp: apply_remote_sync_def Let_def io_bind_eq_Inr split: if_splits)

lemma apply_remote_sync_version:
  "apply_remote_sync C root ih rvh rc rts eps key current w = (Inr st, w') \<Longrightarrow>
     state_version st = taken \<lparr>v_clock = rc, v_ts = rts, v_hash = rvh\<rparr> (map_option state_version current)"
  by (erule apply_remote_sync_ok) (simp add: state_version_def taken_def clock_of_version)

text \<open>What handling an announce leaves: the version as it was, or the one \<open>received\<close> decides on.\<close>

lemma apply_announce_version:
  assumes "apply_announce C env ih eps rvh rc rts ls w = ((oc, reply, ls', msgs), w')"
  shows "(loop_version ls' = loop_version ls \<and> msgs = []) \<or>
     (loop_version ls' = Some (taken \<lparr>v_clock = rc, v_ts = rts, v_hash = rvh\<rparr> (loop_version ls)) \<and>
      (\<exists>s. ls_current ls' = Some s \<and> msgs = publish_sync_announce C s (en_bt_port env)))"
  using assms apply_remote_sync_version [of C "en_root env" ih rvh rc rts eps "ta_key (ls_task ls)" "ls_current ls" w]
  by (auto simp: apply_announce_def split: prod.splits sum.splits)

lemma on_announce_version:
  assumes "on_announce C env ih eps (Some rvh) (Some rc) (Some rts) ls w = ((oc, reply, ls', msgs), w')"
  shows "(loop_version ls' = loop_version ls \<or>
      loop_version ls' = Some (received \<lparr>v_clock = rc, v_ts = rts, v_hash = rvh\<rparr> (loop_version ls))) \<and>
    (msgs = [] \<or> (\<exists>s. ls_current ls' = Some s \<and> msgs = publish_sync_announce C s (en_bt_port env)))"
proof -
  let ?r = "\<lparr>v_clock = rc, v_ts = rts, v_hash = rvh\<rparr>"
  have applied: ?thesis
    if "on_announce C env ih eps (Some rvh) (Some rc) (Some rts) ls w = apply_announce C env ih eps rvh rc rts ls w"
      and "received ?r (loop_version ls) = taken ?r (loop_version ls)"
    using apply_announce_version [OF assms [unfolded that(1)]] unfolding that(2) by blast
  show ?thesis
  proof (cases "ls_current ls")
    case None
    then show ?thesis by (intro applied) (simp_all add: on_announce_def received_def)
  next
    case (Some s)
    show ?thesis
    proof (cases "compare (st_clock s) rc")
      case OtherDominates
      with Some show ?thesis by (intro applied) (simp_all add: on_announce_def received_def state_version_def)
    next
      case Concurrent
      show ?thesis
      proof (cases "lww_we_win (st_timestamp s) (st_version_hash s) rts rvh")
        case True
        with assms Some Concurrent show ?thesis
          by (auto simp: on_announce_def received_def state_version_def Let_def split: prod.splits)
      next
        case False
        with Some Concurrent show ?thesis by (intro applied) (simp_all add: on_announce_def received_def state_version_def)
      qed
    qed (use assms Some in \<open>simp_all add: on_announce_def\<close>)
  qed
qed

text \<open>The version a message announces; anything else announces none.\<close>

definition announced :: "('c, 'z) sync_crates_scheme \<Rightarrow> byte list \<Rightarrow> version option" where
  "announced C payload = (case decode_msg C payload of
     Some (Announce _ _ (Some vh) (Some c) (Some ts)) \<Rightarrow> Some \<lparr>v_clock = c, v_ts = ts, v_hash = vh\<rparr>
   | _ \<Rightarrow> None)"

fun delivers :: "loop_event \<Rightarrow> byte list option" where
  "delivers (GossipItem payload) = Some payload"
| "delivers _ = None"

lemma announced_sync:
  "msg_codec_ok C \<Longrightarrow> m \<in> set (publish_sync_announce C s port) \<Longrightarrow> announced C m = Some (state_version s)"
  by (auto simp: publish_sync_announce_def announced_def decode_msg_def msg_codec_ok_def state_version_def
      split: option.splits)

lemma announced_auth_ops: "msg_codec_ok C \<Longrightarrow> m \<in> set (publish_auth_ops C st) \<Longrightarrow> announced C m = None"
  by (auto simp: publish_auth_ops_def auth_announce_bytes_def announced_def decode_msg_def msg_codec_ok_def
      split: option.splits sum.splits if_splits)

lemma announced_rotations: "msg_codec_ok C \<Longrightarrow> m \<in> set (publish_pending_rotations C rots) \<Longrightarrow> announced C m = None"
proof (induction rots)
  case (Cons rot rots)
  have "announced C bs = None" if "enc_msg C (KeyRotation rot) = Some bs" for bs
    using that Cons.prems(1)
    by (auto simp: announced_def decode_msg_def msg_codec_ok_def split: option.splits share_msg.splits)
  with Cons show ?case by (auto split: option.splits)
qed simp

lemma sync_step_version:
  assumes "sync_step C env ev ls w = ((oc, reply, ls', msgs), w')"
  shows "loop_version ls' = loop_version ls \<or>
    (ev = LocalChange \<and> (\<exists>ts vh. loop_version ls' = Some (edited (en_peer_id_hex env) ts vh (loop_version ls)))) \<or>
    (\<exists>m v. ev = GossipItem m \<and> announced C m = Some v \<and> loop_version ls' = Some (received v (loop_version ls)))"
proof (cases ev)
  case LocalChange
  with assms show ?thesis
    using handle_local_change_version [of C "en_config env" "en_root env" "en_data_dir env" "en_peer_id_hex env"
        "ta_key (ls_task ls)" "ls_current ls" w]
    by (auto split: prod.splits sum.splits option.splits) blast
next
  case (GossipItem m)
  show ?thesis
  proof (cases "decode_msg C m")
    case None
    with assms GossipItem show ?thesis by simp
  next
    case (Some msg)
    show ?thesis
    proof (cases msg)
      case (Announce ih eps vh c ts)
      show ?thesis
      proof (cases "vh = None \<or> c = None \<or> ts = None")
        case True
        with assms GossipItem Some Announce show ?thesis by (auto simp: on_announce_def split: option.splits)
      next
        case False
        then obtain a b d where "vh = Some a" "c = Some b" "ts = Some d" by auto
        with on_announce_version [of C env ih eps a b d ls w oc reply ls' msgs w'] assms GossipItem Some Announce
        show ?thesis by (auto simp: announced_def)
      qed
    qed (use assms GossipItem Some in \<open>auto split: prod.splits\<close>)
  qed
qed (use assms in \<open>auto simp: on_command_def split: prod.splits\<close>)

lemma sync_step_announces:
  assumes "msg_codec_ok C" "sync_step C env ev ls w = ((oc, reply, ls', msgs), w')"
    and "m \<in> set msgs" "announced C m = Some v"
  shows "loop_version ls' = Some v"
proof (cases ev)
  case LocalChange
  with assms announced_sync [OF assms(1)] show ?thesis
    by (auto split: prod.splits sum.splits option.splits)
next
  case AnnounceTick
  with assms announced_sync [OF assms(1)] announced_auth_ops [OF assms(1)] announced_rotations [OF assms(1)] show ?thesis
    by (auto split: option.splits)
next
  case (GossipItem p)
  show ?thesis
  proof (cases "decode_msg C p")
    case None
    with assms GossipItem show ?thesis by simp
  next
    case (Some msg)
    show ?thesis
    proof (cases msg)
      case (Announce ih eps vh c ts)
      show ?thesis
      proof (cases "vh = None \<or> c = None \<or> ts = None")
        case True
        with assms GossipItem Some Announce show ?thesis by (auto simp: on_announce_def split: option.splits)
      next
        case False
        then obtain a b d where "vh = Some a" "c = Some b" "ts = Some d" by auto
        with on_announce_version [of C env ih eps a b d ls w oc reply ls' msgs w'] assms GossipItem Some Announce
          announced_sync [OF assms(1)]
        show ?thesis by auto
      qed
    qed (use assms GossipItem Some in \<open>auto split: prod.splits\<close>)
  qed
qed (use assms in \<open>auto simp: on_command_def split: prod.splits\<close>)

section \<open>The network of sync loops\<close>

text \<open>A node is the state of the loop and its machine; every peer id is the one its environment has.\<close>

type_synonym 'c node = "'c loop_state \<times> world"

definition node_run ::
  "('c, 'z) sync_crates_scheme \<Rightarrow> (string \<Rightarrow> share_env) \<Rightarrow> string \<Rightarrow> loop_event \<Rightarrow> 'c node \<Rightarrow>
   'c node \<times> byte list list \<Rightarrow> bool" where
  "node_run C env p ev s r \<longleftrightarrow> (case sync_step C (env p) ev (fst s) (snd s) of
     ((_, _, ls', msgs), w') \<Rightarrow> r = ((ls', w'), msgs))"

definition node_version :: "'c node \<Rightarrow> version option" where
  "node_version s = loop_version (fst s)"

definition sync_lawful :: "('c, 'z) sync_crates_scheme \<Rightarrow> (string \<Rightarrow> share_env) \<Rightarrow> bool" where
  "sync_lawful C env \<longleftrightarrow> msg_codec_ok C \<and> (\<forall>p. en_peer_id_hex (env p) = p)"

lemma node_run_step:
  "node_run C env p ev s (s', out) \<longleftrightarrow>
     (\<exists>oc reply. sync_step C (env p) ev (fst s) (snd s) = ((oc, reply, fst s', out), snd s'))"
  by (auto simp: node_run_def split: prod.splits)

interpretation sync_net: replica_loop "sync_lawful C env" node_version "node_run C env" delivers "announced C"
  for C env
proof unfold_locales
  fix p ev s s' out
  assume law: "sync_lawful C env" and run: "node_run C env p ev s (s', out)"
  then show "node_version s' = node_version s \<or>
      delivers ev = None \<and> (\<exists>ts vh. node_version s' = Some (edited p ts vh (node_version s))) \<or>
      (\<exists>m v. delivers ev = Some m \<and> announced C m = Some v \<and> node_version s' = Some (received v (node_version s)))"
    using sync_step_version [of C "env p" ev "fst s" "snd s"]
    by (fastforce simp: node_run_step node_version_def sync_lawful_def)
  fix m v
  assume "m \<in> set out" "announced C m = Some v"
  with law run show "node_version s' = Some v"
    using sync_step_announces [of C "env p" ev "fst s" "snd s"]
    by (auto simp: node_run_step node_version_def sync_lawful_def)
qed

section \<open>Restarting\<close>

lemma persist_stored:
  "persist C dd sid s w = (Inr u, w') \<Longrightarrow>
     \<exists>bs. enc_state C \<lparr>ps_version_hash = st_version_hash s, ps_clock = st_clock s, ps_timestamp = st_timestamp s,
       ps_manifest = st_manifest s\<rparr> = Some bs \<and> fs_file w' (state_path dd sid) = Some bs"
  unfolding persist_def
  by (metis is_ok.simps(1) option.collapse state_file.save_ok state_save_unencodable(1))

lemma has_content_ok: "has_content root w = (Inr b, w') \<Longrightarrow> b = (dir_entries w root \<noteq> []) \<and> w_nodes w' = w_nodes w"
  by (auto simp: has_content_def io_bind_eq_Inr dest: fs_read_dir_ok keeps_nodesD [OF keeps_nodes_calls(5)])

lemma reconcile_stored:
  assumes "json_ok C" "persist C dd (sc_id config) s w0 = (Inr u, w)" "tree_ok w"
    and "reconcile_on_start C config root dd me key w = (Inr r, w')"
  defines "vh \<equiv> version_of C (share_files w root)"
  shows "(if dir_entries w root = [] then r = None
     else \<exists>s' ts. r = Some s' \<and> state_version s' =
       (if vh = st_version_hash s then state_version s else edited me ts vh (Some (state_version s))))"
proof -
  from persist_stored [OF assms(2)] obtain bs where bs: "enc_state C \<lparr>ps_version_hash = st_version_hash s,
      ps_clock = st_clock s, ps_timestamp = st_timestamp s, ps_manifest = st_manifest s\<rparr> = Some bs"
    "fs_file w (state_path dd (sc_id config)) = Some bs" by blast
  from assms(4) obtain p w1 b w2 where load: "state_load C dd (sc_id config) w = (Inr p, w1)"
    and has: "has_content root w1 = (Inr b, w2)"
    by (auto simp: reconcile_on_start_def io_bind_eq_Inr)
  note p = state_load_stored [OF assms(1) bs load] and b = has_content_ok [OF has]
  have n2: "w_nodes w2 = w_nodes w" using p(2) b by simp
  have b': "b = (dir_entries w root \<noteq> [])" using b nodes_cong(4) [OF p(2)] by simp
  show ?thesis
  proof (cases "dir_entries w root = []")
    case True
    with assms(4) load has b' show ?thesis by (simp add: reconcile_on_start_def)
  next
    case False
    with assms(4) load has b' p(1) obtain disk_vh man w3 where snap: "snapshot_content C root w2 = (Inr (disk_vh, man), w3)"
      by (auto simp: reconcile_on_start_def io_bind_eq_Inr)
    have "fs_wf w2 \<and> nodes_ok w2" using assms(3) tree_ok_nodes [OF n2] by (simp add: tree_ok_def)
    then have vh: "disk_vh = vh" using snapshot_ok(1) [OF snap] nodes_cong(5) [OF n2] by (simp add: vh_def)
    show ?thesis
    proof (cases "vh = st_version_hash s")
      case True
      with assms(4) load has b' p(1) False snap vh show ?thesis
        by (auto simp: reconcile_on_start_def io_bind_eq_Inr state_version_def)
    next
      case False
      with assms(4) load has b' p(1) \<open>dir_entries w root \<noteq> []\<close> snap vh obtain s' w4 w5 where
        "version_from_disk C config root key vh man (increment (st_clock s) me) w4 = (Inr s', w5)" "r = Some s'"
        by (auto simp: reconcile_on_start_def io_bind_eq_Inr)
      with version_from_disk_version [of C config root key vh man _ w4 s' w5] False \<open>dir_entries w root \<noteq> []\<close>
      show ?thesis by (auto simp: edited_def version_clock_def state_version_def [of s])
    qed
  qed
qed

section \<open>Fetching a version\<close>

lemma fetch_remote_ok:
  assumes "fetch_remote C root ih peers key w = (Inr (tid, man, vh), w')"
  obtains w1 w2 w3 where "bt_fetch C (shadow_root root) ih peers w1 = (Inr tid, w2)"
    "fs_create_dir_all (shadow_root root) w = (Inr (), w1)"
    "sync_shadow_to_plaintext C root key w2 = (Inr man, w3)" "\<exists>m. snapshot_content C root w3 = (Inr (vh, m), w')"
  using assms that by (auto simp: fetch_remote_def io_bind_eq_Inr)

lemma snapshot_keeps_nodes [intro, simp]: "keeps_nodes (snapshot_content C root)"
proof -
  have "keeps_nodes (snapshot_loop C root ps h man)" for ps h man
    by (induction C root ps h man rule: snapshot_loop.induct) (auto simp del: io_return_eq intro!: keeps_nodes_bind)
  then show ?thesis unfolding snapshot_content_def
    by (intro keeps_nodes_bind) (auto simp del: io_return_eq split: prod.split)
qed

text \<open>The hash that is compared is the hash of what is then in the share.\<close>

lemma fetch_remote_hash:
  assumes "fetch_remote C root ih peers key w = (Inr (tid, man, vh), w')" "tree_ok w'"
  shows "vh = version_of C (share_files w' root)"
proof -
  from fetch_remote_ok [OF assms(1)] obtain w3 m where s: "snapshot_content C root w3 = (Inr (vh, m), w')" by metis
  have n: "w_nodes w' = w_nodes w3" using s by (rule keeps_nodesD [rotated]) simp
  with assms(2) have "fs_wf w3" "nodes_ok w3" using tree_ok_nodes [OF n] by (simp_all add: tree_ok_def)
  from snapshot_ok(1) [OF s this] show ?thesis by (simp add: nodes_cong(5) [OF n])
qed

lemma decrypt_files_keeps:
  "decrypt_files C root key srs man w = (Inr man', w') \<Longrightarrow> fs_file w q \<noteq> None \<Longrightarrow>
     \<not> suffix ''.peerdup-tmp'' (last q) \<Longrightarrow> fs_file w' q \<noteq> None"
proof (induction srs arbitrary: man w)
  case (Cons sr srs)
  show ?case
  proof (cases "plaintext_rel_from_shadow_rel sr")
    case None
    with Cons show ?thesis by simp
  next
    case (Some rel)
    let ?p = "root @ rel"
    let ?t = "butlast ?p @ [last ?p @ ''.peerdup-tmp'']"
    from Cons.prems(1) Some obtain ct w1 pt w2 w3 w4 where ne: "?p \<noteq> []"
      and 1: "fs_read (shadow_root root @ sr) w = (Inr ct, w1)" and 2: "fs_create_dir_all (butlast ?p) w1 = (Inr (), w2)"
      and 3: "fs_write ?t pt w2 = (Inr (), w3)" and 4: "fs_rename ?t ?p w3 = (Inr (), w4)"
      and 5: "decrypt_files C root key srs (bset_insert rel man) w4 = (Inr man', w')"
      by (fastforce simp: Let_def io_bind_eq_Inr simp del: append_is_Nil_conv split: if_splits)
    have f2: "fs_file w2 = fs_file w"
      using 1 2 fs_read_files [of "shadow_root root @ sr" w] fs_create_dir_all_files [of "butlast ?p" w1] by simp
    have "q \<noteq> ?t" using Cons.prems(3) by (auto simp: suffix_def)
    moreover have "?t \<noteq> ?p" using ne by (metis append_butlast_last_id append_self_conv last_snoc list.distinct(1))
    ultimately have "fs_file w4 q \<noteq> None"
      using fs_rename_ok [OF 4] fs_write_ok [OF 3] f2 Cons.prems(2) by (auto split: if_splits)
    with Cons.IH [OF 5] Cons.prems(3) show ?thesis by blast
  qed
qed simp

section \<open>Well-formed states\<close>

definition state_ok :: "share_state \<Rightarrow> bool" where
  "state_ok s \<longleftrightarrow> btree_ok (st_clock s) \<and> bset_ok (st_manifest s)"

lemma decrypt_files_manifest:
  "decrypt_files C root key srs man w = (Inr man', w') \<Longrightarrow> bset_ok man \<Longrightarrow> bset_ok man'"
proof (induction srs arbitrary: man w)
  case (Cons sr srs)
  then show ?case
    by (cases "plaintext_rel_from_shadow_rel sr") (auto simp: Let_def io_bind_eq_Inr split: if_splits)
qed simp

lemma sync_shadow_manifest: "sync_shadow_to_plaintext C root key w = (Inr man, w') \<Longrightarrow> bset_ok man"
  by (auto simp: sync_shadow_to_plaintext_def Let_def io_bind_eq_Inr split: if_splits dest: decrypt_files_manifest)

lemma snapshot_manifest: "snapshot_content C root w = (Inr (vh, man), w') \<Longrightarrow> bset_ok man"
  by (auto simp: snapshot_content_def io_bind_eq_Inr dest: snapshot_loop_ok)

lemma clock_of_ok: "(\<forall>s. current = Some s \<longrightarrow> state_ok s) \<Longrightarrow> btree_ok (clock_of current)"
  by (simp add: clock_of_def state_ok_def vc_new_def split: option.split)

lemma handle_local_change_ok:
  assumes "handle_local_change C config root dd me key current w = (Inr (Some st), w')"
    and "\<forall>s. current = Some s \<longrightarrow> state_ok s"
  shows "state_ok st"
proof -
  from assms(1) obtain vh man w1 w2 w3 w4 where snap: "snapshot_content C root w1 = (Inr (vh, man), w2)"
    and v: "version_from_disk C config root key vh man (increment (clock_of current) me) w3 = (Inr st, w4)"
    by (auto simp: handle_local_change_def io_bind_eq_Inr split: if_splits)
  from v have "st_clock st = increment (clock_of current) me \<and> st_manifest st = man"
    by (auto simp: version_from_disk_def io_bind_eq_Inr)
  with snapshot_manifest [OF snap] clock_of_ok [OF assms(2)] show ?thesis
    by (simp add: state_ok_def btree_ok_increment)
qed

lemma apply_remote_sync_state_ok:
  assumes "apply_remote_sync C root ih rvh rc rts eps key current w = (Inr st, w')"
    and "\<forall>s. current = Some s \<longrightarrow> state_ok s"
  shows "state_ok st"
proof -
  obtain w1 w2 tid man where f: "fetch_remote C root ih (usable_peers eps) key w1 = (Inr (tid, man, rvh), w2)"
    and st: "st = \<lparr>st_version_hash = rvh, st_info_hash = ih, st_torrent_id = tid,
       st_clock = merge (clock_of current) rc, st_timestamp = rts, st_manifest = man\<rparr>"
    by (rule apply_remote_sync_ok [OF assms(1)])
  from fetch_remote_ok [OF f] have "bset_ok man" using sync_shadow_manifest by metis
  with st clock_of_ok [OF assms(2)] show ?thesis by (simp add: state_ok_def btree_ok_merge)
qed

lemma apply_announce_ok:
  assumes "apply_announce C env ih eps rvh rc rts ls w = ((oc, reply, ls', msgs), w')"
    and "\<forall>s. ls_current ls = Some s \<longrightarrow> state_ok s"
  shows "\<forall>s. ls_current ls' = Some s \<longrightarrow> state_ok s"
  using assms apply_remote_sync_state_ok [of C "en_root env" ih rvh rc rts eps "ta_key (ls_task ls)" "ls_current ls" w]
  by (auto simp: apply_announce_def split: prod.splits sum.splits)

lemma on_announce_ok:
  assumes "on_announce C env ih eps vh c ts ls w = ((oc, reply, ls', msgs), w')"
    and ok: "\<forall>s. ls_current ls = Some s \<longrightarrow> state_ok s"
  shows "\<forall>s. ls_current ls' = Some s \<longrightarrow> state_ok s"
proof -
  have "(\<exists>rvh rc rts. apply_announce C env ih eps rvh rc rts ls w = ((oc, reply, ls', msgs), w')) \<or> ls' = ls \<or>
      (\<exists>s rc. ls_current ls = Some s \<and> ls_current ls' = Some (s\<lparr>st_clock := merge (st_clock s) rc\<rparr>))"
    using assms(1)
    by (auto simp: on_announce_def Let_def split: option.splits clock_ordering.splits if_splits prod.splits)
  then show ?thesis
  proof (elim disjE exE conjE)
    fix s rc assume "ls_current ls = Some s" "ls_current ls' = Some (s\<lparr>st_clock := merge (st_clock s) rc\<rparr>)"
    with ok show ?thesis by (simp add: state_ok_def btree_ok_merge)
  qed (use ok apply_announce_ok [OF _ ok] in blast)+
qed

end
