(* ===== verification/Converge.thy ===== *)
theory Converge
  imports Sync
begin

text \<open>
  What the sync loops achieve together: replicas that have the same clock hold the same
  version, a version is applied only when the decrypted files are exactly the announced
  ones, and a restart resumes where the loop was.  The network is the one of
  \<open>Replica\<close>, with the loop of \<open>Sync\<close> at every node.
\<close>

section \<open>Two replicas\<close>

text \<open>
  Peer \<^verbatim>\<open>a\<close> has one file, peer \<^verbatim>\<open>b\<close> an empty folder; the torrent client of the example
  delivers the one ciphertext there is.
\<close>

definition demo_machine :: world where
  "demo_machine = calm_world [([''r''], NDir), ([''r'', ''f''], NFile 420 [1, 2]), ([''d''], NDir)]"

definition demo_empty :: world where
  "demo_empty = calm_world [([''r''], NDir), ([''d''], NDir)]"

definition demo_env :: "string \<Rightarrow> share_env" where
  "demo_env p = \<lparr>en_config = demo_config, en_root = [''r''], en_data_dir = [''d''], en_peer_id_hex = p,
     en_identity = [1], en_bt_port = 80\<rparr>"

definition demo_vhash :: string where
  "demo_vhash = (case fst (snapshot_content demo_crypto [''r''] demo_machine) of Inr (vh, _) \<Rightarrow> vh | Inl _ \<Rightarrow> [])"

definition demo_announce :: share_msg where
  "demo_announce = Announce ''h'' [(''127.0.0.1'', 80)] (Some demo_vhash) (Some [(''a'', 1)]) (Some 0)"

definition demo_cipher :: "byte list" where
  "demo_cipher = [1, 0, 0, 0, 0, 0, 0, 0] @
     [0, 1, 2, 3, 4, 5, 6, 7, 8, 9, 10, 11, 12, 13, 14, 15, 16, 17, 18, 19, 20, 21, 22, 23] @ [1, 2] @ replicate 16 0"

definition demo_sync :: "signed_op list sync_crates" where
  "demo_sync = daemon_crates.extend
     (demo_daemon\<lparr>blake3 := blake3 demo_crypto, aead_seal := aead_seal demo_crypto, aead_open := aead_open demo_crypto,
        enc_state := (\<lambda>_. Some [2]),
        enc_msg := (\<lambda>m. if m = demo_announce then Some [5] else None),
        dec_msg := (\<lambda>bs. if bs = [5] then Some demo_announce else None)\<rparr>)
     \<lparr>bt_seed = (\<lambda>_ _. io_return (''h'', 0)),
      bt_fetch = (\<lambda>dir _ _. io_bind (fs_write (dir @ [''f.bin'']) demo_cipher) (\<lambda>_. io_return 0)),
      bt_delete = (\<lambda>_ w. w), gossip_stream = (\<lambda>_. io_return ()), watch_start = (\<lambda>_. io_return ())\<rparr>"

definition demo_loop :: "signed_op list loop_state" where
  "demo_loop = \<lparr>ls_task = demo_task [], ls_current = None\<rparr>"

definition demo_nodes :: "string \<Rightarrow> signed_op list node" where
  "demo_nodes p = (demo_loop, if p = ''a'' then demo_machine else demo_empty)"

text \<open>Peer \<^verbatim>\<open>a\<close> notices its file, then \<^verbatim>\<open>b\<close> receives the announce.\<close>

definition demo_a :: "signed_op list node" where
  "demo_a = (case sync_step demo_sync (demo_env ''a'') LocalChange demo_loop demo_machine of ((_, _, ls, _), w) \<Rightarrow> (ls, w))"

definition demo_b :: "signed_op list node" where
  "demo_b = (case sync_step demo_sync (demo_env ''b'') (GossipItem [5]) demo_loop demo_empty of ((_, _, ls, _), w) \<Rightarrow> (ls, w))"

lemma demo_lawful: "sync_lawful demo_sync demo_env"
  by (simp add: sync_lawful_def demo_env_def msg_codec_ok_def demo_sync_def daemon_crates.defs)

lemma demo_a_version:
  "map_option (\<lambda>s. (st_clock s, st_timestamp s, st_version_hash s)) (ls_current (fst demo_a)) =
     Some ([(''a'', 1)], 0, demo_vhash)"
  by code_simp

lemma demo_b_version:
  "map_option (\<lambda>s. (st_clock s, st_timestamp s, st_version_hash s)) (ls_current (fst demo_b)) =
     Some ([(''a'', 1)], 0, demo_vhash)"
  by code_simp

lemma demo_a_sends: "fst (sync_step demo_sync (demo_env ''a'') LocalChange demo_loop demo_machine) =
    (Continue, None, fst demo_a, [[5]])"
  by code_simp

abbreviation demo_net :: "(string \<Rightarrow> signed_op list node) \<times> byte list set \<Rightarrow>
   (string \<Rightarrow> signed_op list node) \<times> byte list set \<Rightarrow> bool" where
  "demo_net \<equiv> net_step node_version (node_run demo_sync demo_env) delivers"

lemma run_result: "fst (fst x) = a \<Longrightarrow> x = ((a, snd (fst x)), snd x)"
  by (cases x) auto

lemma demo_run:
  "demo_net\<^sup>*\<^sup>* (demo_nodes, {}) (demo_nodes(''a'' := demo_a), {[5]})"
  "\<exists>pool. demo_net\<^sup>*\<^sup>* (demo_nodes, {}) (demo_nodes(''a'' := demo_a, ''b'' := demo_b), pool)"
proof -
  have a: "node_run demo_sync demo_env ''a'' LocalChange (demo_nodes ''a'') (demo_a, [[5]])"
    using demo_a_sends by (auto simp: node_run_def demo_nodes_def demo_a_def split: prod.splits)
  have "timely ''a'' (ts, vh) (node_version (demo_nodes ''a''))" for ts vh
    by (simp add: timely_def node_version_def demo_nodes_def demo_loop_def version_clock_def vc_new_def count_def)
  then have "demo_net (demo_nodes, {}) (demo_nodes(''a'' := demo_a), {} \<union> set [[5]])"
    by (intro Handle [where run = "node_run demo_sync demo_env" and nodes = demo_nodes, OF a]) auto
  then show one: "demo_net\<^sup>*\<^sup>* (demo_nodes, {}) (demo_nodes(''a'' := demo_a), {[5]})" by simp
  obtain oc reply ls out w where
    "sync_step demo_sync (demo_env ''b'') (GossipItem [5]) demo_loop demo_empty = ((oc, reply, ls, out), w)"
    by (metis prod.exhaust)
  then have b: "node_run demo_sync demo_env ''b'' (GossipItem [5]) ((demo_nodes(''a'' := demo_a)) ''b'') (demo_b, out)"
    by (simp add: node_run_def demo_nodes_def demo_b_def del: sync_step.simps)
  have "demo_net (demo_nodes(''a'' := demo_a), {[5]}) ((demo_nodes(''a'' := demo_a))(''b'' := demo_b), {[5]} \<union> set out)"
    by (intro Handle [where run = "node_run demo_sync demo_env" and nodes = "demo_nodes(''a'' := demo_a)", OF b]) auto
  with one show "\<exists>pool. demo_net\<^sup>*\<^sup>* (demo_nodes, {}) (demo_nodes(''a'' := demo_a, ''b'' := demo_b), pool)"
    by (meson rtranclp.rtrancl_into_rtrancl)
qed

lemma demo_nodes_empty: "ls_current (fst (demo_nodes p)) = None"
  by (simp add: demo_nodes_def demo_loop_def)

section \<open>Properties\<close>

text \<open>
  C1. The network of sync loops implements the edit log: whatever messages are delivered,
  repeated, reordered or lost and whatever calls fail, every reachable network agrees
  with a log in which each replica knows exactly the edits its vector clock counts, and
  its time stamp and version hash are those of the greatest edit it knows -- as long as an
  edit is stamped later than the version it replaces and no counter wraps around.
\<close>

theorem network_refines_edit_log:
  assumes "sync_lawful C env" and "\<And>p. ls_current (fst (nodes p)) = None"
    and "(net_step node_version (node_run C env) delivers)\<^sup>*\<^sup>* (nodes, {}) n"
  shows "\<exists>sp. log_step\<^sup>*\<^sup>* log_start sp \<and> agrees node_version (announced C) n sp"
  using sync_net.net_refines [OF assms(1,3)] assms(2) by (simp add: node_version_def)

theorem network_refines_edit_log_witness:
  "\<exists>sp. log_step\<^sup>*\<^sup>* log_start sp \<and>
     agrees node_version (announced demo_sync) (demo_nodes(''a'' := demo_a), {[5]}) sp"
  by (rule network_refines_edit_log [OF demo_lawful demo_nodes_empty demo_run(1)])

text \<open>
  C15. Replicas converge: under the same conditions, two replicas whose clocks are equal
  hold the same version -- the same version hash and the same time stamp.
\<close>

theorem replicas_converge:
  assumes "sync_lawful C env" and "\<And>p. ls_current (fst (nodes p)) = None"
    and "(net_step node_version (node_run C env) delivers)\<^sup>*\<^sup>* (nodes, {}) n"
    and "ls_current (fst (fst n p)) = Some a" "ls_current (fst (fst n q)) = Some b"
    and "compare (st_clock a) (st_clock b) = Equal"
  shows "st_version_hash a = st_version_hash b \<and> st_timestamp a = st_timestamp b"
  using sync_net.converged [OF assms(1,3), of p "state_version a" q "state_version b"] assms(2,4-6)
  by (simp add: node_version_def state_version_def)

theorem replicas_converge_witness:
  "\<exists>a b. ls_current (fst demo_a) = Some a \<and> ls_current (fst demo_b) = Some b \<and>
     st_clock b = [(''a'', 1)] \<and> st_version_hash a = st_version_hash b \<and> st_timestamp a = st_timestamp b"
proof -
  from demo_a_version obtain a where a: "ls_current (fst demo_a) = Some a" "st_clock a = [(''a'', 1)]" by auto
  from demo_b_version obtain b where b: "ls_current (fst demo_b) = Some b" "st_clock b = [(''a'', 1)]" by auto
  from demo_run(2) obtain pool where
    run: "demo_net\<^sup>*\<^sup>* (demo_nodes, {}) (demo_nodes(''a'' := demo_a, ''b'' := demo_b), pool)" by blast
  have "compare (st_clock a) (st_clock b) = Equal" using a b by (simp add: vc.cmp_refl)
  with replicas_converge [OF demo_lawful demo_nodes_empty run, of "''a''" a "''b''" b] a b show ?thesis by auto
qed


text \<open>
  C10. A fetched version is applied exactly if it is what was announced: with peers to
  fetch from, once fetching and decrypting have succeeded, the loop takes the version if
  the share then holds precisely the announced content, and otherwise fails and leaves
  everything as fetched.  When it takes it, the clock is merged with the announced one,
  and if the manifest lists the version no file is deleted.
\<close>

theorem applied_iff_announced_content:
  assumes "hash_len C" "content_ok m" "usable_peers eps \<noteq> []"
    and "fetch_remote C root ih (usable_peers eps) key (drop_torrent C current w) = (Inr (tid, man, vh), w2)"
    and "tree_ok w2" "names_ok w2" "inj_on (blake3 C) (hash_inputs C m \<union> hash_inputs C (share_files w2 root))"
    and "apply_remote_sync C root ih (version_of C m) rc rts eps key current w = (r, w')"
  shows "(is_ok r \<longleftrightarrow> share_files w2 root = m) \<and> (\<not> is_ok r \<longrightarrow> w' = w2) \<and>
    (\<forall>st. r = Inr st \<longrightarrow> st_clock st = merge (clock_of current) rc \<and> st_version_hash st = version_of C m \<and>
       (dom m \<subseteq> set man \<longrightarrow> share_files w' root = m))"
proof -
  have vh: "vh = version_of C (share_files w2 root)" by (rule fetch_remote_hash [OF assms(4,5)])
  have iff: "vh = version_of C m \<longleftrightarrow> share_files w2 root = m"
    unfolding vh using version_of_inject [OF assms(1,2) content_ok_share [OF assms(6)] assms(7)] by metis
  have "(r, w') = (if vh = version_of C m then
      (Inr \<lparr>st_version_hash = version_of C m, st_info_hash = ih, st_torrent_id = tid,
         st_clock = merge (clock_of current) rc, st_timestamp = rts, st_manifest = man\<rparr>,
       case current of None \<Rightarrow> w2 | Some s \<Rightarrow> delete_orphans root (st_manifest s) man w2)
      else (Inl (Bail ''decrypted plaintext version_hash differs from the announced one'' []), w2))"
    using assms(3,4,8) by (auto simp: apply_remote_sync_def Let_def split: if_splits)
  then show ?thesis using iff delete_orphans_keeps [of w2 root man]
    by (cases "vh = version_of C m") (auto split: option.split)
qed

lemma demo_sync_hash: "hash_len demo_sync" "blake3 demo_sync = blake3 demo_crypto"
  by (auto simp: hash_len_def demo_sync_def daemon_crates.defs demo_crypto_def)

lemma version_of_cong: "blake3 C = blake3 D \<Longrightarrow> version_of C = version_of D"
  by (simp add: version_of_def content_bytes_def snapshot_entry_def fun_eq_iff)

definition demo_content :: "path \<Rightarrow> byte list option" where
  "demo_content = [[''f''] \<mapsto> [1, 2]]"

lemma demo_content_ok: "content_ok demo_content"
  by (simp add: demo_content_def content_ok_def name_ok_def)

text \<open>A folder that holds the file of the version and perhaps another one.\<close>

definition demo_fetch :: "world \<Rightarrow> (nat \<times> path list \<times> string) result \<times> world" where
  "demo_fetch = fetch_remote demo_sync [''r''] ''h'' (usable_peers [(''127.0.0.1'', 80)]) demo_ring"

definition demo_kept :: world where
  "demo_kept = calm_world [([''r''], NDir), ([''r'', ''a''], NFile 420 [7])]"

lemma demo_fetched_nodes: "w_nodes (snd (demo_fetch demo_empty)) =
   [([''r''], NDir), ([''d''], NDir), ([''r'', ''.peerdup''], NDir), ([''r'', ''.peerdup'', ''encrypted''], NDir),
    ([''r'', ''.peerdup'', ''encrypted'', ''f.bin''], NFile 420 demo_cipher), ([''r'', ''f''], NFile 420 [1, 2])]"
  by code_simp

lemma demo_kept_nodes: "w_nodes (snd (demo_fetch demo_kept)) =
   [([''r''], NDir), ([''r'', ''a''], NFile 420 [7]), ([''r'', ''.peerdup''], NDir),
    ([''r'', ''.peerdup'', ''encrypted''], NDir),
    ([''r'', ''.peerdup'', ''encrypted'', ''f.bin''], NFile 420 demo_cipher), ([''r'', ''f''], NFile 420 [1, 2])]"
  by code_simp

lemma demo_fetched:
  "tree_ok (snd (demo_fetch demo_empty))" "names_ok (snd (demo_fetch demo_empty))"
  "share_files (snd (demo_fetch demo_empty)) [''r''] = demo_content"
  "tree_ok (snd (demo_fetch demo_kept))" "names_ok (snd (demo_fetch demo_kept))"
  "share_files (snd (demo_fetch demo_kept)) [''r''] = demo_content([''a''] \<mapsto> [7])"
  by (auto intro!: fs_wf_list simp: tree_ok_def nodes_ok_def names_ok_def name_ok_def demo_fetched_nodes demo_kept_nodes
      share_files_def fs_file_def fs_at_def demo_content_def PEERDUP_DIR_NAME_def fun_eq_iff)

lemma demo_inputs:
  "inj_on (blake3 demo_sync) (hash_inputs demo_sync demo_content \<union> hash_inputs demo_sync demo_content)"
proof -
  let ?e = "snapshot_entry demo_sync [''f''] [1, 2]"
  have i: "hash_inputs demo_sync demo_content = {?e, [1, 2]}"
    by (simp add: hash_inputs_def content_bytes_def demo_content_def)
  have "blake3 demo_sync ?e \<noteq> blake3 demo_sync [1, 2]" by code_simp
  then show ?thesis unfolding i by (auto simp: inj_on_def)
qed

theorem applied_iff_announced_content_witness:
  "is_ok (fst (apply_remote_sync demo_sync [''r''] ''h'' (version_of demo_sync demo_content) [(''a'', 1)] 3
     [(''127.0.0.1'', 80)] demo_ring None demo_empty))"
proof -
  obtain tid man vh where "fst (demo_fetch demo_empty) = Inr (tid, man, vh)"
  proof -
    have "is_ok (fst (demo_fetch demo_empty))" by code_simp
    with that show thesis by (metis is_ok_iff prod.exhaust)
  qed
  from run_eq [OF this] have fetch: "fetch_remote demo_sync [''r''] ''h'' (usable_peers [(''127.0.0.1'', 80)]) demo_ring
      (drop_torrent demo_sync None demo_empty) = (Inr (tid, man, vh), snd (demo_fetch demo_empty))"
    by (simp add: demo_fetch_def drop_torrent_def)
  have peers: "usable_peers [(''127.0.0.1'', 80)] \<noteq> []" by code_simp
  have inj: "inj_on (blake3 demo_sync) (hash_inputs demo_sync demo_content \<union>
      hash_inputs demo_sync (share_files (snd (demo_fetch demo_empty)) [''r'']))"
    unfolding demo_fetched(3) by (rule demo_inputs)
  show ?thesis
    using applied_iff_announced_content [OF demo_sync_hash(1) demo_content_ok peers fetch demo_fetched(1,2) inj
        prod.collapse [symmetric], of "[(''a'', 1)]" 3] demo_fetched(3) by simp
qed

text \<open>
  C33. A deletion does not travel: if the receiver still has a file that the announced
  version no longer contains, fetching succeeds, the hash differs, and the version is
  rejected; the file that should be deleted is what prevents its deletion.
\<close>

theorem remote_deletion_rejected:
  assumes "hash_len C" "content_ok m" "usable_peers eps \<noteq> []"
    and bt_delete: "\<And>i v. fs_file (bt_delete C i v) = fs_file v"
    and bt_fetch: "\<And>dir h ps v x v' q. bt_fetch C dir h ps v = (x, v') \<Longrightarrow> take (length dir) q \<noteq> dir \<Longrightarrow> fs_file v' q = fs_file v q"
    and "fetch_remote C root ih (usable_peers eps) key (drop_torrent C current w) = (Inr (tid, man, vh), w2)"
    and "tree_ok w2" "names_ok w2" "inj_on (blake3 C) (hash_inputs C m \<union> hash_inputs C (share_files w2 root))"
    and "share_files w root rel \<noteq> None" "m rel = None" "\<not> suffix ''.peerdup-tmp'' (last rel)"
  shows "apply_remote_sync C root ih (version_of C m) rc rts eps key current w =
    (Inl (Bail ''decrypted plaintext version_hash differs from the announced one'' []), w2)"
proof -
  have rel: "user_rel rel" "fs_file w (root @ rel) \<noteq> None" "last (root @ rel) = last rel"
    using assms(10) by (auto simp: share_files_user_rel user_rel_def split: if_splits)
  from fetch_remote_ok [OF assms(6)] obtain w1 w3 w4 where 1: "fs_create_dir_all (shadow_root root) (drop_torrent C current w) = (Inr (), w1)"
    and 2: "bt_fetch C (shadow_root root) ih (usable_peers eps) w1 = (Inr tid, w3)"
    and 3: "sync_shadow_to_plaintext C root key w3 = (Inr man, w4)"
    and 4: "\<exists>x. snapshot_content C root w4 = (Inr (vh, x), w2)" by metis
  have "fs_file (drop_torrent C current w) = fs_file w" using bt_delete by (simp add: drop_torrent_def split: option.split)
  then have "fs_file w1 (root @ rel) \<noteq> None"
    using rel(2) fs_create_dir_all_files [of "shadow_root root" "drop_torrent C current w"] 1 by simp
  moreover have "take (length (shadow_root root)) (root @ rel) \<noteq> shadow_root root"
  proof
    assume "take (length (shadow_root root)) (root @ rel) = shadow_root root"
    then have "take 2 rel = [PEERDUP_DIR_NAME, ''encrypted'']" by (simp add: shadow_root_def)
    then have "PEERDUP_DIR_NAME \<in> set rel" by (metis in_set_takeD list.set_intros(1))
    with rel(1) show False by (simp add: user_rel_def)
  qed
  ultimately have f3: "fs_file w3 (root @ rel) \<noteq> None" using bt_fetch [OF 2] by simp
  have f4: "fs_file w4 (root @ rel) \<noteq> None"
  proof (cases "fs_exists w3 (shadow_root root)")
    case True
    with 3 obtain srs v where c: "collect (shadow_root root) w3 = (Inr srs, v)"
      and d: "decrypt_files C root key srs [] v = (Inr man, w4)"
      by (auto simp: sync_shadow_to_plaintext_def Let_def io_bind_eq_Inr)
    from nodes_cong(2) [OF keeps_nodesD [OF collect_keeps(1) c]] f3 have "fs_file v (root @ rel) \<noteq> None" by simp
    with decrypt_files_keeps [OF d] assms(12) rel(3) show ?thesis by simp
  next
    case False
    with 3 f3 show ?thesis by (simp add: sync_shadow_to_plaintext_def)
  qed
  have "w_nodes w2 = w_nodes w4" using 4 keeps_nodesD [OF snapshot_keeps_nodes] by metis
  from nodes_cong(2) [OF this] f4 rel(1) have "share_files w2 root rel \<noteq> None" by (simp add: share_files_user_rel)
  with assms(11) have "version_of C m \<noteq> vh"
    using version_of_inject [OF assms(1,2) content_ok_share [OF assms(8)] assms(9)] fetch_remote_hash [OF assms(6,7)] by metis
  with assms(3,6) show ?thesis by (simp add: apply_remote_sync_def Let_def)
qed

lemma demo_kept_inputs:
  "inj_on (blake3 demo_sync) (hash_inputs demo_sync demo_content \<union> hash_inputs demo_sync (demo_content([''a''] \<mapsto> [7])))"
proof -
  let ?e = "snapshot_entry demo_sync [''f''] [1, 2]" and ?a = "snapshot_entry demo_sync [''a''] [7]"
  have d: "dom (demo_content([''a''] \<mapsto> [7])) = set [[''a''], [''f'']]" by (auto simp: demo_content_def)
  have s: "sorted_list_of_set (set [[''a''], [''f'']]) = [[''a''], [''f'']]"
    unfolding sorted_list_of_set_sort_remdups by code_simp
  have c: "content_bytes demo_sync (demo_content([''a''] \<mapsto> [7])) = ?a @ ?e"
    unfolding content_bytes_def d s by (simp add: demo_content_def)
  have r: "ran (demo_content([''a''] \<mapsto> [7])) = {[7], [1, 2]}" by (simp add: demo_content_def)
  have i: "hash_inputs demo_sync demo_content = {?e, [1, 2]}"
    by (simp add: hash_inputs_def content_bytes_def demo_content_def)
  have "distinct (map (blake3 demo_sync) [?e, [1, 2], ?a @ ?e, [7]])" by code_simp
  then have "inj_on (blake3 demo_sync) (set [?e, [1, 2], ?a @ ?e, [7]])" by (simp only: distinct_map)
  then show ?thesis unfolding i hash_inputs_def [of _ "demo_content([''a''] \<mapsto> [7])"] c r
    by (rule inj_on_subset) auto
qed

theorem remote_deletion_rejected_witness:
  "fst (apply_remote_sync demo_sync [''r''] ''h'' (version_of demo_sync demo_content) [(''b'', 1)] 3
     [(''127.0.0.1'', 80)] demo_ring None demo_kept) =
   Inl (Bail ''decrypted plaintext version_hash differs from the announced one'' [])"
proof -
  obtain tid man vh where "fst (demo_fetch demo_kept) = Inr (tid, man, vh)"
  proof -
    have "is_ok (fst (demo_fetch demo_kept))" by code_simp
    with that show thesis by (metis is_ok_iff prod.exhaust)
  qed
  from run_eq [OF this] have fetch: "fetch_remote demo_sync [''r''] ''h'' (usable_peers [(''127.0.0.1'', 80)]) demo_ring
      (drop_torrent demo_sync None demo_kept) = (Inr (tid, man, vh), snd (demo_fetch demo_kept))"
    by (simp add: demo_fetch_def drop_torrent_def)
  have peers: "usable_peers [(''127.0.0.1'', 80)] \<noteq> []" by code_simp
  have del: "fs_file (bt_delete demo_sync i v) = fs_file v" for i v
    by (simp add: demo_sync_def daemon_crates.defs)
  have fet: "fs_file v' q = fs_file v q"
    if "bt_fetch demo_sync dir h ps v = (x, v')" "take (length dir) q \<noteq> dir" for dir h ps v x v' q
  proof -
    have "q \<noteq> dir @ [''f.bin'']" using that(2) by auto
    from fs_write_frame [OF this, of demo_cipher v] that(1) show ?thesis
      by (auto simp: demo_sync_def daemon_crates.defs elim: io_bind_cases)
  qed
  have inj: "inj_on (blake3 demo_sync) (hash_inputs demo_sync demo_content \<union>
      hash_inputs demo_sync (share_files (snd (demo_fetch demo_kept)) [''r'']))"
    unfolding demo_fetched(6) by (rule demo_kept_inputs)
  have a: "share_files demo_kept [''r''] [''a''] \<noteq> None" "demo_content [''a''] = None" "\<not> suffix ''.peerdup-tmp'' (last [''a''])"
    by (auto simp: share_files_def fs_file_def fs_at_def demo_kept_def calm_world_def PEERDUP_DIR_NAME_def
        demo_content_def suffix_def Cons_eq_append_conv)
  from remote_deletion_rejected [OF demo_sync_hash(1) demo_content_ok peers del fet fetch demo_fetched(4,5) inj a]
  show ?thesis by simp
qed

text \<open>
  C34. A restart resumes: if the stored state is the one that was last persisted, the loop
  starts with exactly that version when the files are unchanged, and with an edit of it
  -- one step of its own counter -- when they changed.  If the share root is empty it
  starts without a version, so the stored clock is forgotten.
\<close>

theorem restart_resumes:
  assumes "json_ok C" "persist C dd (sc_id config) s w0 = (Inr (), w)" "tree_ok w"
    and "reconcile_on_start C config root dd me key w = (Inr r, w')"
  defines "vh \<equiv> version_of C (share_files w root)"
  shows "(if dir_entries w root = [] then r = None
     else \<exists>s' ts. r = Some s' \<and> state_version s' =
       (if vh = st_version_hash s then state_version s else edited me ts vh (Some (state_version s))))"
  unfolding vh_def using assms(1-4) by (rule reconcile_stored)

text \<open>A loop that stored a version of its one file and is started again.\<close>

definition demo_saved :: persisted_state where
  "demo_saved = \<lparr>ps_version_hash = demo_vhash, ps_clock = [(''a'', 1)], ps_timestamp = 7, ps_manifest = [[''f'']]\<rparr>"

definition demo_before :: share_state where
  "demo_before = \<lparr>st_version_hash = demo_vhash, st_info_hash = ''h'', st_torrent_id = 0, st_clock = [(''a'', 1)],
     st_timestamp = 7, st_manifest = [[''f'']]\<rparr>"

definition demo_store :: "signed_op list sync_crates" where
  "demo_store = demo_sync\<lparr>enc_config := (\<lambda>_. None), enc_state := (\<lambda>s. if s = demo_saved then Some [2] else None),
     dec_state := (\<lambda>bs. Some \<lparr>pj_version_hash = demo_vhash, pj_clock = [(''a'', 1)], pj_timestamp = Some 7,
        pj_manifest = Some [[''f'']]\<rparr>)\<rparr>"

definition demo_persisted :: world where
  "demo_persisted = snd (persist demo_store [''d''] ''s'' demo_before demo_machine)"

theorem restart_resumes_witness:
  "\<exists>s'. fst (reconcile_on_start demo_store demo_config [''r''] [''d''] ''a'' demo_ring demo_persisted) = Inr (Some s') \<and>
     st_clock s' = [(''a'', 1)] \<and> st_timestamp s' = 7"
proof -
  let ?run = "reconcile_on_start demo_store demo_config [''r''] [''d''] ''a'' demo_ring demo_persisted"
  have json: "json_ok demo_store" by (auto simp: json_ok_def demo_store_def demo_saved_def split: if_splits)
  have p: "persist demo_store [''d''] (sc_id demo_config) demo_before demo_machine = (Inr (), demo_persisted)"
    unfolding demo_persisted_def by (simp add: demo_config_def, rule run_eq, code_simp)
  have keeps: "keeps_tree (persist demo_store [''d''] (sc_id demo_config) demo_before)"
    unfolding persist_def state_save_def Let_def by (intro keeps_tree_bind) (auto split: option.split)
  have "tree_ok demo_machine"
    by (auto intro!: fs_wf_list simp: tree_ok_def nodes_ok_def demo_machine_def calm_world_def)
  then have tree: "tree_ok demo_persisted" by (rule keeps_treeD [OF keeps p])
  have "is_ok (fst ?run)" by code_simp
  then obtain r where r: "fst ?run = Inr r" by (auto simp: is_ok_iff)
  have dir: "dir_entries demo_persisted [''r''] \<noteq> []" by code_simp
  from restart_resumes [OF json p tree run_eq [OF r]] dir obtain s' ts where s': "r = Some s'"
    "state_version s' = (if version_of demo_store (share_files demo_persisted [''r'']) = st_version_hash demo_before
      then state_version demo_before
      else edited ''a'' ts (version_of demo_store (share_files demo_persisted [''r''])) (Some (state_version demo_before)))"
    by auto
  have "share_files demo_persisted [''r''] = demo_content"
  proof -
    have "w_nodes demo_persisted = [([''r''], NDir), ([''r'', ''f''], NFile 420 [1, 2]), ([''d''], NDir),
      ([''d'', ''shares''], NDir), ([''d'', ''shares'', ''s''], NDir),
      ([''d'', ''shares'', ''s'', ''state.json''], NFile 420 [2])]" by code_simp
    then show ?thesis
      by (auto simp: share_files_def fs_file_def fs_at_def demo_content_def PEERDUP_DIR_NAME_def fun_eq_iff)
  qed
  moreover have "version_of demo_store demo_content = demo_vhash"
  proof -
    have "version_of demo_store demo_content = bytes_hex (blake3 demo_store (snapshot_entry demo_store [''f''] [1, 2]))"
      by (simp add: version_of_def content_bytes_def demo_content_def)
    also have "\<dots> = demo_vhash" by code_simp
    finally show ?thesis .
  qed
  ultimately have "state_version s' = state_version demo_before" using s'(2) by (simp add: demo_before_def)
  with s'(1) r show ?thesis by (simp add: state_version_def demo_before_def)
qed



end
