(* ===== verification/Deliver.thy ===== *)
theory Deliver
  imports Converge
begin

text \<open>
  From one peer to the other: what the sync loop of one peer publishes is handled by the
  loop of another (\<^verbatim>\<open>src/daemon.rs\<close>).  A local change makes a version, its ciphertext and an
  announce; the peer that receives the announce fetches, decrypts, checks and takes it.
  A revocation makes a new key and a rotation; a member that receives it can read what is
  encrypted from then on, and nobody else.

  The torrent session is a parameter.  \<open>session_ok\<close> says that seeding and forgetting leave
  the files alone; \<open>serves\<close> says that fetching an info hash, when it ends well, leaves the
  given files below the directory, changes no other file, and keeps the tree well formed.
\<close>

section \<open>The torrent session\<close>

definition session_ok :: "('c, 'z) sync_crates_scheme \<Rightarrow> bool" where
  "session_ok C \<longleftrightarrow>
     (\<forall>dir name. keeps_nodes (bt_seed C dir name) \<and> keeps_faults (bt_seed C dir name)) \<and>
     (\<forall>i v. w_nodes (bt_delete C i v) = w_nodes v \<and> w_fault (bt_delete C i v) = w_fault v)"

definition serves :: "('c, 'z) sync_crates_scheme \<Rightarrow> string \<Rightarrow> (path \<Rightarrow> byte list option) \<Rightarrow> bool" where
  "serves C info_hash files \<longleftrightarrow> (\<forall>dir peers v r v'. bt_fetch C dir info_hash peers v = (r, v') \<longrightarrow>
     (tree_ok v \<longrightarrow> tree_ok v') \<and>
     (case r of
        Inl e \<Rightarrow> e = IoError
      | Inr _ \<Rightarrow> (\<forall>q. take (length dir) q \<noteq> dir \<longrightarrow> fs_file v' q = fs_file v q) \<and>
          (\<forall>rel. fs_file v' (dir @ rel) = (if rel \<in> dom files then files rel else fs_file v (dir @ rel)))))"

lemma servesD:
  assumes "serves C ih files" and "bt_fetch C dir ih peers v = (r, v')"
  shows "tree_ok v \<Longrightarrow> tree_ok v'" "r = Inl e \<Longrightarrow> e = IoError"
    "r = Inr t \<Longrightarrow> take (length dir) q \<noteq> dir \<Longrightarrow> fs_file v' q = fs_file v q"
    "r = Inr t \<Longrightarrow> fs_file v' (dir @ rel) = (if rel \<in> dom files then files rel else fs_file v (dir @ rel))"
  using assms(1) [unfolded serves_def, rule_format, OF assms(2)] by (auto split: sum.splits)

lemma drop_torrent_nodes: "session_ok C \<Longrightarrow> w_nodes (drop_torrent C current v) = w_nodes v"
  and drop_torrent_faults: "session_ok C \<Longrightarrow> fault_free v \<Longrightarrow> fault_free (drop_torrent C current v)"
  by (simp_all add: session_ok_def drop_torrent_def fault_free_def split: option.split)

text \<open>The state of a share is stored outside its folder.\<close>

definition apart :: "share_env \<Rightarrow> bool" where
  "apart env \<longleftrightarrow> take (length (en_root env)) (share_dir (en_data_dir env) (sc_id (en_config env))) \<noteq> en_root env"

lemma persist_apart:
  assumes "persist C (en_data_dir env) (sc_id (en_config env)) s w = (r, w')" and "apart env" and "rel \<noteq> []"
  shows "fs_file w' (en_root env @ rel) = fs_file w (en_root env @ rel)"
proof -
  let ?d = "share_dir (en_data_dir env) (sc_id (en_config env))"
  have "en_root env @ rel \<noteq> ?d @ [f]" for f
  proof
    assume eq: "en_root env @ rel = ?d @ [f]"
    then have "butlast (en_root env @ rel) = ?d" by simp
    then have "?d = en_root env @ butlast rel" using assms(3) by (simp add: butlast_append)
    then show False using assms(2) by (simp add: apart_def)
  qed
  then show ?thesis
    using state_file.save_frame [OF assms(1) [unfolded persist_def]] by (simp add: state_path_def state_tmp_eq)
qed

lemma persist_apart_files:
  assumes "persist C (en_data_dir env) (sc_id (en_config env)) s w = (r, w')" and "apart env"
  shows "share_files w' (en_root env) = share_files w (en_root env)"
    "share_files w' (shadow_root (en_root env)) = share_files w (shadow_root (en_root env))"
  using persist_apart [OF assms] by (auto simp: share_files_def fun_eq_iff shadow_root_def)

section \<open>A version travels\<close>

lemma share_files_cong: "fs_file v = fs_file w \<Longrightarrow> share_files v = share_files w"
  by (simp add: share_files_def fun_eq_iff)

lemma keeps_faults_has_content: "keeps_faults (has_content root)"
  unfolding has_content_def by (intro keeps_faults_bind) (auto simp del: io_return_eq)

lemma snapshot_keeps_faults: "keeps_faults (snapshot_content C root)"
proof -
  have "keeps_faults (snapshot_loop C root ps h man)" for ps h man
    by (induction C root ps h man rule: snapshot_loop.induct) (auto simp del: io_return_eq intro!: keeps_faults_bind)
  then show ?thesis
    unfolding snapshot_content_def by (intro keeps_faults_bind) (auto simp del: io_return_eq split: prod.split)
qed

lemma local_change_published:
  assumes "sync_step C a LocalChange ls w = ((oc, rep, ls', [msg]), w')" and "msg_codec_ok C"
  obtains s where "handle_local_change C (en_config a) (en_root a) (en_data_dir a) (en_peer_id_hex a) (ta_key (ls_task ls))
      (ls_current ls) w = (Inr (Some s), w')" "ls_current ls' = Some s"
    "decode_msg C msg = Some (Announce (st_info_hash s) [(''127.0.0.1'', en_bt_port a)]
       (Some (st_version_hash s)) (Some (st_clock s)) (Some (st_timestamp s)))"
  using assms that
  by (auto simp: publish_sync_announce_def decode_msg_def msg_codec_ok_def split: prod.splits sum.splits option.splits)

lemma handle_local_change_steps:
  assumes "handle_local_change C config root dd me key current w = (Inr (Some s), w')"
  obtains w1 w2 w3 w4 u n where "has_content root w = (Inr True, w1)"
    "snapshot_content C root w1 = (Inr (st_version_hash s, st_manifest s), w2)"
    "sync_plaintext_to_shadow C root key (st_manifest s) (drop_torrent C current w2) = (Inr u, w3)"
    "bt_seed C (shadow_root root) (Some (sc_id config)) w3 = (Inr (st_info_hash s, n), w4)"
    "persist C dd (sc_id config) s (w4\<lparr>w_npos := Suc (w_npos w4)\<rparr>) = (Inr (), w')"
  using assms that
  by (auto simp: handle_local_change_def version_from_disk_def create_and_add_shadow_torrent_def io_bind_eq_Inr
      utc_now_def split: if_splits)

text \<open>What the sender has on disk when it has announced: its files, and a shadow that holds them.\<close>

lemma local_change_leaves:
  assumes "session_ok C" "apart a" "fault_free w" "tree_ok w"
    and names: "\<forall>rel \<in> dom (share_files w (en_root a)). '''' \<notin> set rel"
    and old: "\<forall>sr \<in> dom (share_files w (shadow_root (en_root a))). last sr \<noteq> ''.bin''"
    and ring: "usable_ring C key" "prefix (kr_keys key) (kr_keys later)"
    and run: "handle_local_change C (en_config a) (en_root a) (en_data_dir a) (en_peer_id_hex a) key current w =
      (Inr (Some s), w')"
  defines "m \<equiv> share_files w (en_root a)"
  obtains U where "st_version_hash s = version_of C m" "st_manifest s = sorted_list_of_set (dom m)"
    "share_files w' (en_root a) = m" "shadow_content C later w' (en_root a) = m"
    "dom (share_files w' (shadow_root (en_root a))) = shadow_rel ` dom m \<union> U"
    "\<forall>sr \<in> U. plaintext_rel_from_shadow_rel sr = None"
proof -
  let ?r = "en_root a"
  obtain w1 w2 w3 w4 u n where 1: "has_content ?r w = (Inr True, w1)"
    and 2: "snapshot_content C ?r w1 = (Inr (st_version_hash s, st_manifest s), w2)"
    and 3: "sync_plaintext_to_shadow C ?r key (st_manifest s) (drop_torrent C current w2) = (Inr u, w3)"
    and 4: "bt_seed C (shadow_root ?r) (Some (sc_id (en_config a))) w3 = (Inr (st_info_hash s, n), w4)"
    and 5: "persist C (en_data_dir a) (sc_id (en_config a)) s (w4\<lparr>w_npos := Suc (w_npos w4)\<rparr>) = (Inr (), w')"
    by (rule handle_local_change_steps [OF run])
  let ?d = "drop_torrent C current w2"
  have n1: "w_nodes w1 = w_nodes w" using has_content_ok [OF 1] by simp
  have t1: "fs_wf w1" "nodes_ok w1" using assms(4) tree_ok_nodes [OF n1] by (simp_all add: tree_ok_def)
  note S = snapshot_ok [OF 2 t1, unfolded nodes_cong(5) [OF n1] n1, folded m_def]
  have nd: "w_nodes ?d = w_nodes w" using drop_torrent_nodes [OF assms(1)] S(3) by simp
  have f1: "fault_free w1" using keeps_faultsD [OF keeps_faults_has_content 1 assms(3)] .
  then have "fault_free w2" using keeps_faultsD [OF snapshot_keeps_faults 2] by blast
  then have fd: "fault_free ?d" by (rule drop_torrent_faults [OF assms(1)])
  have td: "tree_ok ?d" using tree_ok_nodes [OF nd] assms(4) by simp
  have md: "share_files ?d ?r = m" "share_files ?d (shadow_root ?r) = share_files w (shadow_root ?r)"
    using nodes_cong(5) [OF nd] by (simp_all add: m_def)
  obtain U where V: "share_files w3 ?r = m" "shadow_content C later w3 ?r = m"
    "dom (share_files w3 (shadow_root ?r)) = shadow_rel ` dom m \<union> U" "\<forall>sr \<in> U. plaintext_rel_from_shadow_rel sr = None"
    by (rule synced_shadow [OF ring fd td, of ?r "st_manifest s" u w3])
      (use names old 3 S(2) md in \<open>simp_all add: m_def\<close>)
  have "keeps_nodes (bt_seed C dir name)" for dir name using assms(1) by (simp add: session_ok_def)
  from keeps_nodesD [OF this 4] have "w_nodes (w4\<lparr>w_npos := Suc (w_npos w4)\<rparr>) = w_nodes w3" by simp
  note n4 = nodes_cong(5) [OF this]
  note F = persist_apart_files [OF 5 assms(2), unfolded n4]
  show thesis
    by (rule that [of U]) (use S V F shadow_content_cong [OF F(2), of C later] in simp_all)
qed

text \<open>Fetching at the receiver: it ends with the announced content unless a call fails.\<close>

lemma snapshot_err: "snapshot_content C root w = (Inl e, w') \<Longrightarrow> e = IoError"
proof -
  have loop: "snapshot_loop C root ps h man w = (Inl e, w') \<Longrightarrow> e = IoError" for ps h man w
  proof (induction C root ps h man arbitrary: w rule: snapshot_loop.induct)
    case (2 C root rel ps h man)
    then show ?case
      by (cases "fs_read (root @ rel) w"; cases "fst (fs_read (root @ rel) w)")
        (auto simp: io_bind_def dest: fs_call_errors(1))
  qed simp
  assume "snapshot_content C root w = (Inl e, w')"
  then show "e = IoError" unfolding snapshot_content_def
    by (elim io_bind_cases) (auto dest: collect_err loop)
qed

lemma sync_shadow_keeps_tree: "keeps_tree (sync_shadow_to_plaintext C root key)"
proof -
  have d: "keeps_tree (decrypt_files C root key srs man)" for srs man
  proof (induction srs arbitrary: man)
    case (Cons sr srs)
    then show ?case
      by (cases "plaintext_rel_from_shadow_rel sr")
        (auto simp: Let_def simp del: io_return_eq io_fail_eq io_lift_eq intro!: keeps_tree_bind)
  qed (simp del: io_return_eq)
  have "keeps_tree (io_bind (collect (shadow_root root)) (\<lambda>srs. decrypt_files C root key srs []))"
    by (intro keeps_tree_bind d keeps_nodes_tree [OF collect_keeps(1)])
  then show ?thesis by (simp add: keeps_tree_def sync_shadow_to_plaintext_def Let_def)
qed

lemma served_files:
  assumes "serves C ih files" and "bt_fetch C (shadow_root root) ih peers v = (Inr tid, v')" and "tree_ok v"
    and files: "files = share_files u dir" and sub: "dom (share_files v (shadow_root root)) \<subseteq> dom files"
  shows "share_files v' (shadow_root root) = files" "share_files v' root = share_files v root" "tree_ok v'"
proof -
  have out: "fs_file v' q = fs_file v q" if "take (length (shadow_root root)) q \<noteq> shadow_root root" for q
    using servesD(3) [OF assms(1,2) refl that] .
  have in_dir: "fs_file v' (shadow_root root @ rel) =
      (if rel \<in> dom files then files rel else fs_file v (shadow_root root @ rel))" for rel
    using servesD(4) [OF assms(1,2) refl] .
  show "tree_ok v'" using servesD(1) [OF assms(1-3)] .
  show "share_files v' (shadow_root root) = files"
  proof
    fix rel
    show "share_files v' (shadow_root root) rel = files rel"
    proof (cases "user_rel rel")
      case True
      have "fs_file v (shadow_root root @ rel) = None" if "rel \<notin> dom files"
      proof -
        have "share_files v (shadow_root root) rel = None" using sub that by blast
        with True show ?thesis by (simp add: share_files_user_rel)
      qed
      with True in_dir [of rel] show ?thesis by (cases "files rel") (simp_all add: share_files_user_rel [of v'] domIff)
    qed (simp add: files share_files_user_rel)
  qed
  show "share_files v' root = share_files v root"
  proof
    fix rel
    have "take (length (shadow_root root)) (root @ rel) \<noteq> shadow_root root" if "user_rel rel"
      using not_in_shadow [of rel root "drop (length (shadow_root root)) (root @ rel)"] that
      by (metis append_take_drop_id user_rel_def)
    with out show "share_files v' root rel = share_files v root rel" by (simp add: share_files_user_rel)
  qed
qed

lemma fetch_announced:
  assumes "serves C ih (share_files u (shadow_root ra))" and "tree_ok v" and m: "sendable m"
    and dom: "dom (share_files u (shadow_root ra)) = shadow_rel ` dom m \<union> U"
    and U: "\<forall>sr \<in> U. plaintext_rel_from_shadow_rel sr = None" and c: "shadow_content C key u ra = m"
    and old: "dom (share_files v (shadow_root rb)) \<subseteq> dom (share_files u (shadow_root ra))" "dom (share_files v rb) \<subseteq> dom m"
    and run: "fetch_remote C rb ih peers key v = (r, v')" and io: "r \<noteq> Inl IoError"
  shows "\<exists>tid. r = Inr (tid, sorted_list_of_set (dom m), version_of C m)" "share_files v' rb = m"
proof -
  let ?sh = "shadow_root rb"
  obtain r1 v1 where 1: "fs_create_dir_all ?sh v = (r1, v1)" by (metis prod.exhaust)
  have r1: "r1 = Inr ()" using run io 1 fs_call_errors(4) [of ?sh v _ v1]
    by (cases r1) (auto simp: fetch_remote_def io_bind_def)
  have f1: "fs_file v1 = fs_file v" using fs_create_dir_all_files [of ?sh v] 1 by simp
  have t1: "tree_ok v1" using keeps_treeD [OF keeps_tree_calls(5) 1 assms(2)] .
  obtain r2 v2 where 2: "bt_fetch C ?sh ih peers v1 = (r2, v2)" by (metis prod.exhaust)
  then obtain tid where r2: "r2 = Inr tid" using run io 1 r1 servesD(2) [OF assms(1) 2]
    by (cases r2) (auto simp: fetch_remote_def io_bind_def)
  note S = served_files [OF assms(1) 2 [unfolded r2] t1 refl]
  have sub: "dom (share_files v1 ?sh) \<subseteq> dom (share_files u (shadow_root ra))"
    using old(1) unfolding share_files_cong [OF f1] .
  note S = S(1) [OF sub] S(2) [OF sub] S(3) [OF sub]
  have c2: "shadow_content C key v2 rb = m" using shadow_content_cong [OF S(1), of C key] c by simp
  obtain r3 v3 where 3: "sync_shadow_to_plaintext C rb key v2 = (r3, v3)" by (metis prod.exhaust)
  have dom2: "dom (share_files v2 ?sh) = shadow_rel ` dom m \<union> U" using S(1) dom by simp
  obtain man where r3: "r3 = Inr man"
    using run io 1 r1 2 r2 3 shadow_received_err [OF _ S(3) m dom2 U c2, of _ v3]
    by (cases r3) (auto simp: fetch_remote_def io_bind_def)
  note R = shadow_received [OF 3 [unfolded r3] S(3) m dom2 U c2]
  have m3: "share_files v3 rb = m"
  proof
    fix rel
    have "share_files v2 rb rel = None" if "rel \<notin> dom m"
      using that old(2) unfolding S(2) share_files_cong [OF f1] by blast
    with R(2) [of rel] show "share_files v3 rb rel = m rel" by (cases "m rel") (simp_all add: domIff)
  qed
  have t3: "fs_wf v3" "nodes_ok v3" using keeps_treeD [OF sync_shadow_keeps_tree 3 S(3)] by (simp_all add: tree_ok_def)
  obtain r4 v4 where 4: "snapshot_content C rb v3 = (r4, v4)" by (metis prod.exhaust)
  then obtain vh x where r4: "r4 = Inr (vh, x)" using run io 1 r1 2 r2 3 r3 snapshot_err [of C rb v3 _ v4]
    by (cases r4) (auto simp: fetch_remote_def io_bind_def)
  have "r = Inr (tid, man, vh)" and v': "v' = v4" using run 1 r1 2 r2 3 r3 4 r4 by (auto simp: fetch_remote_def io_bind_def)
  with snapshot_ok(1) [OF 4 [unfolded r4] t3] m3 R(1)
  show "\<exists>tid. r = Inr (tid, sorted_list_of_set (dom m), version_of C m)" by simp
  show "share_files v' rb = m"
    using nodes_cong(5) [OF snapshot_ok(3) [OF 4 [unfolded r4] t3]] m3 v' by simp
qed

text \<open>The receiver is behind: it has no version, an older one, or loses the conflict.\<close>

definition behind :: "share_state option \<Rightarrow> share_state \<Rightarrow> bool" where
  "behind current s \<longleftrightarrow> (case current of
     None \<Rightarrow> True
   | Some l \<Rightarrow> compare (st_clock l) (st_clock s) = OtherDominates \<or>
       compare (st_clock l) (st_clock s) = Concurrent \<and>
       \<not> lww_we_win (st_timestamp l) (st_version_hash l) (st_timestamp s) (st_version_hash s))"

lemma on_announce_behind:
  "behind (ls_current ls) s \<Longrightarrow>
     on_announce C env ih eps (Some (st_version_hash s)) (Some (st_clock s)) (Some (st_timestamp s)) ls w =
     apply_announce C env ih eps (st_version_hash s) (st_clock s) (st_timestamp s) ls w"
  by (auto simp: behind_def on_announce_def split: option.splits)

text \<open>Once the fetch ended with the announced version, the receiver takes it.\<close>

lemma announce_taken:
  assumes "behind (ls_current lb) s" "apart b" and dec: "decode_msg C msg = Some (Announce (st_info_hash s)
      [(''127.0.0.1'', port)] (Some (st_version_hash s)) (Some (st_clock s)) (Some (st_timestamp s)))"
    and f: "fetch_remote C (en_root b) (st_info_hash s) (usable_peers [(''127.0.0.1'', port)]) (ta_key (ls_task lb))
      (drop_torrent C (ls_current lb) v) = (Inr (tid, st_manifest s, st_version_hash s), v2)"
    and man: "dom (share_files v2 (en_root b)) \<subseteq> set (st_manifest s)"
    and step: "sync_step C b (GossipItem msg) lb v = ((oc, rep, lb', out), v')"
  shows "share_files v' (en_root b) = share_files v2 (en_root b) \<and>
    (\<exists>s'. ls_current lb' = Some s' \<and> state_version s' = taken (state_version s) (loop_version lb) \<and>
       st_manifest s' = st_manifest s \<and> out = publish_sync_announce C s' (en_bt_port b))"
proof -
  let ?s' = "\<lparr>st_version_hash = st_version_hash s, st_info_hash = st_info_hash s, st_torrent_id = tid,
      st_clock = merge (clock_of (ls_current lb)) (st_clock s), st_timestamp = st_timestamp s, st_manifest = st_manifest s\<rparr>"
  let ?v3 = "case ls_current lb of None \<Rightarrow> v2 | Some l \<Rightarrow> delete_orphans (en_root b) (st_manifest l) (st_manifest s) v2"
  have ar: "apply_remote_sync C (en_root b) (st_info_hash s) (st_version_hash s) (st_clock s) (st_timestamp s)
      [(''127.0.0.1'', port)] (ta_key (ls_task lb)) (ls_current lb) v = (Inr ?s', ?v3)"
    using f by (simp add: apply_remote_sync_def Let_def own_endpoint_usable)
  have f3: "share_files ?v3 (en_root b) = share_files v2 (en_root b)"
    using delete_orphans_keeps [OF man] by (simp split: option.split)
  obtain x v4 where p: "persist C (en_data_dir b) (sc_id (en_config b)) ?s' ?v3 = (x, v4)" by (metis prod.exhaust)
  have "sync_step C b (GossipItem msg) lb v =
      ((Continue, None, lb\<lparr>ls_current := Some ?s'\<rparr>, publish_sync_announce C ?s' (en_bt_port b)), v4)"
    using dec on_announce_behind [OF assms(1), of C b] ar p by (simp add: apply_announce_def)
  with step have lb': "ls_current lb' = Some ?s'" and out: "out = publish_sync_announce C ?s' (en_bt_port b)"
    and v': "v' = v4" by auto
  have "share_files v' (en_root b) = share_files v2 (en_root b)" using persist_apart_files(1) [OF p assms(2)] f3 v' by simp
  moreover have "state_version ?s' = taken (state_version s) (loop_version lb)"
    by (simp add: state_version_def taken_def clock_of_version)
  ultimately show ?thesis using lb' out by (intro conjI exI [of _ ?s']) simp_all
qed

text \<open>
  C2. An edit reaches the other peers: when a loop has published the announce of a local
  change and no system call of its own failed, any peer that is behind, holds the keys, and
  has no file the version does not have takes the version when it receives the announce,
  unless a system call or the transfer fails.  It then has exactly the sender's files, the
  sender's version with its own clock merged in, and announces it on.  The names of the
  files must not be empty or those of each other's temporary files.
\<close>

theorem edit_reaches_peer:
  assumes "msg_codec_ok C" "session_ok C" "apart a" "apart b"
    and "usable_ring C (ta_key (ls_task ls))" "prefix (kr_keys (ta_key (ls_task ls))) (kr_keys (ta_key (ls_task lb)))"
    and "fault_free w" "tree_ok w" "sendable (share_files w (en_root a))"
    and "\<forall>sr \<in> dom (share_files w (shadow_root (en_root a))). last sr \<noteq> ''.bin''"
    and "sync_step C a LocalChange ls w = ((oc, rep, ls', [msg]), w')" "ls_current ls' = Some s"
    and "serves C (st_info_hash s) (share_files w' (shadow_root (en_root a)))"
    and "behind (ls_current lb) s" "tree_ok v" "dom (share_files v (en_root b)) \<subseteq> dom (share_files w (en_root a))"
    and "dom (share_files v (shadow_root (en_root b))) \<subseteq> dom (share_files w' (shadow_root (en_root a)))"
    and "fst (fetch_remote C (en_root b) (st_info_hash s) (usable_peers [(''127.0.0.1'', en_bt_port a)])
      (ta_key (ls_task lb)) (drop_torrent C (ls_current lb) v)) \<noteq> Inl IoError"
    and "sync_step C b (GossipItem msg) lb v = ((oc', rep', lb', out), v')"
  shows "share_files w' (en_root a) = share_files w (en_root a) \<and> share_files v' (en_root b) = share_files w (en_root a) \<and>
    (\<exists>s'. ls_current lb' = Some s' \<and> state_version s' = taken (state_version s) (loop_version lb) \<and>
       st_version_hash s' = version_of C (share_files w (en_root a)) \<and> st_manifest s' = st_manifest s \<and>
       out = publish_sync_announce C s' (en_bt_port b))"
proof -
  let ?m = "share_files w (en_root a)" and ?ps = "usable_peers [(''127.0.0.1'', en_bt_port a)]"
  let ?key = "ta_key (ls_task lb)" and ?d = "drop_torrent C (ls_current lb) v"
  obtain s0 where hl: "handle_local_change C (en_config a) (en_root a) (en_data_dir a) (en_peer_id_hex a)
      (ta_key (ls_task ls)) (ls_current ls) w = (Inr (Some s0), w')" and "ls_current ls' = Some s0"
    and dec0: "decode_msg C msg = Some (Announce (st_info_hash s0) [(''127.0.0.1'', en_bt_port a)]
       (Some (st_version_hash s0)) (Some (st_clock s0)) (Some (st_timestamp s0)))"
    by (rule local_change_published [OF assms(11,1)])
  then have s0: "s0 = s" using assms(12) by simp
  note hl = hl [unfolded s0] and dec = dec0 [unfolded s0]
  have names: "\<forall>rel \<in> dom ?m. '''' \<notin> set rel" using assms(9) by (simp add: sendable_def)
  obtain U where S: "st_version_hash s = version_of C ?m" "st_manifest s = sorted_list_of_set (dom ?m)"
    "share_files w' (en_root a) = ?m" "shadow_content C ?key w' (en_root a) = ?m"
    "dom (share_files w' (shadow_root (en_root a))) = shadow_rel ` dom ?m \<union> U"
    "\<forall>sr \<in> U. plaintext_rel_from_shadow_rel sr = None"
    by (rule local_change_leaves [OF assms(2,3,7,8) names assms(10,5,6) hl])
  obtain r v2 where f: "fetch_remote C (en_root b) (st_info_hash s) ?ps ?key ?d = (r, v2)" by (metis prod.exhaust)
  have nd: "w_nodes ?d = w_nodes v" by (rule drop_torrent_nodes [OF assms(2)])
  have td: "tree_ok ?d" using tree_ok_nodes [OF nd] assms(15) by simp
  note F = fetch_announced [OF assms(13) td assms(9) S(5,6,4) _ _ f]
  have F: "\<exists>tid. r = Inr (tid, sorted_list_of_set (dom ?m), version_of C ?m)" "share_files v2 (en_root b) = ?m"
    using F assms(16-18) f by (simp_all add: nodes_cong(5) [OF nd])
  then obtain tid where r: "r = Inr (tid, sorted_list_of_set (dom ?m), version_of C ?m)" by blast
  have "dom (share_files v2 (en_root b)) \<subseteq> set (st_manifest s)" using F(2) S(2) assms(9) by (simp add: sendable_def)
  from announce_taken [OF assms(14,4) dec _ this assms(19)] f r S F(2) show ?thesis
    by (auto simp: state_version_def taken_def)
qed

text \<open>Peer \<^verbatim>\<open>a\<close> has a file and \<^verbatim>\<open>b\<close> has none; the session hands out the ciphertext of that file.\<close>

lemma demo_session: "session_ok demo_sync"
  by (auto simp: session_ok_def demo_sync_def daemon_crates.defs keeps_nodes_def keeps_faults_def)

lemma demo_serves: "serves demo_sync ih [[''f.bin''] \<mapsto> demo_cipher]"
proof -
  have fetch: "bt_fetch demo_sync dir ih peers v = io_bind (fs_write (dir @ [''f.bin'']) demo_cipher) (\<lambda>_. io_return 0) v"
    for dir peers v by (simp add: demo_sync_def daemon_crates.defs)
  show ?thesis
    unfolding serves_def fetch
  proof (intro allI impI)
    fix dir and peers :: "(string \<times> nat) list" and v r v'
    assume run: "io_bind (fs_write (dir @ [''f.bin'']) demo_cipher) (\<lambda>_. io_return 0) v = (r, v')"
    obtain r1 v1 where 1: "fs_write (dir @ [''f.bin'']) demo_cipher v = (r1, v1)" by (metis prod.exhaust)
    with run have "v' = v1" by (cases r1) (auto simp: io_bind_def)
    with run 1 keeps_treeD [OF keeps_tree_calls(6) 1] fs_write_ok [of "dir @ [''f.bin'']" demo_cipher v]
    show "(tree_ok v \<longrightarrow> tree_ok v') \<and> (case r of Inl e \<Rightarrow> e = IoError | Inr _ \<Rightarrow>
        (\<forall>q. take (length dir) q \<noteq> dir \<longrightarrow> fs_file v' q = fs_file v q) \<and>
        (\<forall>rel. fs_file v' (dir @ rel) = (if rel \<in> dom [[''f.bin''] \<mapsto> demo_cipher] then [[''f.bin''] \<mapsto> demo_cipher] rel
           else fs_file v (dir @ rel))))"
      by (cases r1) (auto simp: io_bind_def dest!: fs_call_errors(2))
  qed
qed

lemma demo_a_nodes: "w_nodes (snd demo_a) =
   [([''r''], NDir), ([''r'', ''f''], NFile 420 [1, 2]), ([''d''], NDir), ([''r'', ''.peerdup''], NDir),
    ([''r'', ''.peerdup'', ''encrypted''], NDir), ([''r'', ''.peerdup'', ''encrypted'', ''f.bin''], NFile 420 demo_cipher),
    ([''d'', ''shares''], NDir), ([''d'', ''shares'', ''s''], NDir),
    ([''d'', ''shares'', ''s'', ''state.json''], NFile 420 [2])]"
  by code_simp

lemma demo_a_files: "share_files (snd demo_a) (shadow_root [''r'']) = [[''f.bin''] \<mapsto> demo_cipher]"
  by (auto simp: share_files_def fs_file_def fs_at_def demo_a_nodes shadow_root_def PEERDUP_DIR_NAME_def fun_eq_iff)

lemma demo_start_files:
  "share_files demo_machine [''r''] = demo_content" "share_files demo_machine (shadow_root [''r'']) = (\<lambda>_. None)"
  "share_files demo_empty [''r''] = (\<lambda>_. None)" "share_files demo_empty (shadow_root [''r'']) = (\<lambda>_. None)"
  by (auto simp: share_files_def fs_file_def fs_at_def demo_machine_def demo_empty_def calm_world_def shadow_root_def
      demo_content_def PEERDUP_DIR_NAME_def fun_eq_iff)

lemma demo_start_trees: "tree_ok demo_machine" "tree_ok demo_empty"
  by (auto intro!: fs_wf_list simp: tree_ok_def nodes_ok_def demo_machine_def demo_empty_def calm_world_def)

lemma demo_a_info: "map_option st_info_hash (ls_current (fst demo_a)) = Some ''h''"
  by code_simp

lemma demo_ring_usable: "usable_ring demo_sync (ta_key (ls_task demo_loop))"
proof -
  have "aead_seal demo_sync = aead_seal demo_crypto" "aead_open demo_sync = aead_open demo_crypto"
    by (simp_all add: demo_sync_def daemon_crates.defs)
  with demo_aead_ok have "aead_ok demo_sync" unfolding aead_ok_def by metis
  then show ?thesis by (simp add: usable_ring_def keys_ok_def KEY_LEN_def demo_loop_def demo_task_def)
qed

theorem edit_reaches_peer_witness:
  "\<exists>ls' w' lb' v' out oc. sync_step demo_sync (demo_env ''a'') LocalChange demo_loop demo_machine =
       ((Continue, None, ls', [[5]]), w') \<and>
     sync_step demo_sync (demo_env ''b'') (GossipItem [5]) demo_loop demo_empty = ((oc, None, lb', out), v') \<and>
     share_files v' [''r''] = demo_content"
proof -
  obtain s where s: "ls_current (fst demo_a) = Some s" "st_info_hash s = ''h''" using demo_a_info by auto
  have a: "sync_step demo_sync (demo_env ''a'') LocalChange demo_loop demo_machine = ((Continue, None, fst demo_a, [[5]]), snd demo_a)"
    using demo_a_sends by (auto simp: demo_a_def split: prod.splits)
  obtain oc lb' out v' where b: "sync_step demo_sync (demo_env ''b'') (GossipItem [5]) demo_loop demo_empty = ((oc, None, lb', out), v')"
  proof -
    have "fst (snd (fst (sync_step demo_sync (demo_env ''b'') (GossipItem [5]) demo_loop demo_empty))) = None" by code_simp
    with that show thesis by (metis prod.collapse)
  qed
  have env: "en_root (demo_env p) = [''r'']" "en_bt_port (demo_env p) = 80" "apart (demo_env p)" for p
    by (simp_all add: demo_env_def apart_def share_dir_def shares_dir_def)
  have none: "ls_current demo_loop = None" by (simp add: demo_loop_def)
  have codec: "msg_codec_ok demo_sync" using demo_lawful by (simp add: sync_lawful_def)
  have calm: "fault_free demo_machine" by (simp add: demo_machine_def)
  have m: "sendable demo_content" by (simp add: sendable_def demo_content_def tmp_rel_def user_rel_def PEERDUP_DIR_NAME_def)
  have io: "fst (fetch_remote demo_sync [''r''] ''h'' (usable_peers [(''127.0.0.1'', 80)]) (ta_key (ls_task demo_loop))
      (drop_torrent demo_sync None demo_empty)) \<noteq> Inl IoError" by code_simp
  have "share_files v' [''r''] = demo_content"
    using edit_reaches_peer [OF codec demo_session env(3,3) demo_ring_usable _ calm demo_start_trees(1) _ _ a s(1) _ _
        demo_start_trees(2) _ _ _ b, unfolded env none s(2) demo_start_files demo_a_files] m demo_serves io
    by (simp add: behind_def)
  then show ?thesis using a b by blast
qed

section \<open>A revocation travels\<close>

text \<open>A member that is a recipient of the next rotation installs its key; to others it changes nothing.\<close>

lemma rotation_received:
  assumes v: "verify_and_decrypt C rot (ta_auth t) (group_id_for C (sc_id (en_config b))) (en_identity b) =
      (if here then OkForUs k else NotForUs)"
    and "unat (rot_epoch rot) = length ks + 1" "length ks + 1 < 2 ^ 58"
    and ready: "share_ready w (en_data_dir b) (sc_id (en_config b)) ks" "ta_key t = \<lparr>kr_keys = ks\<rparr>" "ta_buffer t = []"
    and run: "on_key_rotation C b rot t w = (t', w')"
  shows "ta_key t' = \<lparr>kr_keys = (if here then ks @ [k] else ks)\<rparr>"
proof (cases here)
  case False
  with assms show ?thesis by (auto simp: on_key_rotation_def apply_key_rotation_def try_install_rotation_def)
next
  case True
  let ?sid = "sc_id (en_config b)" and ?st = "ta_auth t" and ?g = "group_id_for C (sc_id (en_config b))"
  have R: "rotations_for C ?st ?g (en_identity b) ks [rot] [k]" using assms True by (simp add: rotations_for_def)
  have "caught_up ks [rot] [k] (en_data_dir b) ?sid (ta_key t, ta_buffer t) w {}"
    using ready by (auto simp: caught_up_def at_epoch_def buffer_ok_def)
  from apply_key_rotation_catches_up [OF R _ this, of rot] obtain kb w1 where
    a: "apply_key_rotation C rot ?st ?g (en_identity b) (en_data_dir b) ?sid (ta_key t, ta_buffer t) w = ((Inr (), kb), w1)"
    and c: "caught_up ks [rot] [k] (en_data_dir b) ?sid kb w1 {rot}" by (auto simp: ROTATION_BUFFER_CAP_def)
  from c have "fst kb = \<lparr>kr_keys = ks @ [k]\<rparr>" by (auto simp: caught_up_def at_epoch_def le_Suc_eq)
  with a run True show ?thesis by (auto simp: on_key_rotation_def Let_def split: prod.splits)
qed

lemma pending_published: "rot \<in> set pending \<Longrightarrow> enc_msg C (KeyRotation rot) = Some msg \<Longrightarrow>
    msg \<in> set (publish_pending_rotations C pending)"
  by (induction C pending rule: publish_pending_rotations.induct) (auto split: option.splits)

text \<open>
  C3. A revocation takes effect at every peer: the next tick of the owner publishes the
  rotation, and a peer that holds the ring of before, knows the owner and receives it then
  reads what the owner encrypts exactly if it is a member who stays; for the revoked peer
  and for strangers there is no key.
\<close>

theorem revocation_reaches_peers:
  assumes "ed_ok C" "box_ok C" "aead_ok C" "msg_codec_ok C"
    and "disk_keys w (en_data_dir a) (sc_id (en_config a)) = Some ks" "length ks + 1 < 2 ^ 58"
    and revoke: "sync_step C a (Command (Revoke target)) ls w = ((oc, Some (RevokeReply (Inr e)), ls1, out), w1)"
    and tick: "sync_step C a AnnounceTick ls1 w2 = ((oc2, rep2, ls2, msgs), w3)"
    and enc: "encrypt C (ta_key (ls_task ls2)) pt x = (Inr blob, x')"
    and "sc_id (en_config b) = sc_id (en_config a)" "share_ready v (en_data_dir b) (sc_id (en_config a)) ks"
    and "ta_key (ls_task lb) = \<lparr>kr_keys = ks\<rparr>" "ta_buffer (ls_task lb) = []"
    and "(MemberId (pub_of C (en_identity a)), Owner) \<in>
      set (members C (ta_auth (ls_task lb)) (group_id_for C (sc_id (en_config a))))"
  shows "\<exists>rot. ta_pending (ls_task ls1) = ta_pending (ls_task ls) @ [rot] \<and>
    (\<forall>msg. enc_msg C (KeyRotation rot) = Some msg \<longrightarrow> msg \<in> set msgs \<and>
      (\<forall>oc' rep' lb' out' v'. sync_step C b (GossipItem msg) lb v = ((oc', rep', lb', out'), v') \<longrightarrow>
        decrypt C (ta_key (ls_task lb')) blob =
          (if MemberId (pub_of C (en_identity b)) \<in>
                fst ` set (members C (ta_auth (ls_task ls1)) (group_id_for C (sc_id (en_config a)))) - {target}
           then Inr pt else Inl (Bail ''no key for epoch'' [length ks + 1, length ks]))))"
proof -
  let ?sid = "sc_id (en_config a)" and ?key = "ta_key (ls_task ls1)"
  let ?stays = "MemberId (pub_of C (en_identity b)) \<in> fst ` set (members C (ta_auth (ls_task ls1)) (group_id_for C ?sid)) - {target}"
  have hr: "handle_revoke C (en_config a) (en_data_dir a) (en_identity a) target (ls_task ls) w = ((Inr e, ls_task ls1), w1)"
    using revoke by (auto simp: on_command_def split: prod.splits)
  have len: "length ks < 2 ^ 58" using assms(6) by simp
  obtain rot k where k: "length k = KEY_LEN" "length (rot_signature rot) = SIGNATURE_LEN" "unat e = length ks + 1"
    "kr_keys ?key = ks @ [k]" "ta_pending (ls_task ls1) = ta_pending (ls_task ls) @ [rot]" "rot_epoch rot = e"
    and opens: "verify_and_decrypt C rot (ta_auth (ls_task lb)) (group_id_for C ?sid) (en_identity b) =
      (if ?stays then OkForUs k else NotForUs)"
    using revoke_result [OF assms(1,2,5) len hr] assms(14) by blast
  then have opens': "verify_and_decrypt C rot (ta_auth (ls_task lb)) (group_id_for C (sc_id (en_config b))) (en_identity b) =
      (if ?stays then OkForUs k else NotForUs)" by (simp only: assms(10))
  have ready: "share_ready v (en_data_dir b) (sc_id (en_config b)) ks" using assms(11) by (simp only: assms(10))
  have ls2: "ls2 = ls1" and msgs: "set (publish_pending_rotations C (ta_pending (ls_task ls1))) \<subseteq> set msgs"
    using tick by auto
  have ring: "ring_ok ?key" using k(1,4) disk_keys_ok [OF assms(5)] by (simp add: keys_ok_def)
  note enc = enc [unfolded ls2]
  have "decrypt C \<lparr>kr_keys = (if ?stays then ks @ [k] else ks)\<rparr> blob =
      (if ?stays then Inr pt else Inl (Bail ''no key for epoch'' [length ks + 1, length ks]))"
    using sealed_opens [OF assms(3) ring _ enc, of "\<lparr>kr_keys = ks @ [k]\<rparr>"]
      sealed_locked [OF assms(3) ring _ enc, of ks] k(4) assms(6) by simp
  moreover have "ta_key (ls_task lb') = \<lparr>kr_keys = (if ?stays then ks @ [k] else ks)\<rparr>"
    if "enc_msg C (KeyRotation rot) = Some msg" "sync_step C b (GossipItem msg) lb v = ((oc', rep', lb', out'), v')"
    for msg oc' rep' lb' out' v'
  proof -
    have "decode_msg C msg = Some (KeyRotation rot)"
      using that(1) assms(4) k(2) by (simp add: decode_msg_def msg_codec_ok_def sig_deserialize_def)
    with that(2) have "on_key_rotation C b rot (ls_task lb) v = (ls_task lb', v')" by (auto split: prod.splits)
    from rotation_received [OF opens' _ assms(6) ready assms(12,13) this] k(3,6) show ?thesis by blast
  qed
  ultimately show ?thesis using pending_published [of rot "ta_pending (ls_task ls1)" C] msgs k(5)
    by (intro exI [of _ rot]) auto
qed

text \<open>The owner (key 9) revokes the writer (key 8) and encrypts; both had the ring of one key.\<close>

definition demo_member :: "byte list \<Rightarrow> share_env" where
  "demo_member me = (demo_env ''p'')\<lparr>en_identity := me\<rparr>"

definition demo_ready_loop :: "signed_op list loop_state" where
  "demo_ready_loop = \<lparr>ls_task = demo_task [demo_create, demo_invite], ls_current = None\<rparr>"

text \<open>The rotation that the command makes; bytes \<open>0\<close> to \<open>87\<close> of the random source are its key, ephemeral key and nonce.\<close>

definition demo_rekey :: signed_rotation where
  "demo_rekey = \<lparr>rot_epoch = 2, rot_rotator = MemberId [9], rot_signature = [9, 9, 9] @ replicate 61 0,
     rot_envelopes = [\<lparr>ke_recipient = MemberId [9], ke_ephemeral = map of_nat [32..<64],
       ke_nonce = map of_nat [64..<88], ke_ciphertext = 9 # map of_nat [0..<32]\<rparr>]\<rparr>"

definition demo_group_sync :: "signed_op list sync_crates" where
  "demo_group_sync = daemon_crates.extend
     (demo_daemon\<lparr>enc_msg := (\<lambda>m. if m = KeyRotation demo_rekey then Some [6] else None),
        dec_msg := (\<lambda>bs. if bs = [6] then Some (KeyRotation demo_rekey) else None)\<rparr>)
     \<lparr>bt_seed = (\<lambda>_ _. io_return (''h'', 0)), bt_fetch = (\<lambda>_ _ _. io_fail IoError),
      bt_delete = (\<lambda>_ w. w), gossip_stream = (\<lambda>_. io_return ()), watch_start = (\<lambda>_. io_return ())\<rparr>"

abbreviation demo_revocation :: "signed_op list loop_result" where
  "demo_revocation \<equiv>
     sync_step demo_group_sync (demo_member [9]) (Command (Revoke (MemberId [8]))) demo_ready_loop demo_share"

lemma demo_revocation_run:
  "case demo_revocation of
     ((Continue, Some (RevokeReply (Inr e)), ls, []), w) \<Rightarrow>
       ta_pending (ls_task ls) = [demo_rekey] \<and>
       is_ok (fst (encrypt demo_group_sync (ta_key (ls_task ls)) [1] demo_share)) \<and>
       as_crdt (ta_auth (ls_task ls)) =
         [demo_create, demo_invite, demo_group_op [demo_id demo_invite] (Remove (Individual (MemberId [8])))]
   | _ \<Rightarrow> False"
  by code_simp

lemma demo_revoked_members:
  "map fst (demo_members [demo_create, demo_invite, demo_group_op [demo_id demo_invite] (Remove (Individual (MemberId [8])))]) =
     [MemberId [9]]"
  by code_simp

lemma demo_revocation_result:
  obtains e ls w blob x where "demo_revocation = ((Continue, Some (RevokeReply (Inr e)), ls, []), w)"
    "ta_pending (ls_task ls) = [demo_rekey]"
    "encrypt demo_group_sync (ta_key (ls_task ls)) [1] demo_share = (Inr blob, x)"
    "\<And>g. fst ` set (members demo_group_sync (ta_auth (ls_task ls)) g) = {MemberId [9]}"
proof -
  obtain e ls w where r: "demo_revocation = ((Continue, Some (RevokeReply (Inr e)), ls, []), w)"
    "ta_pending (ls_task ls) = [demo_rekey]"
    "is_ok (fst (encrypt demo_group_sync (ta_key (ls_task ls)) [1] demo_share))"
    and log: "as_crdt (ta_auth (ls_task ls)) =
       [demo_create, demo_invite, demo_group_op [demo_id demo_invite] (Remove (Individual (MemberId [8])))]"
    using demo_revocation_run
    by (auto simp del: sync_step.simps
        split: prod.splits option.splits command_reply.splits sum.splits list.splits loop_outcome.splits)
  have "crdt_members demo_group_sync = (\<lambda>ops _. demo_members ops)"
    by (simp add: demo_group_sync_def daemon_crates.defs demo_daemon_defs)
  then have "fst ` set (members demo_group_sync (ta_auth (ls_task ls)) g) = {MemberId [9]}" for g
    using arg_cong [OF demo_revoked_members, of set] by (simp add: members_def log image_image case_prod_unfold)
  moreover obtain blob x where "encrypt demo_group_sync (ta_key (ls_task ls)) [1] demo_share = (Inr blob, x)"
    using r(3) by (metis is_ok_iff prod.collapse)
  ultimately show thesis using r(1,2) that by blast
qed

lemma demo_group_laws:
  "ed_ok demo_group_sync" "box_ok demo_group_sync" "aead_ok demo_group_sync" "msg_codec_ok demo_group_sync"
proof -
  have e: "ed_valid_pub demo_group_sync = ed_valid_pub demo_daemon" "pub_of demo_group_sync = pub_of demo_daemon"
    "ed_sign demo_group_sync = ed_sign demo_daemon" "ed_verify demo_group_sync = ed_verify demo_daemon"
    "aead_seal demo_group_sync = aead_seal demo_daemon" "aead_open demo_group_sync = aead_open demo_daemon"
    by (simp_all add: demo_group_sync_def daemon_crates.defs)
  show "ed_ok demo_group_sync" using demo_daemon_ed_ok unfolding ed_ok_def e .
  show "aead_ok demo_group_sync" using demo_daemon_aead_ok unfolding aead_ok_def e .
  show "box_ok demo_group_sync" by (simp add: box_ok_def demo_group_sync_def daemon_crates.defs demo_daemon_defs)
  show "msg_codec_ok demo_group_sync" by (simp add: msg_codec_ok_def demo_group_sync_def daemon_crates.defs)
qed

definition demo_rekeyed :: "byte list \<Rightarrow> keyring" where
  "demo_rekeyed me = (case sync_step demo_group_sync (demo_member me) (GossipItem [6]) demo_ready_loop demo_share of
     ((_, _, ls, _), _) \<Rightarrow> ta_key (ls_task ls))"

theorem revocation_reaches_peers_witness:
  "\<exists>e ls w blob x. demo_revocation = ((Continue, Some (RevokeReply (Inr e)), ls, []), w) \<and>
     encrypt demo_group_sync (ta_key (ls_task ls)) [1] demo_share = (Inr blob, x) \<and>
     decrypt demo_group_sync (demo_rekeyed [9]) blob = Inr [1] \<and>
     decrypt demo_group_sync (demo_rekeyed [8]) blob = Inl (Bail ''no key for epoch'' [2, 1])"
proof (rule demo_revocation_result)
  fix e ls w blob x
  assume revoke: "demo_revocation = ((Continue, Some (RevokeReply (Inr e)), ls, []), w)"
    and pending: "ta_pending (ls_task ls) = [demo_rekey]"
    and enc: "encrypt demo_group_sync (ta_key (ls_task ls)) [1] demo_share = (Inr blob, x)"
    and left: "\<And>g. fst ` set (members demo_group_sync (ta_auth (ls_task ls)) g) = {MemberId [9]}"
  obtain oc2 rep2 msgs where tick: "sync_step demo_group_sync (demo_member [9]) AnnounceTick ls demo_share =
      ((oc2, rep2, ls, msgs), demo_share)" by simp
  have env: "sc_id (en_config (demo_member me)) = ''s''" "en_data_dir (demo_member me) = [''d'']"
    "en_identity (demo_member me) = me" for me by (simp_all add: demo_member_def demo_env_def demo_config_def)
  have ring: "ta_key (ls_task demo_ready_loop) = \<lparr>kr_keys = [replicate 32 7]\<rparr>" "ta_buffer (ls_task demo_ready_loop) = []"
    "ta_pending (ls_task demo_ready_loop) = []" by (simp_all add: demo_ready_loop_def demo_task_def)
  have pub: "pub_of demo_group_sync sk = sk" for sk by (simp add: demo_group_sync_def daemon_crates.defs demo_daemon_defs)
  have owner: "(MemberId [9], Owner) \<in> set (members demo_group_sync (ta_auth (ls_task demo_ready_loop))
      (group_id_for demo_group_sync ''s''))" by code_simp
  have msg: "enc_msg demo_group_sync (KeyRotation demo_rekey) = Some [6]" by (simp add: demo_group_sync_def daemon_crates.defs)
  have "decrypt demo_group_sync (demo_rekeyed me) blob =
      (if me = [9] then Inr [1] else Inl (Bail ''no key for epoch'' [2, 1]))" for me
    using revocation_reaches_peers [OF demo_group_laws _ _ revoke tick enc, of _ "demo_member me" demo_share demo_ready_loop,
        unfolded env ring pub left pending] demo_disk_keys owner demo_share_ready msg
    by (auto simp: demo_rekeyed_def split: prod.splits)
  with revoke enc show ?thesis by auto
qed

end
