(* ===== verification/Runtime.thy ===== *)
theory Runtime
  imports Sync
begin

text \<open>
  \<^verbatim>\<open>src/daemon.rs\<close>, the process around the share loops: \<open>DaemonRuntime\<close>, the spawning of a
  share task, the choice of the loop by the role of the share, and the command channel
  into a task.

  A task is a record of the environment it was given and of its phase: spawned and not
  yet polled, in its loop, or finished with the result of \<open>run_share\<close>.  The \<open>JoinSet\<close> is an
  association list from task numbers to tasks and an \<open>mpsc\<close> sender is the number of the task
  that holds the receiver.  Messages given to gossip are collected in \<open>rt_published\<close>.
\<close>

section \<open>State\<close>

datatype 'c phase =
    Spawned "'c task"
  | Looping "'c loop_state" "byte list" bool
  | Finished "unit result"

record 'c share_task =
  sk_env :: share_env
  sk_phase :: "'c phase"

abbreviation sk_id :: "'c share_task \<Rightarrow> string" where
  "sk_id k \<equiv> sc_id (en_config (sk_env k))"

fun is_finished :: "'c phase \<Rightarrow> bool" where
  "is_finished (Finished _) = True"
| "is_finished _ = False"

record 'c runtime =
  rt_data_dir :: path
  rt_identity :: "byte list"
  rt_bt_port :: "16 word"
  rt_shares :: "(string \<times> nat) list"
  rt_tasks :: "(nat \<times> 'c share_task) list"
  rt_next :: nat
  rt_published :: "(string \<times> byte list) list"

section \<open>Running a share\<close>

text \<open>
  \<open>run_share\<close> up to the first turn of its loop; the middle argument of \<open>Looping\<close> is the
  announce the seed loop repeats, the last one whether the leech loop has fetched.
\<close>

definition run_share ::
  "('c, 'z) sync_crates_scheme \<Rightarrow> share_env \<Rightarrow> 'c task \<Rightarrow> ('c phase \<times> byte list list) io" where
  "run_share C env t =
     (case sc_role (en_config env) of
        Seed \<Rightarrow>
          io_bind (seed_start C env) (\<lambda>announce_bytes.
          io_return (Looping \<lparr>ls_task = t, ls_current = None\<rparr> announce_bytes False, []))
      | Leech \<Rightarrow>
          io_bind (leech_start C env t) (\<lambda>(ls, out). io_return (Looping ls [] False, out))
      | Sync \<Rightarrow>
          io_bind (sync_start C env t) (\<lambda>(r, out).
          io_return (case r of Inl e \<Rightarrow> Finished (Inl e) | Inr ls \<Rightarrow> Looping ls [] False, out)))"

text \<open>The first poll of a task.\<close>

definition start_task ::
  "('c, 'z) sync_crates_scheme \<Rightarrow> 'c share_task \<Rightarrow> world \<Rightarrow> ('c share_task \<times> byte list list) \<times> world" where
  "start_task C k w =
     (case sk_phase k of
        Spawned t \<Rightarrow>
          (case run_share C (sk_env k) t w of
             (Inl e, w') \<Rightarrow> ((k\<lparr>sk_phase := Finished (Inl e)\<rparr>, []), w')
           | (Inr (ph, out), w') \<Rightarrow> ((k\<lparr>sk_phase := ph\<rparr>, out), w'))
      | _ \<Rightarrow> ((k, []), w))"

text \<open>One turn of the loop of the share's role.\<close>

definition loop_step ::
  "('c, 'z) sync_crates_scheme \<Rightarrow> share_env \<Rightarrow> bool \<Rightarrow> loop_event \<Rightarrow> byte list \<Rightarrow> bool \<Rightarrow> 'c loop_state \<Rightarrow> world \<Rightarrow>
   bool \<times> 'c loop_result" where
  "loop_step C env cmd_closed ev announce_bytes completed ls w =
     (case sc_role (en_config env) of
        Seed \<Rightarrow> (completed, seed_step C env announce_bytes ev ls w)
      | Leech \<Rightarrow> leech_step C env cmd_closed ev completed ls w
      | Sync \<Rightarrow> (completed, sync_step C env ev ls w))"

definition task_event ::
  "('c, 'z) sync_crates_scheme \<Rightarrow> bool \<Rightarrow> loop_event \<Rightarrow> 'c share_task \<Rightarrow> world \<Rightarrow>
   (command_reply option \<times> 'c share_task \<times> byte list list) \<times> world" where
  "task_event C cmd_closed ev k w =
     (case sk_phase k of
        Looping ls announce_bytes completed \<Rightarrow>
          (case loop_step C (sk_env k) cmd_closed ev announce_bytes completed ls w of
             (completed', ((outcome, reply, ls', out), w')) \<Rightarrow>
               ((reply,
                 k\<lparr>sk_phase := (case outcome of
                     Continue \<Rightarrow> Looping ls' announce_bytes completed' | Exit \<Rightarrow> Finished (Inr ()))\<rparr>,
                 out), w'))
      | _ \<Rightarrow> ((None, k, []), w))"

section \<open>Spawning\<close>

text \<open>Publishing on the topic of a share.\<close>

definition publish :: "string \<Rightarrow> byte list list \<Rightarrow> 'c runtime \<Rightarrow> 'c runtime" where
  "publish share_id out rt = rt\<lparr>rt_published := rt_published rt @ map (Pair share_id) out\<rparr>"

definition put_task :: "nat \<Rightarrow> 'c share_task \<Rightarrow> 'c runtime \<Rightarrow> 'c runtime" where
  "put_task n k rt = rt\<lparr>rt_tasks := AList.update n k (rt_tasks rt)\<rparr>"

definition load_pending_or_empty ::
  "('c, 'z) sync_crates_scheme \<Rightarrow> path \<Rightarrow> string \<Rightarrow> signed_rotation list io" where
  "load_pending_or_empty C data_dir share_id w =
     (case load_pending C data_dir share_id w of
        (Inl _, w') \<Rightarrow> (Inr [], w')
      | (Inr p, w') \<Rightarrow> (Inr p, w'))"

definition share_env_of :: "('c, 'z) sync_crates_scheme \<Rightarrow> 'c runtime \<Rightarrow> share_config \<Rightarrow> share_env" where
  "share_env_of C rt config = \<lparr>en_config = config, en_root = sc_root_path config, en_data_dir = rt_data_dir rt,
     en_peer_id_hex = bytes_hex (pub_of C (rt_identity rt)), en_identity = rt_identity rt,
     en_bt_port = rt_bt_port rt\<rparr>"

definition spawn_share_task ::
  "('c, 'z) sync_crates_scheme \<Rightarrow> share_config \<Rightarrow> ('c runtime, nat) task_io" where
  "spawn_share_task C config =
     t_bind (t_io (\<lambda>rt. load_or_create_keyring (rt_data_dir rt) (sc_id config))) (\<lambda>key.
     t_bind (t_io (\<lambda>rt. auth_load C (rt_data_dir rt) (sc_id config))) (\<lambda>auth_state.
     t_bind (t_io (\<lambda>rt. load_pending_or_empty C (rt_data_dir rt) (sc_id config))) (\<lambda>pending_rotations.
     t_state (\<lambda>rt. (Inr (rt_next rt),
       rt\<lparr>rt_tasks := rt_tasks rt @ [(rt_next rt, \<lparr>sk_env = share_env_of C rt config,
            sk_phase = Spawned \<lparr>ta_key = key, ta_auth = auth_state, ta_pending = pending_rotations,
              ta_buffer = []\<rparr>\<rparr>)],
          rt_next := Suc (rt_next rt)\<rparr>)))))"

text \<open>Registering the sender of a task.\<close>

definition insert_share :: "string \<Rightarrow> nat \<Rightarrow> 'c runtime \<Rightarrow> 'c runtime" where
  "insert_share share_id n rt = rt\<lparr>rt_shares := AList.update share_id n (rt_shares rt)\<rparr>"

section \<open>Commands into a task\<close>

text \<open>
  Sending a command and waiting for its reply.  A task that was spawned and not yet
  polled starts first; the command waits in its channel and is dropped when starting
  fails.
\<close>

definition call_task ::
  "('c, 'z) sync_crates_scheme \<Rightarrow> nat \<Rightarrow> share_command \<Rightarrow> ('c runtime, command_reply) task_io" where
  "call_task C n cmd rt w =
     (case map_of (rt_tasks rt) n of
        None \<Rightarrow> ((Inl (Bail ''share task no longer running'' []), rt), w)
      | Some k \<Rightarrow>
          if is_finished (sk_phase k) then ((Inl (Bail ''share task no longer running'' []), rt), w)
          else
            (case start_task C k w of
               ((k1, out1), w1) \<Rightarrow>
                 (case task_event C False (Command cmd) k1 w1 of
                    ((reply, k2, out2), w2) \<Rightarrow>
                      (((case reply of None \<Rightarrow> Inl (Bail ''share task dropped reply'' []) | Some r \<Rightarrow> Inr r),
                        publish (sk_id k) (out1 @ out2) (put_task n k2 rt)), w2))))"

section \<open>One task per share\<close>

text \<open>
  The invariant of the runtime: task numbers are fresh and distinct, every task has the
  directories and the identity of the daemon, a sender leads to a task of its own share, and
  a task that still runs is the one its share is registered with.
\<close>

definition runtime_ok :: "('c, 'z) sync_crates_scheme \<Rightarrow> 'c runtime \<Rightarrow> bool" where
  "runtime_ok C rt \<longleftrightarrow>
     distinct (map fst (rt_tasks rt)) \<and>
     (\<forall>n k. map_of (rt_tasks rt) n = Some k \<longrightarrow>
        n < rt_next rt \<and> sk_env k = share_env_of C rt (en_config (sk_env k)) \<and>
        (\<not> is_finished (sk_phase k) \<longrightarrow> map_of (rt_shares rt) (sk_id k) = Some n)) \<and>
     (\<forall>id n. map_of (rt_shares rt) id = Some n \<longrightarrow>
        n < rt_next rt \<and> (\<forall>k. map_of (rt_tasks rt) n = Some k \<longrightarrow> sk_id k = id))"

text \<open>What holds of the state after a computation, whatever its outcome.\<close>

definition t_ensures :: "('s \<Rightarrow> bool) \<Rightarrow> ('s, 'a) task_io \<Rightarrow> ('s \<Rightarrow> bool) \<Rightarrow> bool" where
  "t_ensures P m Q \<longleftrightarrow> (\<forall>s w. P s \<longrightarrow> Q (snd (fst (m s w))))"

abbreviation t_keeps :: "('s \<Rightarrow> bool) \<Rightarrow> ('s, 'a) task_io \<Rightarrow> bool" where
  "t_keeps I m \<equiv> t_ensures I m I"

lemma t_ensuresD: "t_ensures P m Q \<Longrightarrow> m s w = ((r, s'), w') \<Longrightarrow> P s \<Longrightarrow> Q s'"
  by (metis fst_conv snd_conv t_ensures_def)

lemma t_ensuresI: "(\<And>s w r s' w'. m s w = ((r, s'), w') \<Longrightarrow> P s \<Longrightarrow> Q s') \<Longrightarrow> t_ensures P m Q"
  by (metis prod.collapse t_ensures_def)

lemma t_ensures_bind:
  assumes "t_ensures P m R" and "\<And>x. t_ensures R (f x) Q" and "\<And>s. R s \<Longrightarrow> Q s"
  shows "t_ensures P (t_bind m f) Q"
proof (rule t_ensuresI)
  fix s w r s' w'
  assume "t_bind m f s w = ((r, s'), w')" and "P s"
  then show "Q s'"
    by (cases rule: t_bind_cases) (use assms in \<open>blast dest: t_ensuresD\<close>)+
qed

lemma t_keeps_bind [intro]: "t_keeps I m \<Longrightarrow> (\<And>x. t_keeps I (f x)) \<Longrightarrow> t_keeps I (t_bind m f)"
  by (rule t_ensures_bind)

lemma t_keeps_io [intro, simp]: "t_keeps I (t_io m)" "t_keeps I (t_return x)" "t_keeps I (t_fail e)"
  by (auto intro!: t_ensuresI)

lemma t_keeps_let [intro]: "t_keeps I (f x) \<Longrightarrow> t_keeps I (let y = x in f y)"
  by simp

lemma t_keeps_if [intro]: "t_keeps I f \<Longrightarrow> t_keeps I g \<Longrightarrow> t_keeps I (if b then f else g)"
  by simp

section \<open>What the operations keep\<close>

lemma start_task_env: "start_task C k w = ((k', out), w') \<Longrightarrow> sk_env k' = sk_env k"
  by (auto simp: start_task_def split: phase.splits prod.splits sum.splits)

lemma start_task_phase: "start_task C k w = ((k', out), w') \<Longrightarrow> \<not> is_finished (sk_phase k) \<Longrightarrow>
   is_finished (sk_phase k') \<or> (\<exists>ls ann c. sk_phase k' = Looping ls ann c)"
  by (auto simp: start_task_def run_share_def io_bind_def split: phase.splits prod.splits sum.splits share_role.splits)

lemma start_task_finished: "is_finished (sk_phase k) \<Longrightarrow> start_task C k w = ((k, []), w)"
  by (cases "sk_phase k") (simp_all add: start_task_def)

lemma task_event_env: "task_event C cl ev k w = ((reply, k', out), w') \<Longrightarrow> sk_env k' = sk_env k"
  by (auto simp: task_event_def split: phase.splits prod.splits)

lemma task_event_finished: "is_finished (sk_phase k) \<Longrightarrow> task_event C cl ev k w = ((None, k, []), w)"
  by (cases "sk_phase k") (simp_all add: task_event_def)

text \<open>All three loops hand a command to the same handler.\<close>

lemma loop_step_command:
  "loop_step C env cl (Command cmd) ann c ls w =
     (case handle_share_command C cmd (en_config env) (en_data_dir env) (en_identity env) (ls_task ls) w of
        ((reply, stop, t), w') \<Rightarrow>
          (c, ((if stop \<or> sc_role (en_config env) = Leech \<and> c \<and> cl then Exit else Continue, Some reply,
            ls\<lparr>ls_task := t\<rparr>, []), w')))"
  by (simp add: loop_step_def on_command_def leech_end_def split: share_role.split prod.split loop_outcome.split)

lemma put_task_simps [simp]:
  "rt_shares (put_task n k rt) = rt_shares rt" "rt_next (put_task n k rt) = rt_next rt"
  "map_of (rt_tasks (put_task n k rt)) = (map_of (rt_tasks rt))(n \<mapsto> k)"
  "share_env_of C (put_task n k rt) = share_env_of C rt" "rt_data_dir (put_task n k rt) = rt_data_dir rt"
  "rt_identity (put_task n k rt) = rt_identity rt"
  by (auto simp: put_task_def share_env_of_def update_conv' fun_eq_iff)

lemma publish_simps [simp]:
  "rt_shares (publish i out rt) = rt_shares rt" "rt_next (publish i out rt) = rt_next rt"
  "rt_tasks (publish i out rt) = rt_tasks rt" "share_env_of C (publish i out rt) = share_env_of C rt"
  "rt_data_dir (publish i out rt) = rt_data_dir rt" "rt_identity (publish i out rt) = rt_identity rt"
  by (auto simp: publish_def share_env_of_def fun_eq_iff)

lemma insert_share_simps [simp]:
  "map_of (rt_shares (insert_share i n rt)) = (map_of (rt_shares rt))(i \<mapsto> n)"
  "rt_next (insert_share i n rt) = rt_next rt" "rt_tasks (insert_share i n rt) = rt_tasks rt"
  "share_env_of C (insert_share i n rt) = share_env_of C rt" "rt_data_dir (insert_share i n rt) = rt_data_dir rt"
  "rt_identity (insert_share i n rt) = rt_identity rt"
  by (auto simp: insert_share_def share_env_of_def update_conv' fun_eq_iff)

lemma runtime_ok_publish [simp]: "runtime_ok C (publish i out rt) = runtime_ok C rt"
  by (simp add: runtime_ok_def)

lemma runtime_ok_live:
  "runtime_ok C rt \<Longrightarrow> map_of (rt_tasks rt) n = Some k \<Longrightarrow> \<not> is_finished (sk_phase k) \<Longrightarrow>
   map_of (rt_shares rt) (sk_id k) = Some n"
  by (simp add: runtime_ok_def)

lemma runtime_ok_put:
  assumes "runtime_ok C rt" and "map_of (rt_tasks rt) n = Some k" and "sk_env k' = sk_env k"
    and "is_finished (sk_phase k) \<longrightarrow> is_finished (sk_phase k')"
  shows "runtime_ok C (put_task n k' rt)"
proof -
  have "distinct (map fst (rt_tasks (put_task n k' rt)))"
    using assms(1) by (simp add: put_task_def distinct_update runtime_ok_def)
  moreover have "n < rt_next rt \<and> sk_env k' = share_env_of C rt (en_config (sk_env k')) \<and>
      (\<not> is_finished (sk_phase k') \<longrightarrow> map_of (rt_shares rt) (sk_id k') = Some n)"
    using assms by (auto simp: runtime_ok_def)
  moreover have "sk_id k' = i" if "map_of (rt_shares rt) i = Some n" for i
    using assms(1,2,3) that by (auto simp: runtime_ok_def)
  ultimately show ?thesis using assms(1) by (auto simp: runtime_ok_def)
qed

lemma runtime_ok_call: "t_keeps (runtime_ok C) (call_task C n cmd)"
proof (rule t_ensuresI)
  fix rt w r rt' w'
  assume r: "call_task C n cmd rt w = ((r, rt'), w')" and ok: "runtime_ok C rt"
  show "runtime_ok C rt'"
  proof (cases "map_of (rt_tasks rt) n")
    case None
    with r ok show ?thesis by (simp add: call_task_def)
  next
    case (Some k)
    obtain k1 out1 w1 where s: "start_task C k w = ((k1, out1), w1)" by (metis prod.exhaust)
    obtain reply k2 out2 w2 where e: "task_event C False (Command cmd) k1 w1 = ((reply, k2, out2), w2)"
      by (metis prod.exhaust)
    have "sk_env k2 = sk_env k" using start_task_env [OF s] task_event_env [OF e] by simp
    from runtime_ok_put [OF ok Some this] Some r s e ok show ?thesis
      by (auto simp: call_task_def split: if_splits)
  qed
qed

text \<open>A command that ends a task: afterwards the task is finished or was gone before.\<close>

lemma call_task_shutdown:
  assumes "call_task C n Shutdown rt w = ((r, rt'), w')" and "map_of (rt_tasks rt') n = Some k'"
  shows "is_finished (sk_phase k')"
proof (cases "map_of (rt_tasks rt) n")
  case None
  with assms show ?thesis by (simp add: call_task_def)
next
  case (Some k)
  show ?thesis
  proof (cases "is_finished (sk_phase k)")
    case True
    with Some assms show ?thesis by (simp add: call_task_def)
  next
    case False
    obtain k1 out1 w1 where s: "start_task C k w = ((k1, out1), w1)" by (metis prod.exhaust)
    obtain reply k2 out2 w2 where e: "task_event C False (Command Shutdown) k1 w1 = ((reply, k2, out2), w2)"
      by (metis prod.exhaust)
    have "k' = k2" using assms Some False s e by (auto simp: call_task_def)
    moreover have "is_finished (sk_phase k2)"
    proof (cases "is_finished (sk_phase k1)")
      case True
      with e show ?thesis by (simp add: task_event_finished)
    next
      case False
      then obtain ls ann c where "sk_phase k1 = Looping ls ann c"
        using start_task_phase [OF s \<open>\<not> is_finished (sk_phase k)\<close>] by blast
      with e show ?thesis by (auto simp: task_event_def loop_step_command)
    qed
    ultimately show ?thesis by simp
  qed
qed

lemma call_task_frame:
  assumes "call_task C n cmd rt w = ((r, rt'), w')"
  shows "rt_shares rt' = rt_shares rt \<and> rt_next rt' = rt_next rt \<and> rt_data_dir rt' = rt_data_dir rt \<and>
    rt_identity rt' = rt_identity rt \<and> (\<forall>m. m \<noteq> n \<longrightarrow> map_of (rt_tasks rt') m = map_of (rt_tasks rt) m)"
  using assms by (auto simp: call_task_def split: option.splits if_splits prod.splits)

lemma spawn_share_task_ok:
  assumes "spawn_share_task C config rt w = ((Inr n, rt'), w')"
  obtains key auth_state pend w1 w2 where
    "load_or_create_keyring (rt_data_dir rt) (sc_id config) w = (Inr key, w1)"
    "auth_load C (rt_data_dir rt) (sc_id config) w1 = (Inr auth_state, w2)"
    "load_pending_or_empty C (rt_data_dir rt) (sc_id config) w2 = (Inr pend, w')" "n = rt_next rt"
    "rt' = rt\<lparr>rt_tasks := rt_tasks rt @ [(n, \<lparr>sk_env = share_env_of C rt config,
        sk_phase = Spawned \<lparr>ta_key = key, ta_auth = auth_state, ta_pending = pend, ta_buffer = []\<rparr>\<rparr>)],
      rt_next := Suc n\<rparr>"
  using assms by (auto simp: spawn_share_task_def t_bind_eq_Inr)

lemma spawn_share_task_err: "spawn_share_task C config rt w = ((Inl e, rt'), w') \<Longrightarrow> rt' = rt"
  unfolding spawn_share_task_def by (auto elim!: t_bind_cases)

text \<open>Registering a spawned task where no task of that share is still running.\<close>

lemma runtime_ok_spawn:
  assumes "runtime_ok C rt" and "spawn_share_task C config rt w = ((Inr n, rt'), w')"
    and "\<And>m k. map_of (rt_tasks rt) m = Some k \<Longrightarrow> sk_id k = sc_id config \<Longrightarrow> is_finished (sk_phase k)"
  shows "runtime_ok C (insert_share (sc_id config) n rt')"
proof -
  from assms(2) obtain ph where n: "n = rt_next rt" and rt': "rt' = rt\<lparr>rt_tasks := rt_tasks rt @
      [(n, \<lparr>sk_env = share_env_of C rt config, sk_phase = ph\<rparr>)], rt_next := Suc n\<rparr>"
    by (rule spawn_share_task_ok) blast
  have none: "map_of (rt_tasks rt) n = None"
    using assms(1) n unfolding runtime_ok_def by (metis not_Some_eq order_less_irrefl)
  have d: "distinct (map fst (rt_tasks rt'))"
    using assms(1) none rt' by (simp add: runtime_ok_def map_of_eq_None_iff)
  have t: "map_of (rt_tasks rt') = (map_of (rt_tasks rt))(n \<mapsto> \<lparr>sk_env = share_env_of C rt config, sk_phase = ph\<rparr>)"
    using none rt' by (auto simp: fun_eq_iff map_add_def split: option.splits)
  have e: "share_env_of C rt' c = share_env_of C rt c" "en_config (share_env_of C rt c) = c" for c
    by (simp_all add: share_env_of_def rt')
  have s: "rt_shares rt' = rt_shares rt" "rt_next rt' = Suc n" using rt' by simp_all
  show ?thesis
    using assms(1,3) d unfolding runtime_ok_def
    by (auto simp: t e s n less_Suc_eq)
qed

text \<open>Taking the sender of a share away: harmless once its tasks are finished.\<close>

lemma call_task_shares:
  "call_task C n cmd (rt\<lparr>rt_shares := sh\<rparr>) w =
     (case call_task C n cmd rt w of ((r, rt'), w') \<Rightarrow> ((r, rt'\<lparr>rt_shares := sh\<rparr>), w'))"
  by (simp add: call_task_def publish_def put_task_def split: option.split prod.split)

lemma runtime_ok_unregister:
  assumes "runtime_ok C rt"
    and "\<And>n k. map_of (rt_tasks rt) n = Some k \<Longrightarrow> sk_id k = share_id \<Longrightarrow> is_finished (sk_phase k)"
  shows "runtime_ok C (rt\<lparr>rt_shares := AList.delete share_id (rt_shares rt)\<rparr>)"
proof -
  have "share_env_of C (rt\<lparr>rt_shares := sh\<rparr>) = share_env_of C rt" for sh
    by (simp add: share_env_of_def fun_eq_iff)
  moreover have "sk_id k \<noteq> share_id" if "map_of (rt_tasks rt) n = Some k" "\<not> is_finished (sk_phase k)" for n k
    using assms(2) that by blast
  ultimately show ?thesis using assms(1) by (simp add: runtime_ok_def delete_conv')
qed

lemma shutdown_finishes:
  assumes "runtime_ok C rt" and "map_of (rt_shares rt) share_id = Some n"
    and "call_task C n Shutdown rt w = ((r, rt'), w')" and "map_of (rt_tasks rt') m = Some k" and "sk_id k = share_id"
  shows "is_finished (sk_phase k)"
proof (rule ccontr)
  assume "\<not> is_finished (sk_phase k)"
  moreover have "runtime_ok C rt'" by (rule t_ensuresD [OF runtime_ok_call assms(3,1)])
  ultimately have "map_of (rt_shares rt') share_id = Some m" using assms(4,5) runtime_ok_live by blast
  then have "m = n" using call_task_frame [OF assms(3)] assms(2) by simp
  with call_task_shutdown [OF assms(3)] assms(4) \<open>\<not> is_finished (sk_phase k)\<close> show False by blast
qed

end
