(* ===== verification/Ipc.thy ===== *)
theory Ipc
  imports Runtime
begin

text \<open>
  \<^verbatim>\<open>src/ipc.rs\<close>: the methods of the D-Bus object \<open>org.peerdup.Daemon1\<close>, as computations on
  the runtime and the file system.  A method that holds both locks of the runtime, or
  that only waits for the reply of one task, is one step; the bus itself (\<open>zbus\<close>) hands a
  request to its method and is \<open>dispatch\<close>.

  A path argument is text; it is split at slashes as \<open>Path::components\<close> does and taken
  relative to the working directory of the process when it is not absolute.  A relative
  path given to \<open>share_add\<close>, which the code stores as it is, is stored as what it denotes at
  that moment.  A component \<open>..\<close> is not resolved, and a share id is one path component.
\<close>

section \<open>Arguments\<close>

record 'c ipc_crates = "'c sync_crates" +
  rfc3339 :: "timestamp \<Rightarrow> string"
  current_dir :: "path option"

fun split_at :: "char \<Rightarrow> string \<Rightarrow> string \<Rightarrow> string list" where
  "split_at c [] acc = [rev acc]"
| "split_at c (x # xs) acc = (if x = c then rev acc # split_at c xs [] else split_at c xs (x # acc))"

definition path_components :: "string \<Rightarrow> string list" where
  "path_components s = filter (\<lambda>x. x \<noteq> '''' \<and> x \<noteq> ''.'') (split_at (CHR ''/'') s '''')"

definition is_absolute :: "string \<Rightarrow> bool" where
  "is_absolute s = (case s of [] \<Rightarrow> False | c # _ \<Rightarrow> c = CHR ''/'')"

text \<open>What a path argument denotes to a process in directory \<open>cwd\<close>.\<close>

definition path_at :: "path \<Rightarrow> string \<Rightarrow> path" where
  "path_at cwd s = (if is_absolute s then path_components s else cwd @ path_components s)"

definition display_path :: "path \<Rightarrow> string" where
  "display_path p = CHR ''/'' # path_string p"

text \<open>
  \<open>str::to_lowercase\<close> on the letters that matter: no other character is lowered to a
  letter of a role name.
\<close>

definition to_lowercase :: "string \<Rightarrow> string" where
  "to_lowercase s = map (\<lambda>c. let n = (of_char c :: nat) in if 65 \<le> n \<and> n \<le> 90 then char_of (n + 32) else c) s"

definition role_from_str :: "string \<Rightarrow> share_role result" where
  "role_from_str s =
     (let r = to_lowercase s in
      if r = ''seed'' then Inr Seed
      else if r = ''leech'' then Inr Leech
      else if r = ''sync'' then Inr Sync
      else Inl (Bail ''invalid role'' []))"

definition parse_auth_role :: "string \<Rightarrow> auth_role result" where
  "parse_auth_role s =
     (let r = to_lowercase s in
      if r = ''owner'' then Inr Owner
      else if r = ''writer'' then Inr Writer
      else if r = ''reader'' then Inr Reader
      else Inl (Bail ''unknown auth role'' []))"

fun role_str :: "share_role \<Rightarrow> string" where
  "role_str Seed = ''seed''"
| "role_str Leech = ''leech''"
| "role_str Sync = ''sync''"

text \<open>Lifting a computation that needs neither the runtime nor the disk.\<close>

definition t_lift :: "'a result \<Rightarrow> ('s, 'a) task_io" where
  "t_lift r = t_io (\<lambda>_. io_lift r)"

section \<open>Methods\<close>

definition whoami :: "('c, 'z) ipc_crates_scheme \<Rightarrow> ('c runtime, string) task_io" where
  "whoami C rt = t_return (bytes_hex (pub_of C (rt_identity rt))) rt"

type_synonym share_row = "string \<times> string \<times> string \<times> string \<times> string"

definition share_list :: "('c, 'z) ipc_crates_scheme \<Rightarrow> ('c runtime, share_row list) task_io" where
  "share_list C =
     t_bind (t_io (\<lambda>rt. load_all C (rt_data_dir rt))) (\<lambda>configs.
     t_return (map (\<lambda>c. (sc_id c, sc_topic c, display_path (sc_root_path c), role_str (sc_role c),
       rfc3339 C (sc_created_at c))) configs))"

text \<open>The end of \<open>share_add\<close> and \<open>share_join\<close>: spawn the task and register its sender.\<close>

definition spawn_and_register ::
  "('c, 'z) ipc_crates_scheme \<Rightarrow> share_config \<Rightarrow> ('c runtime, string) task_io" where
  "spawn_and_register C config =
     t_bind (spawn_share_task C config) (\<lambda>cmd_tx.
     t_state (\<lambda>rt. (Inr (sc_id config), insert_share (sc_id config) cmd_tx rt)))"

definition is_running :: "'c runtime \<Rightarrow> string \<Rightarrow> bool" where
  "is_running rt share_id \<longleftrightarrow> map_of (rt_shares rt) share_id \<noteq> None"

text \<open>The absolute path of an argument, with the error of \<open>current_dir()\<close>.\<close>

definition absolute_path :: "('c, 'z) ipc_crates_scheme \<Rightarrow> string \<Rightarrow> path result" where
  "absolute_path C s =
     (if is_absolute s then Inr (path_components s)
      else case current_dir C of None \<Rightarrow> Inl IoError | Some d \<Rightarrow> Inr (d @ path_components s))"

definition process_dir :: "('c, 'z) ipc_crates_scheme \<Rightarrow> path" where
  "process_dir C = (case current_dir C of None \<Rightarrow> [] | Some d \<Rightarrow> d)"

definition share_add ::
  "('c, 'z) ipc_crates_scheme \<Rightarrow> string \<Rightarrow> string \<Rightarrow> string \<Rightarrow> ('c runtime, string) task_io" where
  "share_add C topic path_arg role_arg =
     t_bind (t_lift (role_from_str role_arg)) (\<lambda>role.
     let path = path_at (process_dir C) path_arg in
     t_bind (t_io (\<lambda>_ w. if role = Seed \<and> \<not> fs_exists w path
       then io_fail (Bail ''seed path does not exist'' []) w else io_return () w)) (\<lambda>_.
     t_bind (t_io (\<lambda>_. config_new C topic path role)) (\<lambda>config rt.
     (if is_running rt (sc_id config) then t_fail (Bail ''share is already running'' [])
      else
        t_bind (t_lift (case create_group C (auth_empty C) (rt_identity rt) (group_id_for C (sc_id config)) of
          (Inl e, _) \<Rightarrow> Inl e | (Inr _, auth_state) \<Rightarrow> Inr auth_state)) (\<lambda>auth_state.
        t_bind (t_io (\<lambda>rt. config_save C config (rt_data_dir rt))) (\<lambda>_.
        t_bind (t_io (\<lambda>rt. auth_save C (rt_data_dir rt) (sc_id config) auth_state)) (\<lambda>_.
        spawn_and_register C config)))) rt)))"

text \<open>What \<open>share_join\<close> and its counterpart in the command line do with an accepted ticket.\<close>

definition import_ticket ::
  "('c, 'z) ipc_crates_scheme \<Rightarrow> path \<Rightarrow> byte list \<Rightarrow> ticket \<Rightarrow> path \<Rightarrow> share_config io" where
  "import_ticket C data_dir me t path =
     io_bind (fs_create_dir_all path) (\<lambda>_.
     io_bind utc_now (\<lambda>now.
     let cfg = \<lparr>sc_id = tk_share_id t, sc_topic = tk_topic t, sc_root_path = path, sc_role = tk_role t,
       sc_created_at = now\<rparr> in
     io_bind (config_save C cfg data_dir) (\<lambda>_.
     io_bind (install_keyring data_dir (tk_share_id t) (tk_keys t)) (\<lambda>_.
     io_bind (io_lift (replay C (auth_empty C) (tk_auth_log t))) (\<lambda>auth_state.
     if \<not> is_member C auth_state (group_id_for C (tk_share_id t)) (MemberId me)
     then io_fail (Bail ''ticket's auth log does not list us as a member'' [])
     else
       io_bind (auth_save C data_dir (tk_share_id t) auth_state) (\<lambda>_.
       io_return cfg))))))"

definition share_join ::
  "('c, 'z) ipc_crates_scheme \<Rightarrow> string \<Rightarrow> string \<Rightarrow> ('c runtime, string) task_io" where
  "share_join C ticket_arg path_arg =
     t_bind (t_lift (ticket_decode C ticket_arg)) (\<lambda>t.
     t_bind (t_lift (absolute_path C path_arg)) (\<lambda>path rt.
     let me = pub_of C (rt_identity rt) in
     (if tk_invitee_pubkey t \<noteq> me then t_fail (Bail ''ticket was issued for a different public key'' [])
      else if is_running rt (tk_share_id t) then t_fail (Bail ''share is already running'' [])
      else
        t_bind (t_io (\<lambda>rt. load_all C (rt_data_dir rt))) (\<lambda>configs.
        if list_ex (\<lambda>c. sc_id c = tk_share_id t) configs
        then t_fail (Bail ''share is already configured locally'' [])
        else
          t_bind (t_io (\<lambda>rt. import_ticket C (rt_data_dir rt) me t path)) (\<lambda>cfg.
          spawn_and_register C cfg))) rt))"

text \<open>\<open>share_sender\<close>, and the exchange of a command and its reply with the task.\<close>

definition share_sender :: "string \<Rightarrow> ('c runtime, nat) task_io" where
  "share_sender share_id rt = t_lift (case map_of (rt_shares rt) share_id of
     None \<Rightarrow> Inl (Bail ''share not running'' []) | Some n \<Rightarrow> Inr n) rt"

definition ask_share ::
  "('c, 'z) ipc_crates_scheme \<Rightarrow> string \<Rightarrow> share_command \<Rightarrow> ('c runtime, command_reply) task_io" where
  "ask_share C share_id cmd =
     t_bind (share_sender share_id) (\<lambda>tx. call_task C tx cmd)"

text \<open>The reply channel of a command carries its own type; no other reply reaches it.\<close>

fun epoch_of :: "command_reply \<Rightarrow> u64 result" where
  "epoch_of (RevokeReply r) = r"
| "epoch_of (RotateKeyReply r) = r"
| "epoch_of _ = Inl Panic"

fun ticket_of :: "command_reply \<Rightarrow> string result" where
  "ticket_of (InviteReply r) = r"
| "ticket_of _ = Inl Panic"

fun members_of :: "command_reply \<Rightarrow> (member_id \<times> auth_role) list result" where
  "members_of (MembersReply r) = r"
| "members_of _ = Inl Panic"

definition share_invite ::
  "('c, 'z) ipc_crates_scheme \<Rightarrow> string \<Rightarrow> string \<Rightarrow> string \<Rightarrow> string \<Rightarrow> ('c runtime, string) task_io" where
  "share_invite C share_id invitee_pubkey role_arg auth_role_arg =
     t_bind (t_lift (role_from_str role_arg)) (\<lambda>role.
     t_bind (t_lift (parse_auth_role auth_role_arg)) (\<lambda>auth_role.
     t_bind (t_lift (from_hex invitee_pubkey)) (\<lambda>invitee.
     t_bind (ask_share C share_id (Invite invitee auth_role role)) (\<lambda>r. t_lift (ticket_of r)))))"

definition share_revoke ::
  "('c, 'z) ipc_crates_scheme \<Rightarrow> string \<Rightarrow> string \<Rightarrow> ('c runtime, u64) task_io" where
  "share_revoke C share_id peer_pubkey =
     t_bind (t_lift (from_hex peer_pubkey)) (\<lambda>target.
     t_bind (ask_share C share_id (Revoke target)) (\<lambda>r. t_lift (epoch_of r)))"

definition share_members ::
  "('c, 'z) ipc_crates_scheme \<Rightarrow> string \<Rightarrow> ('c runtime, (string \<times> string) list) task_io" where
  "share_members C share_id =
     t_bind (ask_share C share_id Members) (\<lambda>r.
     t_bind (t_lift (members_of r)) (\<lambda>ms.
     t_return (map (\<lambda>(m, role). (member_to_hex m, auth_role_display role)) ms)))"

text \<open>By descending count, then by ascending peer: two stable sorts.\<close>

definition sort_peers :: "vector_clock \<Rightarrow> (string \<times> u64) list" where
  "sort_peers clock = sort_key (\<lambda>(_, v). - uint v) (sort_key fst clock)"

definition share_peers ::
  "('c, 'z) ipc_crates_scheme \<Rightarrow> string \<Rightarrow> ('c runtime, (string \<times> u64) list) task_io" where
  "share_peers C share_id =
     t_bind (t_io (\<lambda>rt. load_all C (rt_data_dir rt))) (\<lambda>configs.
     if \<not> list_ex (\<lambda>c. sc_id c = share_id) configs then t_fail (Bail ''share not found'' [])
     else
       t_bind (t_io (\<lambda>rt. state_load C (rt_data_dir rt) share_id)) (\<lambda>state.
       t_return (case state of None \<Rightarrow> [] | Some s \<Rightarrow> sort_peers (ps_clock s))))"

definition share_rotate_key ::
  "('c, 'z) ipc_crates_scheme \<Rightarrow> string \<Rightarrow> ('c runtime, u64) task_io" where
  "share_rotate_key C share_id = t_bind (ask_share C share_id RotateKey) (\<lambda>r. t_lift (epoch_of r))"

definition remove_shadow :: "path option \<Rightarrow> unit io" where
  "remove_shadow root w = (case root of
     None \<Rightarrow> (Inr (), w)
   | Some r \<Rightarrow> (Inr (), if fs_exists w (r @ [''.peerdup'']) then snd (fs_remove_dir_all (r @ [''.peerdup'']) w) else w))"

definition root_of :: "share_config list \<Rightarrow> string \<Rightarrow> path option" where
  "root_of configs share_id = map_option sc_root_path (List.find (\<lambda>c. sc_id c = share_id) configs)"

text \<open>Taking the sender out of the map and asking the task to end.\<close>

definition stop_share ::
  "('c, 'z) ipc_crates_scheme \<Rightarrow> string \<Rightarrow> ('c runtime, unit) task_io" where
  "stop_share C share_id rt w =
     (case map_of (rt_shares rt) share_id of
        None \<Rightarrow> ((Inr (), rt), w)
      | Some n \<Rightarrow>
          (case call_task C n Shutdown (rt\<lparr>rt_shares := AList.delete share_id (rt_shares rt)\<rparr>) w of
             ((_, rt'), w') \<Rightarrow> ((Inr (), rt'), w')))"

definition share_remove ::
  "('c, 'z) ipc_crates_scheme \<Rightarrow> string \<Rightarrow> ('c runtime, unit) task_io" where
  "share_remove C share_id =
     t_bind (t_io (\<lambda>rt. load_all C (rt_data_dir rt))) (\<lambda>configs.
     t_bind (stop_share C share_id) (\<lambda>_.
     t_bind (t_io (\<lambda>rt. remove_share (rt_data_dir rt) share_id)) (\<lambda>_.
     t_io (\<lambda>_. remove_shadow (root_of configs share_id)))))"

section \<open>The bus\<close>

datatype request =
    Whoami
  | ShareList
  | ShareAdd string string string
  | ShareJoin string string
  | ShareInvite string string string string
  | ShareRevoke string string
  | ShareMembers string
  | SharePeers string
  | ShareRotateKey string
  | ShareRemove string

datatype response =
    RUnit
  | RString string
  | REpoch u64
  | RShares "share_row list"
  | RMembers "(string \<times> string) list"
  | RPeers "(string \<times> u64) list"

definition t_map :: "('a \<Rightarrow> 'b) \<Rightarrow> ('s, 'a) task_io \<Rightarrow> ('s, 'b) task_io" where
  "t_map f m = t_bind m (\<lambda>x. t_return (f x))"

fun dispatch :: "('c, 'z) ipc_crates_scheme \<Rightarrow> request \<Rightarrow> ('c runtime, response) task_io" where
  "dispatch C Whoami = t_map RString (whoami C)"
| "dispatch C ShareList = t_map RShares (share_list C)"
| "dispatch C (ShareAdd topic path role) = t_map RString (share_add C topic path role)"
| "dispatch C (ShareJoin t path) = t_map RString (share_join C t path)"
| "dispatch C (ShareInvite i key role auth_role) = t_map RString (share_invite C i key role auth_role)"
| "dispatch C (ShareRevoke i key) = t_map REpoch (share_revoke C i key)"
| "dispatch C (ShareMembers i) = t_map RMembers (share_members C i)"
| "dispatch C (SharePeers i) = t_map RPeers (share_peers C i)"
| "dispatch C (ShareRotateKey i) = t_map REpoch (share_rotate_key C i)"
| "dispatch C (ShareRemove i) = t_map (\<lambda>_. RUnit) (share_remove C i)"

text \<open>Whether the daemon looks for a bus: the address variable, or the socket of the session.\<close>

definition session_bus_likely_available :: "bool \<Rightarrow> path option \<Rightarrow> world \<Rightarrow> bool" where
  "session_bus_likely_available bus_address runtime_dir w \<longleftrightarrow>
     bus_address \<or> (case runtime_dir of None \<Rightarrow> False | Some d \<Rightarrow> fs_exists w (d @ [''bus'']))"

section \<open>What the methods keep\<close>

lemma t_keeps_lift [intro, simp]: "t_keeps I (t_lift r)"
  by (simp add: t_lift_def)

lemma t_keeps_map [intro]: "t_keeps I m \<Longrightarrow> t_keeps I (t_map f m)"
  unfolding t_map_def by blast

lemma t_lift_eq [simp]: "t_lift r s w = ((x, s'), w') \<longleftrightarrow> r = x \<and> s' = s \<and> w' = w"
  by (auto simp: t_lift_def)

lemma share_sender_keeps [intro, simp]: "t_keeps I (share_sender share_id)"
  by (rule t_ensuresI) (simp add: share_sender_def)

lemma ask_share_keeps [intro, simp]: "t_keeps (runtime_ok C) (ask_share C share_id cmd)"
  unfolding ask_share_def by (intro t_keeps_bind share_sender_keeps runtime_ok_call)

text \<open>A share that is not registered has no task that still runs.\<close>

abbreviation unregistered :: "('c, 'z) ipc_crates_scheme \<Rightarrow> string \<Rightarrow> 'c runtime \<Rightarrow> bool" where
  "unregistered C share_id rt \<equiv> runtime_ok C rt \<and> \<not> is_running rt share_id"

lemma spawn_and_register_ok:
  "t_ensures (unregistered C (sc_id config)) (spawn_and_register C config) (runtime_ok C)"
proof (rule t_ensuresI)
  fix rt w r rt' w'
  assume r: "spawn_and_register C config rt w = ((r, rt'), w')" and u: "unregistered C (sc_id config) rt"
  from r show "runtime_ok C rt'" unfolding spawn_and_register_def
  proof (cases rule: t_bind_cases)
    case (err e)
    with u show ?thesis using spawn_share_task_err by blast
  next
    case (ok n rt1 w1)
    have "is_finished (sk_phase k)" if "map_of (rt_tasks rt) m = Some k" "sk_id k = sc_id config" for m k
      using runtime_ok_live [OF conjunct1 [OF u] that(1)] u that(2) by (auto simp: is_running_def)
    then have "runtime_ok C (insert_share (sc_id config) n rt1)"
      by (rule runtime_ok_spawn [OF conjunct1 [OF u] ok(1)])
    with ok(2) show ?thesis by simp
  qed
qed

lemma share_add_keeps:
  fixes C :: "('c, 'z) ipc_crates_scheme"
  shows "t_keeps (runtime_ok C) (share_add C topic path role)"
proof -
  have "t_keeps (runtime_ok C) (\<lambda>rt. (if is_running rt (sc_id config) then t_fail e
      else t_bind (t_lift (g rt)) (\<lambda>a. t_bind (t_io (m1 a)) (\<lambda>_. t_bind (t_io (m2 a)) (\<lambda>_.
        spawn_and_register C config)))) rt)" for config e
    and m1 m2 :: "'c auth_state \<Rightarrow> 'c runtime \<Rightarrow> unit io" and g :: "'c runtime \<Rightarrow> 'c auth_state result"
  proof -
    have "t_ensures (unregistered C (sc_id config)) (t_bind (t_lift x) (\<lambda>a. t_bind (t_io (m1 a)) (\<lambda>_.
        t_bind (t_io (m2 a)) (\<lambda>_. spawn_and_register C config)))) (runtime_ok C)" for x
      by (intro t_ensures_bind [where R = "unregistered C (sc_id config)"] t_keeps_lift t_keeps_io
        spawn_and_register_ok) blast+
    then show ?thesis by (simp add: t_ensures_def t_fail_def)
  qed
  then show ?thesis
    unfolding share_add_def Let_def by (intro t_keeps_bind t_keeps_lift t_keeps_io)
qed

lemma import_ticket_id: "import_ticket C dd me t path w = (Inr cfg, w') \<Longrightarrow> sc_id cfg = tk_share_id t"
  by (auto simp: import_ticket_def Let_def io_bind_eq_Inr split: if_splits)

text \<open>The last part of \<open>share_join\<close>, under the check that the share is not running.\<close>

lemma join_tail_keeps:
  "t_ensures (unregistered C (tk_share_id t))
     (t_bind (t_io (\<lambda>rt. import_ticket C (rt_data_dir rt) me t path)) (\<lambda>cfg. spawn_and_register C cfg))
     (runtime_ok C)"
proof (rule t_ensuresI)
  fix rt w r rt' w'
  assume "t_bind (t_io (\<lambda>rt. import_ticket C (rt_data_dir rt) me t path)) (\<lambda>cfg. spawn_and_register C cfg) rt w =
      ((r, rt'), w')" and u: "unregistered C (tk_share_id t) rt"
  then show "runtime_ok C rt'"
  proof (cases rule: t_bind_cases)
    case (err e)
    with u show ?thesis by simp
  next
    case (ok cfg rt1 w1)
    then have "rt1 = rt" and "sc_id cfg = tk_share_id t" by (auto dest: import_ticket_id)
    with u have "unregistered C (sc_id cfg) rt1" by simp
    with t_ensuresD [OF spawn_and_register_ok ok(2)] show ?thesis by blast
  qed
qed

lemma share_join_keeps:
  fixes C :: "('c, 'z) ipc_crates_scheme"
  shows "t_keeps (runtime_ok C) (share_join C ticket_arg path_arg)"
proof -
  have "t_keeps (runtime_ok C) (\<lambda>rt. (if tk_invitee_pubkey t \<noteq> me rt then t_fail e1
       else if is_running rt (tk_share_id t) then t_fail e2
       else t_bind (t_io m) (\<lambda>configs. if P configs then t_fail e3
         else t_bind (t_io (\<lambda>rt'. import_ticket C (rt_data_dir rt') (me rt) t path)) (\<lambda>cfg. spawn_and_register C cfg))) rt)"
    for t e1 e2 e3 path and m :: "'c runtime \<Rightarrow> share_config list io" and P and me :: "'c runtime \<Rightarrow> byte list"
  proof -
    have "t_ensures (unregistered C (tk_share_id t)) (if P x then t_fail e3
         else t_bind (t_io (\<lambda>rt'. import_ticket C (rt_data_dir rt') y t path)) (\<lambda>cfg. spawn_and_register C cfg))
       (runtime_ok C)" for x y
    proof (cases "P x")
      case True
      then show ?thesis by (simp add: t_ensures_def)
    next
      case False
      then show ?thesis by (simp add: join_tail_keeps)
    qed
    then have "t_ensures (unregistered C (tk_share_id t)) (t_bind (t_io m) (\<lambda>configs. if P configs then t_fail e3
         else t_bind (t_io (\<lambda>rt'. import_ticket C (rt_data_dir rt') y t path)) (\<lambda>cfg. spawn_and_register C cfg)))
       (runtime_ok C)" for y
      by (intro t_ensures_bind [where R = "unregistered C (tk_share_id t)"] t_keeps_io) blast+
    then show ?thesis by (simp add: t_ensures_def t_fail_def)
  qed
  then show ?thesis
    unfolding share_join_def Let_def by (intro t_keeps_bind t_keeps_lift)
qed

lemma stop_share_ok:
  assumes "runtime_ok C rt" and "stop_share C share_id rt w = ((r, rt'), w')"
  shows "runtime_ok C rt'" and "\<not> is_running rt' share_id" and "rt_data_dir rt' = rt_data_dir rt"
    and "map_of (rt_tasks rt') n = Some k \<Longrightarrow> sk_id k = share_id \<Longrightarrow> is_finished (sk_phase k)"
    and "i \<noteq> share_id \<Longrightarrow> map_of (rt_shares rt') i = map_of (rt_shares rt) i"
proof -
  have "runtime_ok C rt' \<and> \<not> is_running rt' share_id \<and> rt_data_dir rt' = rt_data_dir rt \<and>
    (\<forall>n k. map_of (rt_tasks rt') n = Some k \<longrightarrow> sk_id k = share_id \<longrightarrow> is_finished (sk_phase k)) \<and>
    (\<forall>i. i \<noteq> share_id \<longrightarrow> map_of (rt_shares rt') i = map_of (rt_shares rt) i)"
  proof (cases "map_of (rt_shares rt) share_id")
    case None
    then have "is_finished (sk_phase k)" if "map_of (rt_tasks rt) n = Some k" "sk_id k = share_id" for n k
      using runtime_ok_live [OF assms(1) that(1)] that(2) by auto
    with None assms show ?thesis by (auto simp: stop_share_def is_running_def)
  next
    case (Some n)
    obtain r1 rt1 w1 where c: "call_task C n Shutdown rt w = ((r1, rt1), w1)" by (metis prod.exhaust)
    note f = call_task_frame [OF c]
    have rt': "rt' = rt1\<lparr>rt_shares := AList.delete share_id (rt_shares rt1)\<rparr>"
      using assms(2) Some c f by (simp add: stop_share_def call_task_shares)
    have fin: "is_finished (sk_phase k)" if "map_of (rt_tasks rt1) m = Some k" "sk_id k = share_id" for m k
      by (rule shutdown_finishes [OF assms(1) Some c that])
    have "runtime_ok C rt'" unfolding rt'
      by (rule runtime_ok_unregister [OF t_ensuresD [OF runtime_ok_call c assms(1)] fin])
    with f fin show ?thesis by (auto simp: rt' is_running_def delete_conv')
  qed
  then show "runtime_ok C rt'" "\<not> is_running rt' share_id" "rt_data_dir rt' = rt_data_dir rt"
    "map_of (rt_tasks rt') n = Some k \<Longrightarrow> sk_id k = share_id \<Longrightarrow> is_finished (sk_phase k)"
    "i \<noteq> share_id \<Longrightarrow> map_of (rt_shares rt') i = map_of (rt_shares rt) i" by blast+
qed

lemma stop_share_keeps: "t_keeps (runtime_ok C) (stop_share C share_id)"
  by (rule t_ensuresI) (rule stop_share_ok(1))

lemma dispatch_keeps: "t_keeps (runtime_ok C) (dispatch C req)"
proof -
  have "t_keeps (runtime_ok C) (whoami C)" by (rule t_ensuresI) (simp add: whoami_def)
  moreover have "t_keeps (runtime_ok C) (share_list C)"
    unfolding share_list_def by (intro t_keeps_bind t_keeps_io)
  moreover have "t_keeps (runtime_ok C) (share_invite C i key role auth_role)" for i key role auth_role
    unfolding share_invite_def by (intro t_keeps_bind t_keeps_lift ask_share_keeps)
  moreover have "t_keeps (runtime_ok C) (share_revoke C i key)" for i key
    unfolding share_revoke_def by (intro t_keeps_bind t_keeps_lift ask_share_keeps)
  moreover have "t_keeps (runtime_ok C) (share_members C i)" for i
    unfolding share_members_def by (intro t_keeps_bind t_keeps_lift t_keeps_io ask_share_keeps)
  moreover have "t_keeps (runtime_ok C) (share_peers C i)" for i
    unfolding share_peers_def by (intro t_keeps_bind t_keeps_if t_keeps_io)
  moreover have "t_keeps (runtime_ok C) (share_rotate_key C i)" for i
    unfolding share_rotate_key_def by (intro t_keeps_bind t_keeps_lift ask_share_keeps)
  moreover have "t_keeps (runtime_ok C) (share_remove C i)" for i
    unfolding share_remove_def by (intro t_keeps_bind t_keeps_io stop_share_keeps)
  ultimately show ?thesis
    by (cases req) (simp_all add: t_keeps_map share_add_keeps share_join_keeps)
qed

section \<open>Joining\<close>

lemma load_pending_keeps_nodes [intro, simp]: "keeps_nodes (load_pending C dd sid)"
proof -
  have "keeps_nodes (load_pending_loop C dir names)" for dir names
    by (induction names) (auto simp del: io_return_eq io_fail_eq intro!: keeps_nodes_bind split: option.split)
  then have "keeps_nodes (io_bind (fs_read_dir d) (\<lambda>names. io_bind (load_pending_loop C d names) (\<lambda>out.
      io_return (sort_key rot_epoch out))))" for d
    by (intro keeps_nodes_bind keeps_nodes_calls)
  then show ?thesis by (simp add: keeps_nodes_def load_pending_def Let_def)
qed

lemma load_pending_or_empty_files:
  "load_pending_or_empty C dd sid w = (r, w') \<Longrightarrow> fs_file w' = fs_file w"
  using keeps_nodesD [OF load_pending_keeps_nodes, of C dd sid w]
  by (auto simp: load_pending_or_empty_def split: prod.splits sum.splits intro: nodes_cong(2))

text \<open>Whoever reads a stored log replays the operations that were saved.\<close>

lemma auth_load_stored:
  assumes "codec_ok C" and "list_all (\<lambda>op. length (so_signature op) = SIGNATURE_LEN) ops"
    and "enc_log C ops = Some bs" and "fs_file w (auth_log_path dd sid) = Some bs"
    and "auth_load C dd sid w = (Inr st, w')"
  shows "replay C (auth_empty C) ops = Inr st" and "fs_file w' = fs_file w"
proof -
  have ex: "fs_exists w (auth_log_path dd sid)"
    using assms(4) by (auto simp: fs_file_def fs_exists_def split: option.splits)
  have dec: "Option.bind (dec_log C bs) (\<lambda>ops. those (map check_signature_len ops)) = Some ops"
    using assms(1,3) those_check_signature [OF assms(2)] by (simp add: codec_ok_def)
  from assms(5) ex obtain raw w1 where r: "fs_read (auth_log_path dd sid) w = (Inr raw, w1)"
    and k: "(case Option.bind (dec_log C raw) (\<lambda>ops. those (map check_signature_len ops)) of
          None \<Rightarrow> io_fail (Bail ''decoding auth.log'' [])
        | Some ops \<Rightarrow>
            io_bind (io_lift (replay C (auth_empty C) ops)) (\<lambda>state.
            if as_pending state \<noteq> []
            then io_fail (Bail ''auth.log left ops with unmet deps after replay; log is corrupt''
              [length (as_pending state)])
            else io_return state)) w1 = (Inr st, w')"
    by (auto simp: auth_load_def Let_def io_bind_eq_Inr)
  have "raw = bs" using fs_read_ok [OF r] assms(4) by simp
  with k dec have "replay C (auth_empty C) ops = Inr st \<and> w' = w1"
    by (auto simp: io_bind_eq_Inr split: if_splits)
  then show "replay C (auth_empty C) ops = Inr st" "fs_file w' = fs_file w"
    using fs_read_files [of "auth_log_path dd sid" w] r by auto
qed

text \<open>What an accepted ticket leaves on disk.\<close>

lemma import_ticket_ok:
  assumes "import_ticket C dd me t path w = (Inr cfg, w')" and "keys_ok (tk_keys t)"
  obtains st bs where "sc_id cfg = tk_share_id t" "sc_topic cfg = tk_topic t" "sc_role cfg = tk_role t"
    "sc_root_path cfg = path" "replay C (auth_empty C) (tk_auth_log t) = Inr st"
    "is_member C st (group_id_for C (tk_share_id t)) (MemberId me)"
    "enc_log C (as_ops st) = Some bs" "fs_file w' (auth_log_path dd (tk_share_id t)) = Some bs"
    "disk_keys w' dd (tk_share_id t) = Some (tk_keys t)"
    "fs_file w' (share_dir dd (tk_share_id t) @ [''share.json'']) = enc_config C cfg"
proof -
  let ?sid = "tk_share_id t"
  from assms(1) obtain u now w1 w2 w3 w4 st where
    cfg: "cfg = \<lparr>sc_id = ?sid, sc_topic = tk_topic t, sc_root_path = path, sc_role = tk_role t, sc_created_at = now\<rparr>"
    and "fs_create_dir_all path w = (Inr u, w1)" "utc_now w1 = (Inr now, w2)"
    and cs: "config_save C cfg dd w2 = (Inr (), w3)" and ik: "install_keyring dd ?sid (tk_keys t) w3 = (Inr (), w4)"
    and re: "replay C (auth_empty C) (tk_auth_log t) = Inr st"
    and me: "is_member C st (group_id_for C ?sid) (MemberId me)" and sv: "auth_save C dd ?sid st w4 = (Inr (), w')"
    by (auto simp: import_ticket_def Let_def io_bind_eq_Inr split: if_splits)
  have sk: "save_keyring dd ?sid \<lparr>kr_keys = tk_keys t\<rparr> w3 = (Inr (), w4)"
    using ik by (auto simp: install_keyring_def split: if_splits)
  have dk: "disk_keys w4 dd ?sid = Some (tk_keys t)" using save_keyring_ok [OF sk] assms(2) by simp
  obtain bs where bs: "enc_log C (as_ops st) = Some bs"
    using auth_save_unencodable(1) [OF _ sv] by (cases "enc_log C (as_ops st)") auto
  note a = auth_save_ok [OF sv]
  have json: "share_dir dd ?sid @ [''share.json''] \<notin> {auth_log_path dd ?sid, auth_tmp dd ?sid}"
    "share_dir dd ?sid @ [''share.json''] \<notin> {keys_path dd ?sid, keys_tmp dd ?sid}"
    unfolding auth_tmp_eq keys_tmp_eq by (simp_all add: auth_log_path_def keys_path_def)
  have "fs_file w3 (share_dir dd ?sid @ [''share.json'']) = enc_config C cfg"
    using cs cfg by (auto simp: config_save_def Let_def io_bind_eq_Inr dest!: fs_write_ok split: option.splits)
  then have "fs_file w' (share_dir dd ?sid @ [''share.json'']) = enc_config C cfg"
    using auth_file.save_keeps [OF sv json(1)] keys_file.save_keeps [OF sk json(2)] by simp
  with that [of st bs] cfg re me bs a dk show thesis by simp
qed

text \<open>The steps of a join that succeeds.\<close>

lemma share_join_ok:
  assumes "share_join C text path_arg rt w = ((Inr sid, rt'), w')"
  obtains t path cfgs w1 cfg w2 n rt1 where "ticket_decode C text = Inr t"
    "tk_invitee_pubkey t = pub_of C (rt_identity rt)" "\<not> is_running rt (tk_share_id t)"
    "load_all C (rt_data_dir rt) w = (Inr cfgs, w1)" "tk_share_id t \<notin> sc_id ` set cfgs"
    "import_ticket C (rt_data_dir rt) (pub_of C (rt_identity rt)) t path w1 = (Inr cfg, w2)"
    "spawn_share_task C cfg rt w2 = ((Inr n, rt1), w')" "rt' = insert_share sid n rt1" "sid = sc_id cfg"
proof -
  let ?me = "pub_of C (rt_identity rt)"
  from assms obtain t path where td: "ticket_decode C text = Inr t"
    and me: "tk_invitee_pubkey t = ?me" and nr: "\<not> is_running rt (tk_share_id t)"
    and rest: "t_bind (t_io (\<lambda>rt. load_all C (rt_data_dir rt))) (\<lambda>configs.
        if list_ex (\<lambda>c. sc_id c = tk_share_id t) configs
        then t_fail (Bail ''share is already configured locally'' [])
        else
          t_bind (t_io (\<lambda>rt. import_ticket C (rt_data_dir rt) ?me t path)) (\<lambda>cfg.
          spawn_and_register C cfg)) rt w = ((Inr sid, rt'), w')"
    unfolding share_join_def t_bind_eq_Inr [of "t_lift _"] Let_def by (auto split: if_splits)
  then obtain cfgs w1 cfg w2 n rt1 where "load_all C (rt_data_dir rt) w = (Inr cfgs, w1)"
    "tk_share_id t \<notin> sc_id ` set cfgs" "import_ticket C (rt_data_dir rt) ?me t path w1 = (Inr cfg, w2)"
    "spawn_share_task C cfg rt w2 = ((Inr n, rt1), w')" "rt' = insert_share sid n rt1" "sid = sc_id cfg"
    by (force simp: t_bind_eq_Inr spawn_and_register_def list_ex_iff split: if_splits)
  with that td me nr show thesis by blast
qed

section \<open>A concrete instance\<close>

text \<open>
  The owner (key 9) of the share of the earlier examples and a daemon with the key 8 that
  has no share yet.
\<close>

definition demo_ipc :: "signed_op list ipc_crates" where
  "demo_ipc = sync_crates.extend (daemon_crates.extend
     (demo_daemon\<lparr>enc_log := (\<lambda>ops. if ops = [demo_create] then Some [1]
          else if ops = [demo_create, demo_invite] then Some [2] else None),
        dec_log := (\<lambda>bs. if bs = [1] then Some [demo_create]
          else if bs = [2] then Some [demo_create, demo_invite] else None)\<rparr>)
     \<lparr>bt_seed = (\<lambda>_ _. io_return (''h'', 0)), bt_fetch = (\<lambda>_ _ _. io_return 0), bt_delete = (\<lambda>_ w. w),
      gossip_stream = (\<lambda>_. io_return ()), watch_start = (\<lambda>_. io_return ())\<rparr>)
     \<lparr>rfc3339 = (\<lambda>_. ''now''), current_dir = Some []\<rparr>"

definition demo_joiner :: "signed_op list runtime" where
  "demo_joiner = \<lparr>rt_data_dir = [''d''], rt_identity = [8], rt_bt_port = 80, rt_shares = [], rt_tasks = [],
     rt_next = 0, rt_published = []\<rparr>"

definition demo_blank :: world where
  "demo_blank = (calm_world [])\<lparr>w_now := (\<lambda>_. 5)\<rparr>"

lemmas demo_ipc_defs = demo_ipc_def sync_crates.defs daemon_crates.defs demo_daemon_defs

lemma demo_ipc_ok: "ed_ok demo_ipc" "ticket_codec_ok demo_ipc" "codec_ok demo_ipc"
proof -
  show "ed_ok demo_ipc" using demo_daemon_ed_ok by (simp add: ed_ok_def demo_ipc_def sync_crates.defs daemon_crates.defs)
  show "ticket_codec_ok demo_ipc"
    using demo_daemon_ticket_ok by (simp add: ticket_codec_ok_def demo_ipc_def sync_crates.defs daemon_crates.defs)
  show "codec_ok demo_ipc" by (simp add: codec_ok_def demo_ipc_def sync_crates.defs daemon_crates.defs)
qed

lemma demo_joiner_ok: "runtime_ok demo_ipc demo_joiner"
  by (simp add: runtime_ok_def demo_joiner_def)

section \<open>Properties\<close>

text \<open>A new task starts with the keys and the log that are stored.\<close>

lemma spawn_share_task_stored:
  assumes "codec_ok C" and "runtime_ok C rt" and sp: "spawn_share_task C cfg rt v = ((Inr n, rt1), v')"
    and dk: "disk_keys v (rt_data_dir rt) (sc_id cfg) = Some ks"
    and sg: "list_all (\<lambda>op. length (so_signature op) = SIGNATURE_LEN) ops" and bs: "enc_log C ops = Some bs"
      "fs_file v (auth_log_path (rt_data_dir rt) (sc_id cfg)) = Some bs" "replay C (auth_empty C) ops = Inr st0"
  obtains t where "map_of (rt_tasks rt1) n = Some \<lparr>sk_env = share_env_of C rt cfg, sk_phase = Spawned t\<rparr>"
    "kr_keys (ta_key t) = ks" "ta_auth t = st0" "fs_file v' = fs_file v"
proof -
  let ?dd = "rt_data_dir rt"
  from sp obtain key st pend v3 v4 where ld: "load_or_create_keyring ?dd (sc_id cfg) v = (Inr key, v3)"
    and al: "auth_load C ?dd (sc_id cfg) v3 = (Inr st, v4)"
    and lp: "load_pending_or_empty C ?dd (sc_id cfg) v4 = (Inr pend, v')" and n: "n = rt_next rt"
    and rt1: "rt1 = rt\<lparr>rt_tasks := rt_tasks rt @ [(n, \<lparr>sk_env = share_env_of C rt cfg,
        sk_phase = Spawned \<lparr>ta_key = key, ta_auth = st, ta_pending = pend, ta_buffer = []\<rparr>\<rparr>)],
      rt_next := Suc n\<rparr>"
    by (rule spawn_share_task_ok)
  have key: "kr_keys key = ks" "fs_file v3 = fs_file v" using load_stored [OF ld dk] by simp_all
  have "replay C (auth_empty C) ops = Inr st" "fs_file v4 = fs_file v3"
    using auth_load_stored [OF assms(1) sg bs(1) _ al] bs(2) key(2) by simp_all
  then have st: "st = st0" and v4: "fs_file v4 = fs_file v" using bs(3) key(2) by simp_all
  have "map_of (rt_tasks rt) n = None"
    using assms(2) n unfolding runtime_ok_def by (metis not_Some_eq order_less_irrefl)
  then have "map_of (rt_tasks rt1) n = Some \<lparr>sk_env = share_env_of C rt cfg,
      sk_phase = Spawned \<lparr>ta_key = key, ta_auth = st, ta_pending = pend, ta_buffer = []\<rparr>\<rparr>"
    by (simp add: rt1 map_add_def)
  with key(1) st load_pending_or_empty_files [OF lp] v4 show thesis
    by (intro that [of "\<lparr>ta_key = key, ta_auth = st, ta_pending = pend, ta_buffer = []\<rparr>"]) simp_all
qed

text \<open>
  C8. From invitation to membership: when the owner's task issues a ticket and the
  invitee's daemon joins with it, the invitee is the daemon the ticket names, it stores
  exactly the owner's keys and the owner's log, it is a member by that log, and a task for
  the share is registered that starts with these keys, the owner's group state and the
  topic and role of the invitation.
\<close>

theorem invite_then_join:
  assumes "ed_ok C" and "ticket_codec_ok C" and "codec_ok C"
    and "handle_invite C config dd sk invitee role srole s w = ((Inr text, s'), w')"
    and "ring_ok (ta_key s)" and "list_all (\<lambda>op. length (so_signature op) = SIGNATURE_LEN) (as_ops (ta_auth s))"
    and "log_core C (ta_auth s)" and "set (crdt_heads C (as_crdt (ta_auth s))) \<subseteq> known C (ta_auth s)"
    and "compute_id C (last (as_ops (ta_auth s'))) \<notin>
      compute_id C ` (set (as_ops (ta_auth s)) \<union> set (as_pending (ta_auth s)))"
    and "share_join C text path rt v = ((Inr sid, rt'), v')" and "runtime_ok C rt"
  shows "sid = sc_id config \<and> invitee = MemberId (pub_of C (rt_identity rt)) \<and>
    disk_keys v' (rt_data_dir rt) sid = Some (kr_keys (ta_key s)) \<and>
    fs_file v' (auth_log_path (rt_data_dir rt) sid) = fs_file w' (auth_log_path dd sid) \<and>
    is_member C (ta_auth s') (group_id_for C sid) invitee \<and>
    (\<exists>n k t. map_of (rt_shares rt') sid = Some n \<and> map_of (rt_tasks rt') n = Some k \<and>
       sc_topic (en_config (sk_env k)) = sc_topic config \<and> sc_role (en_config (sk_env k)) = srole \<and>
       sk_phase k = Spawned t \<and> kr_keys (ta_key t) = kr_keys (ta_key s) \<and>
       ta_auth t = (ta_auth s')\<lparr>as_pending := []\<rparr>)"
proof -
  let ?dd = "rt_data_dir rt" and ?st = "(ta_auth s')\<lparr>as_pending := []\<rparr>"
  have "kr_keys (ta_key s) \<noteq> []" using assms(5) by (simp add: keys_ok_def)
  from invite_ticket_admits [OF assms(1,2,4) this assms(6-9)] obtain t where
    td: "ticket_decode C text = Inr t" and t: "tk_share_id t = sc_id config" "tk_topic t = sc_topic config"
      "tk_role t = srole" "tk_keys t = kr_keys (ta_key s)" "tk_invitee_pubkey t = member_bytes invitee"
      "tk_auth_log t = as_ops (ta_auth s')" "fs_file w' (auth_log_path dd (sc_id config)) = enc_log C (tk_auth_log t)"
      "replay C (auth_empty C) (tk_auth_log t) = Inr ?st"
    and sg: "list_all (\<lambda>op. length (so_signature op) = SIGNATURE_LEN) (tk_auth_log t)" by blast
  from assms(10) obtain path' cfgs v1 cfg v2 n rt1 where me: "tk_invitee_pubkey t = pub_of C (rt_identity rt)"
    and im: "import_ticket C ?dd (pub_of C (rt_identity rt)) t path' v1 = (Inr cfg, v2)"
    and sp: "spawn_share_task C cfg rt v2 = ((Inr n, rt1), v')" and rt': "rt' = insert_share sid n rt1"
    and sid: "sid = sc_id cfg"
    by (rule share_join_ok) (use td in auto)
  have ok: "keys_ok (tk_keys t)" using t(4) assms(5) by simp
  obtain bs where cfg: "sc_id cfg = tk_share_id t" "sc_topic cfg = tk_topic t" "sc_role cfg = tk_role t"
    and mem: "is_member C ?st (group_id_for C (tk_share_id t)) (MemberId (pub_of C (rt_identity rt)))"
    and bs: "enc_log C (tk_auth_log t) = Some bs" "fs_file v2 (auth_log_path ?dd (tk_share_id t)) = Some bs"
    and dk: "disk_keys v2 ?dd (tk_share_id t) = Some (tk_keys t)"
    using im ok by (rule import_ticket_ok) (use t in simp)
  obtain k where k: "map_of (rt_tasks rt1) n = Some \<lparr>sk_env = share_env_of C rt cfg, sk_phase = Spawned k\<rparr>"
    and key: "kr_keys (ta_key k) = tk_keys t" and st: "ta_auth k = ?st" and v': "fs_file v' = fs_file v2"
    using assms(3,11) sp by (rule spawn_share_task_stored) (use dk sg bs t(8) cfg(1) in auto)
  have inv: "invitee = MemberId (pub_of C (rt_identity rt))" using me t(5) by (cases invitee) simp
  have "is_member C (ta_auth s') (group_id_for C sid) invitee"
    using mem inv sid cfg(1) by (simp add: is_member_def)
  moreover have "map_of (rt_shares rt') sid = Some n" by (simp add: rt')
  moreover have "disk_keys v' ?dd sid = Some (kr_keys (ta_key s))"
    using dk v' sid cfg(1) t(4) by (simp add: disk_keys_def)
  moreover have "fs_file v' (auth_log_path ?dd sid) = fs_file w' (auth_log_path dd sid)"
    using bs v' sid cfg(1) t(1,7) by simp
  moreover have "en_config (share_env_of C rt cfg) = cfg" by (simp add: share_env_of_def)
  ultimately show ?thesis
    using k inv sid cfg t key st rt'
    by (intro conjI exI [of _ n] exI [of _ "\<lparr>sk_env = share_env_of C rt cfg, sk_phase = Spawned k\<rparr>"] exI [of _ k]) auto
qed

theorem invite_then_join_witness:
  "\<exists>text s' w' sid rt' v'.
    handle_invite demo_ipc demo_config [''d''] [9] (MemberId [8]) Writer Sync (demo_task [demo_create]) demo_share =
      ((Inr text, s'), w') \<and>
    share_join demo_ipc text ''/r'' demo_joiner demo_blank = ((Inr sid, rt'), v') \<and>
    disk_keys v' [''d''] ''s'' = Some [replicate 32 7] \<and> map_of (rt_shares rt') ''s'' \<noteq> None"
proof -
  let ?s = "demo_task [demo_create]"
  let ?r = "handle_invite demo_ipc demo_config [''d''] [9] (MemberId [8]) Writer Sync ?s demo_share"
  let ?j = "share_join demo_ipc (b64_encode demo_ipc [3]) ''/r'' demo_joiner demo_blank"
  have "fst (fst ?r) = Inr (b64_encode demo_ipc [3])" "is_ok (fst (fst ?j))" by code_simp+
  then obtain sid where r: "?r = ((Inr (b64_encode demo_ipc [3]), snd (fst ?r)), snd ?r)"
    and j: "?j = ((Inr sid, snd (fst ?j)), snd ?j)" by (metis is_ok_iff prod.collapse)
  have sg: "list_all (\<lambda>op. length (so_signature op) = SIGNATURE_LEN) (as_ops (ta_auth ?s))"
    "set (crdt_heads demo_ipc (as_crdt (ta_auth ?s))) \<subseteq> Auth.known demo_ipc (ta_auth ?s)"
    "compute_id demo_ipc (last (as_ops (ta_auth (snd (fst ?r))))) \<notin>
      compute_id demo_ipc ` (set (as_ops (ta_auth ?s)) \<union> set (as_pending (ta_auth ?s)))" by code_simp+
  have run: "crdt_run demo_ipc (crdt_new demo_ipc) [demo_create] = Some [demo_create]"
    "so_deps demo_create = []" "verify demo_ipc demo_create = Inr ()" by code_simp+
  then have core: "log_core demo_ipc (ta_auth ?s)"
    using causal_list_snoc [of "compute_id demo_ipc" so_deps "[]" demo_create]
    by (simp add: log_core_def demo_task_def)
  have ring: "ring_ok (ta_key ?s)" by (simp add: demo_task_def keys_ok_def KEY_LEN_def)
  from invite_then_join [OF demo_ipc_ok r ring sg(1) core sg(2,3) j demo_joiner_ok]
  have "disk_keys (snd ?j) [''d''] ''s'' = Some [replicate 32 7] \<and> map_of (rt_shares (snd (fst ?j))) ''s'' \<noteq> None"
    by (auto simp: demo_config_def demo_joiner_def demo_task_def)
  with r j show ?thesis by blast
qed

text \<open>
  A ticket whose log does not list the joining daemon is refused only after the
  configuration and the keys are stored: the same daemon then has a share it is no member
  of, and a correct ticket for it is refused.
\<close>

lemma refused_join_sticks:
  "let C = demo_ipc\<lparr>dec_ticket := (\<lambda>bs. Some (if bs = [3] then demo_invitation\<lparr>tk_auth_log := [demo_create]\<rparr>
         else demo_invitation))\<rparr>;
       r1 = share_join C (b64_encode C [3]) ''/r'' demo_joiner demo_blank;
       r2 = share_join C (b64_encode C [4]) ''/r'' (snd (fst r1)) (snd r1)
   in fst (fst r1) = Inl (Bail ''ticket's auth log does not list us as a member'' []) \<and>
      disk_keys (snd r1) [''d''] ''s'' = Some [replicate 32 7] \<and>
      fst (load_all C [''d''] (snd r1)) = Inr [demo_config] \<and>
      fst (fst r2) = Inl (Bail ''share is already configured locally'' [])"
  by code_simp

lemma fs_remove_dir_all_absent: "fs_file w q = None \<Longrightarrow> fs_file (snd (fs_remove_dir_all p w)) q = None"
proof (cases "fs_remove_dir_all p w")
  case (Pair r w')
  assume q: "fs_file w q = None"
  show ?thesis
  proof (cases r)
    case (Inl e)
    with Pair have "fs_file w' = fs_file w" by (auto simp: fs_remove_dir_all_def syscall_def split: if_splits)
    with Pair q show ?thesis by simp
  next
    case (Inr u)
    with Pair fs_remove_dir_all_files [of p w u w'] q show ?thesis by simp
  qed
qed

text \<open>
  C40. Removing a share forgets it: after a successful request no sender and no running task
  of the share is left, every file of its directory is gone, and the other shares stay
  registered as they were.
\<close>

theorem share_remove_forgets:
  assumes "runtime_ok C rt" and "share_remove C sid rt w = ((Inr (), rt'), w')"
  shows "runtime_ok C rt' \<and> \<not> is_running rt' sid \<and>
    (\<forall>n k. map_of (rt_tasks rt') n = Some k \<and> sk_id k = sid \<longrightarrow> is_finished (sk_phase k)) \<and>
    (\<forall>i. i \<noteq> sid \<longrightarrow> map_of (rt_shares rt') i = map_of (rt_shares rt) i) \<and>
    (\<forall>q. prefix (share_dir (rt_data_dir rt) sid) q \<longrightarrow> fs_file w' q = None)"
proof -
  from assms(2) obtain cfgs w1 w2 w3 where st: "stop_share C sid rt w1 = ((Inr (), rt'), w2)"
    and rm: "remove_share (rt_data_dir rt') sid w2 = (Inr (), w3)"
    and sh: "remove_shadow (root_of cfgs sid) w3 = (Inr (), w')"
    by (auto simp: share_remove_def t_bind_eq_Inr)
  note s = stop_share_ok [OF assms(1) st]
  have gone: "fs_file w3 q = None" if "prefix (share_dir (rt_data_dir rt) sid) q" for q
    using rm s(3) that
    by (auto simp: remove_share_def Let_def prefix_def dest!: fs_remove_dir_all_files split: if_splits)
  have "fs_file w' q = None" if "fs_file w3 q = None" for q
    using sh fs_remove_dir_all_absent [OF that] that by (auto simp: remove_shadow_def split: option.splits if_splits)
  with s gone show ?thesis by blast
qed

theorem share_remove_forgets_witness:
  "let r1 = share_join demo_ipc (b64_encode demo_ipc [3]) ''/r'' demo_joiner demo_blank;
       r2 = share_remove demo_ipc ''s'' (snd (fst r1)) (snd r1)
   in fst (fst r2) = Inr () \<and> \<not> is_running (snd (fst r2)) ''s'' \<and>
      fs_file (snd r2) [''d'', ''shares'', ''s'', ''keys.bin''] = None"
proof -
  let ?j = "share_join demo_ipc (b64_encode demo_ipc [3]) ''/r'' demo_joiner demo_blank"
  let ?r = "share_remove demo_ipc ''s'' (snd (fst ?j)) (snd ?j)"
  have ok: "runtime_ok demo_ipc (snd (fst ?j))"
    by (rule t_ensuresD [OF share_join_keeps _ demo_joiner_ok, of _ _ _ "fst (fst ?j)" _ "snd ?j"]) simp
  have c: "fst (fst ?r) = Inr ()" "rt_data_dir (snd (fst ?j)) = [''d'']" by code_simp+
  then have "?r = ((Inr (), snd (fst ?r)), snd ?r)" by (metis prod.collapse)
  from share_remove_forgets [OF ok this] c show ?thesis
    by (simp add: Let_def share_dir_def shares_dir_def prefix_def)
qed

text \<open>
  The listing of peers: every entry of the clock once, the most active first, peers with
  the same count in the order of their keys.
\<close>

lemma sort_peers_order:
  "mset (sort_peers c) = mset c \<and>
   sorted_wrt (\<lambda>(p, m) (q, n). n < m \<or> n = m \<and> p \<le> q) (sort_peers c)"
proof -
  have stable: "sorted_wrt (\<lambda>x y. f x < f y \<or> f x = f y \<and> g x \<le> g y) (sort_key f xs)"
    if "sorted_wrt (\<lambda>x y. g x \<le> g y) xs" for f :: "'x \<Rightarrow> int" and g :: "'x \<Rightarrow> string" and xs
    using that
  proof (induction xs)
    case (Cons x xs)
    have ins: "sorted_wrt R (insort_key f x ys)"
      if "sorted_wrt R ys" "R = (\<lambda>x y. f x < f y \<or> f x = f y \<and> g x \<le> g y)" "\<forall>y \<in> set ys. g x \<le> g y" for R ys
      using that by (induction ys) (force simp: set_insort_key not_le)+
    from Cons show ?case by (auto intro!: ins)
  qed simp
  have "sorted_wrt (\<lambda>x y. fst x \<le> fst y) (sort_key fst c)"
    using sorted_sort_key [of fst c] by (simp add: sorted_map)
  from stable [OF this, of "\<lambda>(_, v). - uint v"]
  have "sorted_wrt (\<lambda>(p, m) (q, n). n < m \<or> n = m \<and> p \<le> q) (sort_peers c)"
    unfolding sort_peers_def
    by (rule sorted_wrt_mono_rel [rotated]) (auto simp: word_less_def word_uint_eq_iff)
  then show ?thesis by (simp add: sort_peers_def)
qed

text \<open>The role names the command line sends are the ones the daemon parses.\<close>

lemma role_names_parse: "role_from_str (role_str r) = Inr r"
proof -
  have "role_from_str ''seed'' = Inr Seed" "role_from_str ''leech'' = Inr Leech" "role_from_str ''sync'' = Inr Sync"
    by code_simp+
  then show ?thesis by (cases r) simp_all
qed

lemma auth_role_names_parse: "parse_auth_role (auth_role_display r) = Inr r"
proof -
  have "parse_auth_role ''owner'' = Inr Owner" "parse_auth_role ''writer'' = Inr Writer"
    "parse_auth_role ''reader'' = Inr Reader" by code_simp+
  then show ?thesis by (cases r) simp_all
qed

end
