(* ===== verification/Daemon.thy ===== *)
theory Daemon
  imports Ipc
begin

text \<open>
  \<^verbatim>\<open>src/daemon.rs\<close>, \<open>start_runtime\<close> and \<open>serve\<close>: bringing the runtime up, spawning a task for
  every configured share, and the supervision loop with its way to stop.

  What the process does then is a step relation: a task is polled for the first time, a
  task handles an event of its loop, the bus delivers a request, a finished task is
  joined.  Between two steps anything may change the file system and the clock.  The
  peer-to-peer stack and the torrent session are parameters; a signal ends the process in
  any state.
\<close>

section \<open>Start\<close>

record 'c serve_crates = "'c ipc_crates" +
  panda_start :: "byte list \<Rightarrow> unit io"
  session_new :: "path \<Rightarrow> 16 word \<Rightarrow> 16 word \<Rightarrow> unit io"
  bus_register :: "unit result"

text \<open>The session listens on the range from \<open>bt_port\<close> to the next number, which wraps around.\<close>

definition start_runtime ::
  "('c, 'z) serve_crates_scheme \<Rightarrow> path \<Rightarrow> 16 word \<Rightarrow> byte list \<Rightarrow> 'c runtime io" where
  "start_runtime C data_dir bt_port identity =
     io_bind (panda_start C identity) (\<lambda>_.
     io_bind (session_new C data_dir bt_port (bt_port + 1)) (\<lambda>_.
     io_return \<lparr>rt_data_dir = data_dir, rt_identity = identity, rt_bt_port = bt_port, rt_shares = [],
       rt_tasks = [], rt_next = 0, rt_published = []\<rparr>))"

text \<open>A share whose task cannot be spawned is skipped.\<close>

fun spawn_all ::
  "('c, 'z) serve_crates_scheme \<Rightarrow> share_config list \<Rightarrow> 'c runtime \<Rightarrow> world \<Rightarrow> 'c runtime \<times> world" where
  "spawn_all C [] rt w = (rt, w)"
| "spawn_all C (config # configs) rt w =
     (case spawn_share_task C config rt w of
        ((Inr tx, rt'), w') \<Rightarrow> spawn_all C configs (insert_share (sc_id config) tx rt') w'
      | ((Inl _, rt'), w') \<Rightarrow> spawn_all C configs rt' w')"

record 'c server =
  sv_rt :: "'c runtime"
  sv_no_shares_at_start :: bool
  sv_register_dbus :: bool
  sv_on_bus :: bool

definition serve_start ::
  "('c, 'z) serve_crates_scheme \<Rightarrow> path \<Rightarrow> 16 word \<Rightarrow> byte list \<Rightarrow> share_config list \<Rightarrow> bool \<Rightarrow> bool \<Rightarrow> path option \<Rightarrow>
   'c server io" where
  "serve_start C data_dir bt_port identity configs register_dbus bus_address runtime_dir =
     io_bind (start_runtime C data_dir bt_port identity) (\<lambda>rt w.
     case spawn_all C configs rt w of
       (rt', w') \<Rightarrow> io_return \<lparr>sv_rt = rt', sv_no_shares_at_start = (configs = []), sv_register_dbus = register_dbus,
         sv_on_bus = (register_dbus \<and> session_bus_likely_available bus_address runtime_dir w' \<and> is_ok (bus_register C))\<rparr> w')"

section \<open>The supervision loop\<close>

definition join_task :: "nat \<Rightarrow> 'c server \<Rightarrow> 'c server" where
  "join_task n sv = sv\<lparr>sv_rt := (sv_rt sv)\<lparr>rt_tasks := AList.delete n (rt_tasks (sv_rt sv))\<rparr>\<rparr>"

text \<open>The check at the end of a turn: all shares are gone and nobody can add one.\<close>

definition idle_exit :: "'c server \<Rightarrow> bool" where
  "idle_exit sv \<longleftrightarrow> rt_shares (sv_rt sv) = [] \<and> \<not> sv_no_shares_at_start sv \<and> \<not> sv_register_dbus sv"

definition finish_shutdown :: "'c server \<Rightarrow> 'c server" where
  "finish_shutdown sv = sv\<lparr>sv_rt := (sv_rt sv)\<lparr>rt_tasks := []\<rparr>\<rparr>"

text \<open>One turn: what the loop saw, the next state, and whether \<open>serve\<close> returns.\<close>

datatype turn = Joined nat | Idle | Signal

fun serve_turn :: "turn \<Rightarrow> 'c server \<Rightarrow> 'c server \<times> bool" where
  "serve_turn Signal sv = (finish_shutdown sv, True)"
| "serve_turn Idle sv = (if idle_exit sv then (finish_shutdown sv, True) else (sv, False))"
| "serve_turn (Joined n) sv =
     (let sv' = join_task n sv in if idle_exit sv' then (finish_shutdown sv', True) else (sv', False))"

definition cmd_closed :: "'c runtime \<Rightarrow> nat \<Rightarrow> bool" where
  "cmd_closed rt n \<longleftrightarrow> list_all (\<lambda>(_, m). m \<noteq> n) (rt_shares rt)"

definition set_task :: "nat \<Rightarrow> 'c share_task \<Rightarrow> byte list list \<Rightarrow> 'c server \<Rightarrow> 'c server" where
  "set_task n k out sv = sv\<lparr>sv_rt := publish (sk_id k) out (put_task n k (sv_rt sv))\<rparr>"

fun is_command :: "loop_event \<Rightarrow> bool" where
  "is_command (Command _) = True"
| "is_command _ = False"

inductive daemon_step ::
  "('c, 'z) serve_crates_scheme \<Rightarrow> 'c server \<times> world \<Rightarrow> 'c server \<times> world \<Rightarrow> bool" for C where
  Poll: "map_of (rt_tasks (sv_rt sv)) n = Some k \<Longrightarrow> start_task C k w = ((k', out), w') \<Longrightarrow>
    daemon_step C (sv, w) (set_task n k' out sv, w')"
| Event: "map_of (rt_tasks (sv_rt sv)) n = Some k \<Longrightarrow> \<not> is_command ev \<Longrightarrow>
    task_event C (cmd_closed (sv_rt sv) n) ev k w = ((reply, k', out), w') \<Longrightarrow>
    daemon_step C (sv, w) (set_task n k' out sv, w')"
| Request: "sv_on_bus sv \<Longrightarrow> dispatch C req (sv_rt sv) w = ((r, rt'), w') \<Longrightarrow>
    daemon_step C (sv, w) (sv\<lparr>sv_rt := rt'\<rparr>, w')"
| Turn: "t = Idle \<or> (\<exists>n k. t = Joined n \<and> map_of (rt_tasks (sv_rt sv)) n = Some k \<and> is_finished (sk_phase k)) \<Longrightarrow>
    serve_turn t sv = (sv', False) \<Longrightarrow> daemon_step C (sv, w) (sv', w)"
| Environment: "daemon_step C (sv, w) (sv, w')"

fun_cases serve_turn_stays: "serve_turn t sv = (sv', False)"

section \<open>Invariants of the process\<close>

lemma runtime_ok_join:
  assumes "runtime_ok C rt"
  shows "runtime_ok C (rt\<lparr>rt_tasks := AList.delete n (rt_tasks rt)\<rparr>)"
proof -
  have "share_env_of C (rt\<lparr>rt_tasks := ts\<rparr>) = share_env_of C rt" for ts
    by (simp add: share_env_of_def fun_eq_iff)
  then show ?thesis using assms
    by (auto simp: runtime_ok_def delete_conv' distinct_delete split: if_splits)
qed

lemma runtime_ok_set_task:
  assumes "runtime_ok C (sv_rt sv)" and "map_of (rt_tasks (sv_rt sv)) n = Some k" and "sk_env k' = sk_env k"
    and "is_finished (sk_phase k) \<Longrightarrow> is_finished (sk_phase k')"
  shows "runtime_ok C (sv_rt (set_task n k' out sv))"
  using runtime_ok_put [OF assms(1-3)] assms(4) by (simp add: set_task_def)

interpretation runtime_inv: step_invariant "daemon_step C" "\<lambda>(sv, w). runtime_ok C (sv_rt sv)" for C
proof unfold_locales
  fix s t
  assume "daemon_step C s t" and "case s of (sv, w) \<Rightarrow> runtime_ok C (sv_rt sv)"
  then show "case t of (sv, w) \<Rightarrow> runtime_ok C (sv_rt sv)"
  proof (induction rule: daemon_step.induct)
    case (Poll sv n k w k' out w')
    have "is_finished (sk_phase k) \<Longrightarrow> is_finished (sk_phase k')"
      using Poll(2) start_task_finished [of k C w] by auto
    with runtime_ok_set_task [OF _ Poll(1) start_task_env [OF Poll(2)]] Poll(3) show ?case by simp
  next
    case (Event sv n k ev w reply k' out w')
    have "is_finished (sk_phase k) \<Longrightarrow> is_finished (sk_phase k')"
      using Event(3) task_event_finished [of k C] by auto
    with runtime_ok_set_task [OF _ Event(1) task_event_env [OF Event(3)]] Event(4) show ?case by simp
  next
    case (Request sv req w r rt' w')
    with t_ensuresD [OF dispatch_keeps Request(2)] show ?case by simp
  next
    case (Turn t sv sv' w)
    then show ?case by (auto elim!: serve_turn_stays simp: join_task_def Let_def runtime_ok_join split: if_splits)
  qed simp
qed

text \<open>What stays as \<open>serve\<close> set it, and the senders as long as no request can come.\<close>

interpretation shares_inv: step_invariant "daemon_step C"
  "\<lambda>(sv, w). \<not> sv_on_bus sv \<and> rt_shares (sv_rt sv) = sh \<and> sv_register_dbus sv = reg" for C sh reg
proof unfold_locales
  fix s t
  assume "daemon_step C s t" and "case s of (sv, w) \<Rightarrow> \<not> sv_on_bus sv \<and> rt_shares (sv_rt sv) = sh \<and> sv_register_dbus sv = reg"
  then show "case t of (sv, w) \<Rightarrow> \<not> sv_on_bus sv \<and> rt_shares (sv_rt sv) = sh \<and> sv_register_dbus sv = reg"
    by (induction rule: daemon_step.induct) (auto simp: set_task_def join_task_def Let_def split: if_splits)
qed

section \<open>The state after the start\<close>

lemma spawn_all_ok:
  assumes "runtime_ok C rt" and "distinct (map sc_id configs)"
    and "\<And>n k. map_of (rt_tasks rt) n = Some k \<Longrightarrow> sk_id k \<notin> sc_id ` set configs"
    and "spawn_all C configs rt w = (rt', w')"
  shows "runtime_ok C rt'"
  using assms
proof (induction configs arbitrary: rt w)
  case (Cons config configs)
  obtain r rt1 w1 where sp: "spawn_share_task C config rt w = ((r, rt1), w1)" by (metis prod.exhaust)
  show ?case
  proof (cases r)
    case (Inl e)
    then have "rt1 = rt" using sp spawn_share_task_err by blast
    with Inl sp Cons.prems(4) have "spawn_all C configs rt w1 = (rt', w')" by simp
    moreover have "sk_id k \<notin> sc_id ` set configs" if "map_of (rt_tasks rt) n = Some k" for n k
      using Cons.prems(3) [OF that] by simp
    ultimately show ?thesis using Cons.IH [OF Cons.prems(1)] Cons.prems(2) by simp
  next
    case (Inr n)
    let ?rt = "insert_share (sc_id config) n rt1"
    have ok: "runtime_ok C ?rt"
      using runtime_ok_spawn [OF Cons.prems(1)] sp Inr Cons.prems(3) by fastforce
    from sp [unfolded Inr] obtain ph where rt1: "rt_tasks rt1 = rt_tasks rt @ [(n, \<lparr>sk_env = share_env_of C rt config, sk_phase = ph\<rparr>)]"
      by (rule spawn_share_task_ok) simp
    have "sk_id k \<notin> sc_id ` set configs" if "map_of (rt_tasks ?rt) m = Some k" for m k
      using that Cons.prems(2) Cons.prems(3) [of m k]
      by (auto simp: rt1 map_add_def share_env_of_def split: option.splits if_splits)
    with Cons.IH [OF ok] Cons.prems(2,4) sp Inr show ?thesis by simp
  qed
qed simp

lemma serve_start_ok:
  assumes "serve_start C dd port sk configs reg addr dir w = (Inr sv, w')" and "distinct (map sc_id configs)"
  shows "runtime_ok C (sv_rt sv)"
proof -
  from assms(1) obtain rt w1 where st: "start_runtime C dd port sk w = (Inr rt, w1)"
    and sp: "spawn_all C configs rt w1 = (sv_rt sv, w')"
    by (auto simp: serve_start_def io_bind_eq_Inr case_prod_beta)
  have rt: "rt_shares rt = [] \<and> rt_tasks rt = []" using st by (auto simp: start_runtime_def io_bind_eq_Inr)
  then have "runtime_ok C rt" by (simp add: runtime_ok_def)
  with spawn_all_ok [OF _ assms(2) _ sp] rt show ?thesis by simp
qed

section \<open>A concrete instance\<close>

definition demo_serve :: "signed_op list serve_crates" where
  "demo_serve = ipc_crates.extend demo_ipc
     \<lparr>panda_start = (\<lambda>_. io_return ()), session_new = (\<lambda>_ _ _. io_return ()), bus_register = Inr ()\<rparr>"

definition demo_serving :: "signed_op list server result \<times> world" where
  "demo_serving = serve_start demo_serve [''d''] 80 [9] [demo_config] False False None demo_share"

definition demo_sv :: "signed_op list server" where
  "demo_sv = (case fst demo_serving of Inr sv \<Rightarrow> sv | Inl _ \<Rightarrow> \<lparr>sv_rt = demo_joiner, sv_no_shares_at_start = True,
     sv_register_dbus = True, sv_on_bus = True\<rparr>)"

lemma demo_serving_ok: "serve_start demo_serve [''d''] 80 [9] [demo_config] False False None demo_share =
    (Inr demo_sv, snd demo_serving)"
proof -
  have "is_ok (fst demo_serving)" by code_simp
  then have "fst demo_serving = Inr demo_sv" by (auto simp: demo_sv_def is_ok_iff)
  then show ?thesis unfolding demo_serving_def [symmetric] by (metis prod.collapse)
qed

text \<open>The one task of the example starts, loses its gossip subscription, ends and is joined.\<close>

definition demo_task0 :: "signed_op list share_task" where
  "demo_task0 = snd (hd (rt_tasks (sv_rt demo_sv)))"

definition demo_polled :: "(signed_op list share_task \<times> byte list list) \<times> world" where
  "demo_polled = start_task demo_serve demo_task0 (snd demo_serving)"

definition demo_sv1 :: "signed_op list server" where
  "demo_sv1 = set_task 0 (fst (fst demo_polled)) (snd (fst demo_polled)) demo_sv"

definition demo_closed :: "(command_reply option \<times> signed_op list share_task \<times> byte list list) \<times> world" where
  "demo_closed = task_event demo_serve False GossipClosed (fst (fst demo_polled)) (snd demo_polled)"

definition demo_sv2 :: "signed_op list server" where
  "demo_sv2 = set_task 0 (fst (snd (fst demo_closed))) (snd (snd (fst demo_closed))) demo_sv1"

lemma demo_sv_tasks: "rt_tasks (sv_rt demo_sv) = [(0, demo_task0)]" "rt_shares (sv_rt demo_sv) = [(''s'', 0)]"
  "is_finished (sk_phase demo_task0) = False" "sk_id demo_task0 = ''s''"
  by code_simp+

lemma demo_sv_closed: "is_finished (sk_phase (fst (snd (fst demo_closed))))"
  by code_simp

lemma demo_server_run:
  "(daemon_step demo_serve)\<^sup>*\<^sup>* (demo_sv, snd demo_serving) (join_task 0 demo_sv2, snd demo_closed)"
  and demo_server_done: "rt_tasks (sv_rt (join_task 0 demo_sv2)) = []"
proof -
  note t = demo_sv_tasks
  have 1: "daemon_step demo_serve (demo_sv, snd demo_serving) (demo_sv1, snd demo_polled)"
    unfolding demo_sv1_def by (rule Poll [where k = demo_task0]) (simp_all add: demo_polled_def t)
  have 2: "daemon_step demo_serve (demo_sv1, snd demo_polled) (demo_sv2, snd demo_closed)"
    unfolding demo_sv2_def
    by (rule Event [where k = "fst (fst demo_polled)" and ev = GossipClosed and reply = "fst (fst demo_closed)"])
      (simp_all add: demo_closed_def demo_sv1_def set_task_def cmd_closed_def t)
  have 3: "daemon_step demo_serve (demo_sv2, snd demo_closed) (join_task 0 demo_sv2, snd demo_closed)"
    by (rule Turn [where t = "Joined 0"])
      (use demo_sv_closed in \<open>simp_all add: Let_def idle_exit_def join_task_def demo_sv2_def demo_sv1_def set_task_def t\<close>)
  show "(daemon_step demo_serve)\<^sup>*\<^sup>* (demo_sv, snd demo_serving) (join_task 0 demo_sv2, snd demo_closed)"
    by (rule converse_rtranclp_into_rtranclp [where r = "daemon_step demo_serve"], rule 1,
        rule converse_rtranclp_into_rtranclp [where r = "daemon_step demo_serve"], rule 2,
        rule r_into_rtranclp [where r = "daemon_step demo_serve"], rule 3)
  show "rt_tasks (sv_rt (join_task 0 demo_sv2)) = []"
    by (simp add: join_task_def demo_sv2_def demo_sv1_def set_task_def put_task_def t)
qed

section \<open>Properties\<close>



text \<open>
  C37. A daemon that serves without the bus never notices that its shares have ended: as
  soon as one share was spawned at the start, the exit of the supervision loop for the case
  that all share tasks have finished is taken in no reachable state, also when no task is
  left.
\<close>

theorem idle_exit_never_taken:
  assumes "serve_start C dd port sk configs False addr dir w0 = (Inr sv0, w1)" and "rt_shares (sv_rt sv0) \<noteq> []"
    and "(daemon_step C)\<^sup>*\<^sup>* (sv0, w1) (sv, w)"
  shows "\<not> snd (serve_turn (Joined n) sv) \<and> \<not> snd (serve_turn Idle sv)"
proof -
  have "\<not> sv_on_bus sv0 \<and> \<not> sv_register_dbus sv0"
    using assms(1) by (auto simp: serve_start_def io_bind_eq_Inr case_prod_beta)
  then have "rt_shares (sv_rt sv) = rt_shares (sv_rt sv0)"
    using shares_inv.run_good [OF assms(3), of "rt_shares (sv_rt sv0)" False] by simp
  with assms(2) show ?thesis by (simp add: idle_exit_def join_task_def Let_def)
qed

theorem idle_exit_never_taken_witness:
  "rt_tasks (sv_rt (join_task 0 demo_sv2)) = [] \<and> \<not> snd (serve_turn Idle (join_task 0 demo_sv2))"
proof -
  have "rt_shares (sv_rt demo_sv) \<noteq> []" by (simp add: demo_sv_tasks)
  with idle_exit_never_taken [OF demo_serving_ok _ demo_server_run] demo_server_done show ?thesis by blast
qed

end
