(* ===== verification/Tick.thy ===== *)
theory Tick
  imports Commands Content
begin

text \<open>
  Runs without faults do not depend on how many calls went before: the world differs in
  its position in the fault schedule only.  Two ways to do the same work that read
  different files on the way are compared up to that position.
\<close>

section \<open>Worlds up to the position in the fault schedule\<close>

definition same_but_tick :: "world \<Rightarrow> world \<Rightarrow> bool" where
  "same_but_tick w v \<longleftrightarrow> (\<exists>t. v = w\<lparr>w_tick := t\<rparr>)"

lemma same_refl [intro, simp]: "same_but_tick w w"
  unfolding same_but_tick_def by (rule exI [of _ "w_tick w"]) simp

lemma same_sym: "same_but_tick w v \<Longrightarrow> same_but_tick v w"
  unfolding same_but_tick_def by (auto intro: exI [of _ "w_tick w"])

lemma same_trans: "same_but_tick w v \<Longrightarrow> same_but_tick v u \<Longrightarrow> same_but_tick w u"
  by (auto simp: same_but_tick_def)

lemma same_tick [intro, simp]: "same_but_tick w (w\<lparr>w_tick := t\<rparr>)"
  by (auto simp: same_but_tick_def)

lemma same_nodes: "same_but_tick w v \<Longrightarrow> w_nodes v = w_nodes w"
  by (auto simp: same_but_tick_def)

lemma same_fault_free: "same_but_tick w v \<Longrightarrow> fault_free w \<Longrightarrow> fault_free v"
  by (auto simp: same_but_tick_def)

text \<open>An operation whose outcome and effect do not depend on the position, without faults.\<close>

definition tick_blind :: "'a io \<Rightarrow> bool" where
  "tick_blind m \<longleftrightarrow> keeps_faults m \<and> (\<forall>w v. fault_free w \<longrightarrow> same_but_tick w v \<longrightarrow>
     fst (m v) = fst (m w) \<and> same_but_tick (snd (m w)) (snd (m v)))"

lemma tick_blindD:
  assumes "tick_blind m" and "fault_free w" and "same_but_tick w v" and "m w = (r, w')"
  shows "\<exists>v'. m v = (r, v') \<and> same_but_tick w' v' \<and> fault_free w'"
proof -
  have "fst (m v) = fst (m w) \<and> same_but_tick (snd (m w)) (snd (m v))" and "keeps_faults m"
    using assms(1-3) unfolding tick_blind_def by blast+
  with keeps_faults_fault_free [of m w] assms(2,4) show ?thesis
    by (intro exI [of _ "snd (m v)"]) (simp add: prod_eq_iff)
qed

lemma tick_blind_bind [intro]:
  assumes "tick_blind m" and "\<And>x. tick_blind (f x)"
  shows "tick_blind (io_bind m f)"
proof -
  have k: "keeps_faults (io_bind m f)" using assms by (auto simp: tick_blind_def)
  have "fst (io_bind m f v) = fst (io_bind m f w) \<and> same_but_tick (snd (io_bind m f w)) (snd (io_bind m f v))"
    if w: "fault_free w" "same_but_tick w v" for w v
  proof -
    obtain r w1 where m: "m w = (r, w1)" by (metis prod.exhaust)
    from tick_blindD [OF assms(1) w m] obtain v1 where v1: "m v = (r, v1)" "same_but_tick w1 v1" "fault_free w1"
      by blast
    show ?thesis
    proof (cases r)
      case (Inl e)
      with m v1 show ?thesis by simp
    next
      case (Inr x)
      have "fst (f x v1) = fst (f x w1) \<and> same_but_tick (snd (f x w1)) (snd (f x v1))"
        using assms(2) [of x] v1(2,3) unfolding tick_blind_def by blast
      with Inr m v1(1) show ?thesis by simp
    qed
  qed
  with k show ?thesis unfolding tick_blind_def by blast
qed

lemma tick_blind_syscall:
  assumes "keeps_faults (syscall f)" and "\<And>w t. f None (w\<lparr>w_tick := t\<rparr>) = (fst (f None w), (snd (f None w))\<lparr>w_tick := t\<rparr>)"
  shows "tick_blind (syscall f)"
proof -
  have "syscall f v = (fst (f None w), (snd (f None w))\<lparr>w_tick := Suc (w_tick v)\<rparr>)"
    if "fault_free w" "same_but_tick w v" for w v
    using that assms(2) by (auto simp: syscall_def fault_free_def same_but_tick_def)
  from this this [OF _ same_refl] show ?thesis
    using assms(1) by (auto simp: tick_blind_def same_but_tick_def)
qed

lemma nodes_tick: "w\<lparr>w_tick := t, w_nodes := ns\<rparr> = w\<lparr>w_nodes := ns, w_tick := t\<rparr>"
  and rpos_tick: "w\<lparr>w_tick := t, w_rpos := k\<rparr> = w\<lparr>w_rpos := k, w_tick := t\<rparr>"
  by (cases w, simp)+

lemma set_node_tick [simp]: "set_node p n (w\<lparr>w_tick := t\<rparr>) = (set_node p n w)\<lparr>w_tick := t\<rparr>"
  by (simp add: set_node_def nodes_tick)

lemma del_node_tick [simp]: "del_node p (w\<lparr>w_tick := t\<rparr>) = (del_node p w)\<lparr>w_tick := t\<rparr>"
  by (simp add: del_node_def nodes_tick)

lemma put_file_tick [simp]: "put_file p bs (w\<lparr>w_tick := t\<rparr>) = (put_file p bs w)\<lparr>w_tick := t\<rparr>"
  by (simp add: put_file_def split: option.split)

lemma mk_dirs_tick: "mk_dirs q xs (w\<lparr>w_tick := t\<rparr>) = (fst (mk_dirs q xs w), (snd (mk_dirs q xs w))\<lparr>w_tick := t\<rparr>)"
  by (induction q xs w rule: mk_dirs.induct) (auto split: option.split node.split)

lemma tick_blind_simple [intro, simp]:
  "tick_blind (io_return x)" "tick_blind (io_fail e)" "tick_blind (io_lift r)" "tick_blind (fill_bytes n)"
proof -
  have "fill_bytes n (w\<lparr>w_tick := t\<rparr>) = (fst (fill_bytes n w), (snd (fill_bytes n w))\<lparr>w_tick := t\<rparr>)" for w t
    by (simp add: fill_bytes_def rpos_tick)
  then show "tick_blind (fill_bytes n)"
    by (auto simp: tick_blind_def same_but_tick_def)
  show "tick_blind (io_return x)" "tick_blind (io_fail e)" "tick_blind (io_lift r)"
    by (auto simp: tick_blind_def)
qed

lemma tick_blind_calls [intro, simp]:
  "tick_blind (fs_read p)" "tick_blind (fs_write p bs)" "tick_blind (fs_rename a b)" "tick_blind (fs_chmod p m)"
  "tick_blind (fs_create_dir_all p)"
proof -
  show "tick_blind (fs_read p)"
    using keeps_faults_calls(4) [of p] unfolding fs_read_def
    by (intro tick_blind_syscall) (auto split: option.split)
  show "tick_blind (fs_write p bs)"
    using keeps_faults_calls(5) [of p bs] unfolding fs_write_def
    by (intro tick_blind_syscall) auto
  show "tick_blind (fs_rename a b)"
    using keeps_faults_calls(6) [of a b] unfolding fs_rename_def
    by (intro tick_blind_syscall) (auto split: option.split node.split)
  show "tick_blind (fs_chmod p m)"
    using keeps_faults_calls(7) [of p m] unfolding fs_chmod_def
    by (intro tick_blind_syscall) (auto split: option.split node.split)
  show "tick_blind (fs_create_dir_all p)"
    using keeps_faults_calls(8) [of p] unfolding fs_create_dir_all_def
    by (intro tick_blind_syscall) (auto simp: mk_dirs_tick)
qed

lemma fs_exists_tick [simp]: "fs_exists (w\<lparr>w_tick := t\<rparr>) p = fs_exists w p"
  by (simp add: fs_exists_def)

lemma tick_blind_exists [intro]:
  assumes "tick_blind f" and "tick_blind g"
  shows "tick_blind (\<lambda>w. if fs_exists w p then f w else g w)"
  using assms unfolding tick_blind_def by (auto simp: same_but_tick_def keeps_faults_def)

lemma tick_blind_replace [intro, simp]: "tick_blind (fs_replace tmp p bs)"
  unfolding fs_replace_def by (intro tick_blind_bind tick_blind_calls)

section \<open>The operations of a revocation\<close>

lemma tick_blind_save_keyring [intro, simp]: "tick_blind (save_keyring dd sid ring)"
  unfolding save_keyring_def Let_def by (intro tick_blind_bind) auto

lemma tick_blind_load_keyring [intro, simp]: "tick_blind (load_or_create_keyring dd sid)"
proof -
  have "tick_blind (\<lambda>w. load_or_create_keyring dd sid w)"
    unfolding load_or_create_keyring_def Let_def
    by (intro tick_blind_exists tick_blind_bind) (auto simp del: io_fail_eq io_return_eq)
  then show ?thesis by simp
qed

lemma tick_blind_rotate [intro, simp]: "tick_blind (rotate_keyring dd sid)"
  unfolding rotate_keyring_def Let_def by (intro tick_blind_bind) auto

lemma tick_blind_auth_save [intro, simp]: "tick_blind (auth_save C dd sid st)"
  unfolding auth_save_def Let_def by (intro tick_blind_bind) (auto split: option.split)

lemma tick_blind_save_pending [intro, simp]: "tick_blind (save_pending C dd sid rot)"
  unfolding save_pending_def Let_def by (intro tick_blind_bind) (auto split: option.split)

lemma tick_blind_build [intro, simp]: "tick_blind (build_signed_rotation C sk e k rs)"
proof -
  have "tick_blind (seal_envelope C k r)" for r
    unfolding seal_envelope_def by (intro tick_blind_bind) (auto split: option.split)
  then have "tick_blind (seal_envelopes C k rs)" for rs
    by (induction rs) auto
  then show ?thesis unfolding build_signed_rotation_def Let_def by (intro tick_blind_bind) auto
qed

section \<open>Reading\<close>

text \<open>Operations that leave the world as it is but for the position.\<close>

definition quiet :: "'a io \<Rightarrow> bool" where
  "quiet m \<longleftrightarrow> (\<forall>w. same_but_tick w (snd (m w)))"

lemma quietD: "quiet m \<Longrightarrow> m w = (r, w') \<Longrightarrow> same_but_tick w w'"
  by (metis quiet_def snd_conv)

lemma quiet_bind [intro]:
  assumes "quiet m" and "\<And>x. quiet (f x)"
  shows "quiet (io_bind m f)"
  unfolding quiet_def
proof
  fix w
  obtain r w1 where m: "m w = (r, w1)" by (metis prod.exhaust)
  then have "same_but_tick w w1" by (rule quietD [OF assms(1)])
  with m assms(2) show "same_but_tick w (snd (io_bind m f w))"
    by (cases r) (auto simp: quiet_def intro: same_trans)
qed

lemma quiet_calls [intro, simp]:
  "quiet (io_return x)" "quiet (io_fail e)" "quiet (io_lift r)" "quiet (fs_read p)" "quiet (fs_read_dir p)"
  "quiet (fs_file_type p)"
  by (auto simp: quiet_def fs_read_def fs_read_dir_def fs_file_type_def syscall_def split: option.splits node.splits)

lemma quiet_exists [intro]: "quiet f \<Longrightarrow> quiet g \<Longrightarrow> quiet (\<lambda>w. if P w then f w else g w)"
  by (simp add: quiet_def)

lemma quiet_load_all [intro, simp]: "quiet (load_all C dd)"
proof -
  have "quiet (load_all_loop C dir names)" for dir names
  proof (induction names)
    case (Cons n names)
    have "quiet (\<lambda>w. load_all_loop C dir (n # names) w)"
      unfolding load_all_loop.simps Let_def
      by (intro quiet_bind quiet_exists) (auto simp del: io_fail_eq io_return_eq intro: Cons.IH quiet_exists split: option.split)
    then show ?case by simp
  qed (simp add: quiet_def)
  then have "quiet (\<lambda>w. load_all C dd w)"
    unfolding load_all_def Let_def by (intro quiet_exists quiet_bind) (auto simp del: io_return_eq)
  then show ?thesis by simp
qed

lemma quiet_auth_load [intro, simp]: "quiet (auth_load C dd sid)"
proof -
  have "quiet (\<lambda>w. auth_load C dd sid w)"
    unfolding auth_load_def Let_def
    by (intro quiet_exists quiet_bind) (auto simp del: io_fail_eq io_return_eq split: option.split)
  then show ?thesis by simp
qed

lemma tick_blind_identity [intro, simp]: "tick_blind (identity_load_or_create p)"
proof -
  have "tick_blind (\<lambda>w. identity_load_or_create p w)"
    unfolding identity_load_or_create_def
    by (intro tick_blind_exists tick_blind_bind) (auto simp del: io_fail_eq io_return_eq)
  then show ?thesis by simp
qed

lemma if_not_swap: "(if \<not> b then x else y) = (if b then y else x)"
  by simp

lemma tick_blind_auth_load [intro, simp]: "tick_blind (auth_load C dd sid)"
proof -
  have "tick_blind (\<lambda>w. auth_load C dd sid w)"
    unfolding auth_load_def Let_def if_not_swap
    by (intro tick_blind_exists tick_blind_bind) (auto simp del: io_fail_eq io_return_eq split: option.split)
  then show ?thesis by simp
qed

lemma identity_quiet:
  "fs_exists w p \<Longrightarrow> identity_load_or_create p w = (r, w') \<Longrightarrow> same_but_tick w w'"
proof -
  assume "fs_exists w p" "identity_load_or_create p w = (r, w')"
  then have "io_bind (fs_read p) (\<lambda>raw_key. if length raw_key \<noteq> PRIVATE_KEY_LEN
      then io_fail (Bail ''identity.key has wrong length'' [length raw_key, PRIVATE_KEY_LEN])
      else io_return raw_key) w = (r, w')" by (simp add: identity_load_or_create_def)
  moreover have "quiet (io_bind (fs_read p) (\<lambda>raw_key. if length raw_key \<noteq> PRIVATE_KEY_LEN
      then io_fail (Bail ''identity.key has wrong length'' [length raw_key, PRIVATE_KEY_LEN])
      else io_return raw_key))" by (intro quiet_bind) (auto simp del: io_fail_eq io_return_eq)
  ultimately show ?thesis using quietD by blast
qed

end
