(* ===== verification/Cli.thy ===== *)
theory Cli
  imports Daemon Tick
begin

text \<open>
  \<^verbatim>\<open>src/main.rs\<close> and \<^verbatim>\<open>src/client.rs\<close>: the command line.  With a data directory given a command
  works on the files itself, otherwise it asks the daemon over the bus.  What a command
  prints is a list of lines, each the list of the values it shows; column widths and fixed
  words are left out.  The bus is a state of its own: absent, without a daemon, or
  connected to a running one.
\<close>

section \<open>Printing\<close>

type_synonym lines = "string list list"

definition ellipsis :: string where
  "ellipsis = [CHR 0xE2, CHR 0x80, CHR 0xA6]"

text \<open>\<open>truncate\<close> slices by bytes, so it panics inside a character.\<close>

definition truncate_str :: "string \<Rightarrow> nat \<Rightarrow> string result" where
  "truncate_str s max_len =
     (if length s \<le> max_len then Inr s
      else case str_slice s 0 (max_len - 1) of Inl e \<Rightarrow> Inl e | Inr t \<Rightarrow> Inr (t @ ellipsis))"

fun map_ok :: "('a \<Rightarrow> 'b result) \<Rightarrow> 'a list \<Rightarrow> 'b list result" where
  "map_ok f [] = Inr []"
| "map_ok f (x # xs) = (case f x of
     Inl e \<Rightarrow> Inl e
   | Inr y \<Rightarrow> (case map_ok f xs of Inl e \<Rightarrow> Inl e | Inr ys \<Rightarrow> Inr (y # ys)))"

definition marker :: "'a option \<Rightarrow> 'a \<Rightarrow> string" where
  "marker me peer = (if me = Some peer then ''(self)'' else '''')"

text \<open>\<open>.ok()\<close>: the effects stay, an error becomes \<open>None\<close>.\<close>

definition io_ok :: "'a io \<Rightarrow> 'a option io" where
  "io_ok m w = (case m w of (Inl _, w') \<Rightarrow> (Inr None, w') | (Inr x, w') \<Rightarrow> (Inr (Some x), w'))"

definition has_share :: "share_config list \<Rightarrow> string \<Rightarrow> bool" where
  "has_share configs share_id = list_ex (\<lambda>c. sc_id c = share_id) configs"

section \<open>Commands on the files\<close>

definition cmd_share_add_direct ::
  "('c, 'z) ipc_crates_scheme \<Rightarrow> path \<Rightarrow> string \<Rightarrow> string \<Rightarrow> share_role \<Rightarrow> lines io" where
  "cmd_share_add_direct C data_dir topic path_arg role =
     io_bind (io_lift (absolute_path C path_arg)) (\<lambda>path.
     io_bind (\<lambda>w. if role = Seed \<and> \<not> fs_exists w path
       then io_fail (Bail ''seed path does not exist'' []) w else io_return () w) (\<lambda>_.
     io_bind (config_new C topic path role) (\<lambda>config.
     io_bind (config_save C config data_dir) (\<lambda>_.
     io_bind (identity_load_or_create (identity_path data_dir)) (\<lambda>identity.
     io_bind (io_lift (case create_group C (auth_empty C) identity (group_id_for C (sc_id config)) of
       (Inl e, _) \<Rightarrow> Inl e | (Inr _, auth_state) \<Rightarrow> Inr auth_state)) (\<lambda>auth_state.
     io_bind (auth_save C data_dir (sc_id config) auth_state) (\<lambda>_.
     io_return [[sc_id config, sc_topic config], [bytes_hex (pub_of C identity)]])))))))"

definition share_line :: "share_config \<Rightarrow> string list result" where
  "share_line c = (case truncate_str (sc_topic c) 20 of
     Inl e \<Rightarrow> Inl e
   | Inr topic \<Rightarrow> Inr [sc_id c, role_str (sc_role c), topic, display_path (sc_root_path c)])"

definition cmd_share_list_direct :: "('c, 'z) ipc_crates_scheme \<Rightarrow> path \<Rightarrow> lines io" where
  "cmd_share_list_direct C data_dir =
     io_bind (load_all C data_dir) (\<lambda>configs.
     if configs = [] then io_return [[display_path data_dir]]
     else io_lift (map_ok share_line configs))"

definition cmd_share_rotate_key_direct :: "('c, 'z) ipc_crates_scheme \<Rightarrow> path \<Rightarrow> string \<Rightarrow> lines io" where
  "cmd_share_rotate_key_direct C data_dir share_id =
     io_bind (load_all C data_dir) (\<lambda>configs.
     if \<not> has_share configs share_id then io_fail (Bail ''share not found'' [])
     else
       io_bind (rotate_keyring data_dir share_id) (\<lambda>new_epoch.
       io_return [[share_id, show_nat (unat new_epoch)]]))"

definition cmd_share_peers_direct :: "('c, 'z) ipc_crates_scheme \<Rightarrow> path \<Rightarrow> string \<Rightarrow> lines io" where
  "cmd_share_peers_direct C data_dir share_id =
     io_bind (load_all C data_dir) (\<lambda>configs.
     if \<not> has_share configs share_id then io_fail (Bail ''share not found'' [])
     else
       io_bind (io_ok (identity_load_or_create (identity_path data_dir))) (\<lambda>key.
       let me = map_option (\<lambda>k. bytes_hex (pub_of C k)) key in
       io_bind (state_load C data_dir share_id) (\<lambda>state.
       case state of
         None \<Rightarrow> io_return [[share_id]]
       | Some s \<Rightarrow> io_return (map (\<lambda>(peer, ctr). [peer, show_nat (unat ctr), marker me peer])
           (sort_peers (ps_clock s))))))"

definition cmd_share_members_direct :: "('c, 'z) ipc_crates_scheme \<Rightarrow> path \<Rightarrow> string \<Rightarrow> lines io" where
  "cmd_share_members_direct C data_dir share_id =
     io_bind (load_all C data_dir) (\<lambda>configs.
     if \<not> has_share configs share_id then io_fail (Bail ''share not found'' [])
     else
       io_bind (auth_load C data_dir share_id) (\<lambda>auth_state.
       if auth_is_empty auth_state then io_return [[share_id]]
       else
         io_bind (io_ok (identity_load_or_create (identity_path data_dir))) (\<lambda>key.
         let me = map_option (\<lambda>k. MemberId (pub_of C k)) key in
         io_return (map (\<lambda>(m, role). [member_to_hex m, auth_role_display role, marker me m])
           (sort_key fst (members C auth_state (group_id_for C share_id)))))))"

definition cmd_share_revoke_direct ::
  "('c, 'z) ipc_crates_scheme \<Rightarrow> path \<Rightarrow> string \<Rightarrow> string \<Rightarrow> lines io" where
  "cmd_share_revoke_direct C data_dir share_id peer_pubkey_hex =
     io_bind (load_all C data_dir) (\<lambda>configs.
     if \<not> has_share configs share_id then io_fail (Bail ''share not found'' [])
     else
       io_bind (io_lift (from_hex peer_pubkey_hex)) (\<lambda>target.
       io_bind (identity_load_or_create (identity_path data_dir)) (\<lambda>identity.
       let group_id = group_id_for C share_id in
       io_bind (auth_load C data_dir share_id) (\<lambda>auth_state.
       if auth_is_empty auth_state then io_fail (Bail ''share has no auth state on disk'' [])
       else if \<not> is_member C auth_state group_id target then io_fail (Bail ''not a current member'' [])
       else
         (case remove_member C auth_state identity group_id target of
            (Inl e, _) \<Rightarrow> io_fail e
          | (Inr _, auth_state) \<Rightarrow>
              io_bind (auth_save C data_dir share_id auth_state) (\<lambda>_.
              let remaining = remaining_members C auth_state group_id target in
              io_bind (rotate_keyring data_dir share_id) (\<lambda>new_epoch.
              io_bind (load_or_create_keyring data_dir share_id) (\<lambda>ring.
              case key_for_epoch ring new_epoch of
                None \<Rightarrow> io_fail (Bail ''rotated keyring missing epoch'' [unat new_epoch])
              | Some new_key \<Rightarrow>
                  io_bind (build_signed_rotation C identity new_epoch new_key remaining) (\<lambda>rotation_msg.
                  io_bind (save_pending C data_dir share_id rotation_msg) (\<lambda>_.
                  io_return [[peer_pubkey_hex, share_id], [show_nat (unat new_epoch)],
                    [show_nat (length remaining)]]))))))))))"

definition cmd_whoami_direct :: "('c, 'z) ipc_crates_scheme \<Rightarrow> path \<Rightarrow> lines io" where
  "cmd_whoami_direct C data_dir =
     io_bind (fs_create_dir_all data_dir) (\<lambda>_.
     io_bind (identity_load_or_create (identity_path data_dir)) (\<lambda>identity.
     io_return [[bytes_hex (pub_of C identity)]]))"

definition cmd_share_invite_direct ::
  "('c, 'z) ipc_crates_scheme \<Rightarrow> path \<Rightarrow> string \<Rightarrow> string \<Rightarrow> share_role \<Rightarrow> auth_role \<Rightarrow> lines io" where
  "cmd_share_invite_direct C data_dir share_id invitee_pubkey_hex role auth_role =
     io_bind (load_all C data_dir) (\<lambda>configs.
     case List.find (\<lambda>c. sc_id c = share_id) configs of
       None \<Rightarrow> io_fail (Bail ''share not found'' [])
     | Some cfg \<Rightarrow>
         io_bind (io_lift (from_hex invitee_pubkey_hex)) (\<lambda>invitee.
         io_bind (identity_load_or_create (identity_path data_dir)) (\<lambda>identity.
         let group_id = group_id_for C share_id in
         io_bind (auth_load C data_dir share_id) (\<lambda>auth_state.
         if auth_is_empty auth_state
         then io_fail (Bail ''share has no auth state on disk; can only invite from the creator's machine'' [])
         else if is_member C auth_state group_id invitee then io_fail (Bail ''already a member'' [])
         else
           (case add_member C auth_state identity group_id invitee auth_role of
              (Inl e, _) \<Rightarrow> io_fail e
            | (Inr _, auth_state) \<Rightarrow>
                io_bind (auth_save C data_dir share_id auth_state) (\<lambda>_.
                io_bind (load_or_create_keyring data_dir share_id) (\<lambda>ring.
                io_bind (io_lift (ticket_encode C
                  \<lparr>tk_version = TICKET_VERSION, tk_share_id = sc_id cfg, tk_topic = sc_topic cfg,
                   tk_keys = export_keys ring, tk_auth_log = as_ops auth_state,
                   tk_invitee_pubkey = member_bytes invitee, tk_role = role\<rparr>)) (\<lambda>encoded.
                io_return [[encoded]]))))))))"

definition cmd_share_join_direct ::
  "('c, 'z) ipc_crates_scheme \<Rightarrow> path \<Rightarrow> string \<Rightarrow> string \<Rightarrow> lines io" where
  "cmd_share_join_direct C data_dir ticket_arg path_arg =
     io_bind (io_lift (ticket_decode C ticket_arg)) (\<lambda>t.
     io_bind (load_all C data_dir) (\<lambda>configs.
     if has_share configs (tk_share_id t) then io_fail (Bail ''share is already configured locally'' [])
     else
       io_bind (identity_load_or_create (identity_path data_dir)) (\<lambda>identity.
       let me = pub_of C identity in
       if tk_invitee_pubkey t \<noteq> me then io_fail (Bail ''ticket was issued for a different public key'' [])
       else
         io_bind (io_lift (absolute_path C path_arg)) (\<lambda>path.
         io_bind (import_ticket C data_dir me t path) (\<lambda>cfg.
         io_return [[sc_id cfg, sc_topic cfg, display_path (sc_root_path cfg)]])))))"

definition cmd_share_remove_direct :: "('c, 'z) ipc_crates_scheme \<Rightarrow> path \<Rightarrow> string \<Rightarrow> lines io" where
  "cmd_share_remove_direct C data_dir share_id =
     io_bind (load_all C data_dir) (\<lambda>configs.
     io_bind (remove_share data_dir share_id) (\<lambda>_.
     io_bind (remove_shadow (root_of configs share_id)) (\<lambda>_.
     io_return [[share_id]])))"

section \<open>The client of the bus\<close>

text \<open>The errors of a method call that the client tells apart.\<close>

datatype bus_error = ServiceUnknown | SpawnFailed | Failed err | OtherError

text \<open>A running daemon has its own working directory.\<close>

datatype 'c bus = NoSessionBus | Unreachable bus_error | Serving "path option" "'c runtime"

definition map_call_err :: "bus_error \<Rightarrow> err" where
  "map_call_err e = (case e of
     ServiceUnknown \<Rightarrow> Bail ''rust-peerdup daemon is not registered with the session bus'' []
   | SpawnFailed \<Rightarrow> Bail ''session bus tried to activate rust-peerdup but the unit failed'' []
   | _ \<Rightarrow> Bail ''D-Bus call failed'' [])"

definition client_connect :: "('c bus, unit) task_io" where
  "client_connect bus = (case bus of
     NoSessionBus \<Rightarrow> t_fail (Bail ''no D-Bus session bus available'' []) bus
   | _ \<Rightarrow> t_return () bus)"

definition client_call :: "('c, 'z) ipc_crates_scheme \<Rightarrow> request \<Rightarrow> ('c bus, response) task_io" where
  "client_call C req bus w = (case bus of
     NoSessionBus \<Rightarrow> ((Inl (map_call_err OtherError), bus), w)
   | Unreachable e \<Rightarrow> ((Inl (map_call_err e), bus), w)
   | Serving d rt \<Rightarrow> (case dispatch (C\<lparr>current_dir := d\<rparr>) req rt w of
       ((Inl e, rt'), w') \<Rightarrow> ((Inl (map_call_err (Failed e)), Serving d rt'), w')
     | ((Inr r, rt'), w') \<Rightarrow> ((Inr r, Serving d rt'), w')))"

text \<open>A call and the value its signature promises.\<close>

fun as_string :: "response \<Rightarrow> string result" where
  "as_string (RString s) = Inr s"
| "as_string _ = Inl (map_call_err OtherError)"

fun as_epoch :: "response \<Rightarrow> u64 result" where
  "as_epoch (REpoch e) = Inr e"
| "as_epoch _ = Inl (map_call_err OtherError)"

fun as_shares :: "response \<Rightarrow> share_row list result" where
  "as_shares (RShares r) = Inr r"
| "as_shares _ = Inl (map_call_err OtherError)"

fun as_members :: "response \<Rightarrow> (string \<times> string) list result" where
  "as_members (RMembers r) = Inr r"
| "as_members _ = Inl (map_call_err OtherError)"

fun as_peers :: "response \<Rightarrow> (string \<times> u64) list result" where
  "as_peers (RPeers r) = Inr r"
| "as_peers _ = Inl (map_call_err OtherError)"

definition client ::
  "('c, 'z) ipc_crates_scheme \<Rightarrow> (response \<Rightarrow> 'a result) \<Rightarrow> request \<Rightarrow> ('c bus, 'a) task_io" where
  "client C f req = t_bind (client_call C req) (\<lambda>r. t_lift (f r))"

definition t_ok :: "('s, 'a) task_io \<Rightarrow> ('s, 'a option) task_io" where
  "t_ok m s w = (case m s w of
     ((Inl _, s'), w') \<Rightarrow> ((Inr None, s'), w') | ((Inr x, s'), w') \<Rightarrow> ((Inr (Some x), s'), w'))"

section \<open>Commands over the bus\<close>

definition cmd_share_add ::
  "('c, 'z) ipc_crates_scheme \<Rightarrow> string \<Rightarrow> string \<Rightarrow> share_role \<Rightarrow> ('c bus, lines) task_io" where
  "cmd_share_add C topic path_arg role =
     t_bind (t_lift (absolute_path C path_arg)) (\<lambda>path.
     t_bind (t_io (\<lambda>_ w. if role = Seed \<and> \<not> fs_exists w path
       then io_fail (Bail ''seed path does not exist'' []) w else io_return () w)) (\<lambda>_.
     t_bind client_connect (\<lambda>_.
     t_bind (client C as_string (ShareAdd topic (display_path path) (role_str role))) (\<lambda>share_id.
     t_return [[share_id, topic]]))))"

definition share_row_line :: "share_row \<Rightarrow> string list result" where
  "share_row_line r = (case r of (share_id, topic, path, role, _) \<Rightarrow>
     (case truncate_str topic 20 of Inl e \<Rightarrow> Inl e | Inr t \<Rightarrow> Inr [share_id, role, t, path]))"

definition cmd_share_list :: "('c, 'z) ipc_crates_scheme \<Rightarrow> ('c bus, lines) task_io" where
  "cmd_share_list C =
     t_bind client_connect (\<lambda>_.
     t_bind (client C as_shares ShareList) (\<lambda>shares.
     if shares = [] then t_return [[]] else t_lift (map_ok share_row_line shares)))"

definition cmd_share_rotate_key :: "('c, 'z) ipc_crates_scheme \<Rightarrow> string \<Rightarrow> ('c bus, lines) task_io" where
  "cmd_share_rotate_key C share_id =
     t_bind client_connect (\<lambda>_.
     t_bind (client C as_epoch (ShareRotateKey share_id)) (\<lambda>new_epoch.
     t_return [[share_id, show_nat (unat new_epoch)]]))"

definition cmd_share_peers :: "('c, 'z) ipc_crates_scheme \<Rightarrow> string \<Rightarrow> ('c bus, lines) task_io" where
  "cmd_share_peers C share_id =
     t_bind client_connect (\<lambda>_.
     t_bind (t_ok (client C as_string Whoami)) (\<lambda>me.
     t_bind (client C as_peers (SharePeers share_id)) (\<lambda>peers.
     if peers = [] then t_return [[share_id]]
     else t_return (map (\<lambda>(peer, ctr). [peer, show_nat (unat ctr), marker me peer]) peers))))"

definition cmd_share_members :: "('c, 'z) ipc_crates_scheme \<Rightarrow> string \<Rightarrow> ('c bus, lines) task_io" where
  "cmd_share_members C share_id =
     t_bind client_connect (\<lambda>_.
     t_bind (t_ok (client C as_string Whoami)) (\<lambda>me.
     t_bind (client C as_members (ShareMembers share_id)) (\<lambda>ms.
     if ms = [] then t_return [[share_id]]
     else t_return (map (\<lambda>(pubkey, role). [pubkey, role, marker me pubkey]) ms))))"

definition cmd_share_revoke :: "('c, 'z) ipc_crates_scheme \<Rightarrow> string \<Rightarrow> string \<Rightarrow> ('c bus, lines) task_io" where
  "cmd_share_revoke C share_id peer_pubkey_hex =
     t_bind client_connect (\<lambda>_.
     t_bind (client C as_epoch (ShareRevoke share_id peer_pubkey_hex)) (\<lambda>new_epoch.
     t_return [[peer_pubkey_hex, share_id], [show_nat (unat new_epoch)]]))"

definition cmd_whoami :: "('c, 'z) ipc_crates_scheme \<Rightarrow> ('c bus, lines) task_io" where
  "cmd_whoami C =
     t_bind client_connect (\<lambda>_.
     t_bind (client C as_string Whoami) (\<lambda>pubkey. t_return [[pubkey]]))"

definition cmd_share_invite ::
  "('c, 'z) ipc_crates_scheme \<Rightarrow> string \<Rightarrow> string \<Rightarrow> share_role \<Rightarrow> auth_role \<Rightarrow> ('c bus, lines) task_io" where
  "cmd_share_invite C share_id invitee_pubkey_hex role auth_role =
     t_bind client_connect (\<lambda>_.
     t_bind (client C as_string (ShareInvite share_id invitee_pubkey_hex (role_str role) (auth_role_display auth_role)))
       (\<lambda>t. t_return [[t]]))"

definition cmd_share_join :: "('c, 'z) ipc_crates_scheme \<Rightarrow> string \<Rightarrow> string \<Rightarrow> ('c bus, lines) task_io" where
  "cmd_share_join C ticket_arg path_arg =
     t_bind (t_lift (absolute_path C path_arg)) (\<lambda>path.
     t_bind client_connect (\<lambda>_.
     t_bind (client C as_string (ShareJoin ticket_arg (display_path path))) (\<lambda>share_id.
     t_return [[share_id, display_path path]])))"

definition cmd_share_remove :: "('c, 'z) ipc_crates_scheme \<Rightarrow> string \<Rightarrow> ('c bus, lines) task_io" where
  "cmd_share_remove C share_id =
     t_bind client_connect (\<lambda>_.
     t_bind (client C (\<lambda>_. Inr ()) (ShareRemove share_id)) (\<lambda>_. t_return [[share_id]]))"

section \<open>The program\<close>

text \<open>
  \<open>serve\<close> up to the supervision loop.  The lock file stays open until the loop returns;
  \<open>lock_held\<close> is what another process says of it.
\<close>

definition cmd_serve ::
  "('c, 'z) serve_crates_scheme \<Rightarrow> path \<Rightarrow> 16 word \<Rightarrow> bool \<Rightarrow> bool \<Rightarrow> bool \<Rightarrow> path option \<Rightarrow> 'c server io" where
  "cmd_serve C data_dir bt_port register_dbus lock_held bus_address runtime_dir =
     io_bind (fs_create_dir_all data_dir) (\<lambda>_.
     io_bind (acquire lock_held (lock_path data_dir)) (\<lambda>_.
     io_bind (identity_load_or_create (identity_path data_dir)) (\<lambda>identity.
     io_bind (load_all C data_dir) (\<lambda>configs.
     serve_start C data_dir bt_port identity configs register_dbus bus_address runtime_dir))))"

datatype cmd =
    CmdShareAdd string string share_role
  | CmdShareList
  | CmdShareRemove string
  | CmdShareRotateKey string
  | CmdShareInvite string string share_role auth_role
  | CmdShareJoin string string
  | CmdSharePeers string
  | CmdShareMembers string
  | CmdShareRevoke string string
  | CmdWhoami

fun run_direct :: "('c, 'z) ipc_crates_scheme \<Rightarrow> path \<Rightarrow> cmd \<Rightarrow> lines io" where
  "run_direct C dd (CmdShareAdd topic path role) = cmd_share_add_direct C dd topic path role"
| "run_direct C dd CmdShareList = cmd_share_list_direct C dd"
| "run_direct C dd (CmdShareRemove i) = cmd_share_remove_direct C dd i"
| "run_direct C dd (CmdShareRotateKey i) = cmd_share_rotate_key_direct C dd i"
| "run_direct C dd (CmdShareInvite i key role auth_role) = cmd_share_invite_direct C dd i key role auth_role"
| "run_direct C dd (CmdShareJoin t path) = cmd_share_join_direct C dd t path"
| "run_direct C dd (CmdSharePeers i) = cmd_share_peers_direct C dd i"
| "run_direct C dd (CmdShareMembers i) = cmd_share_members_direct C dd i"
| "run_direct C dd (CmdShareRevoke i key) = cmd_share_revoke_direct C dd i key"
| "run_direct C dd CmdWhoami = cmd_whoami_direct C dd"

fun run_bus :: "('c, 'z) ipc_crates_scheme \<Rightarrow> cmd \<Rightarrow> ('c bus, lines) task_io" where
  "run_bus C (CmdShareAdd topic path role) = cmd_share_add C topic path role"
| "run_bus C CmdShareList = cmd_share_list C"
| "run_bus C (CmdShareRemove i) = cmd_share_remove C i"
| "run_bus C (CmdShareRotateKey i) = cmd_share_rotate_key C i"
| "run_bus C (CmdShareInvite i key role auth_role) = cmd_share_invite C i key role auth_role"
| "run_bus C (CmdShareJoin t path) = cmd_share_join C t path"
| "run_bus C (CmdSharePeers i) = cmd_share_peers C i"
| "run_bus C (CmdShareMembers i) = cmd_share_members C i"
| "run_bus C (CmdShareRevoke i key) = cmd_share_revoke C i key"
| "run_bus C CmdWhoami = cmd_whoami C"

text \<open>\<open>main\<close> for the client commands: the data directory decides the route.\<close>

definition main_client ::
  "('c, 'z) ipc_crates_scheme \<Rightarrow> path option \<Rightarrow> cmd \<Rightarrow> ('c bus, lines) task_io" where
  "main_client C direct_dir c = (case direct_dir of
     Some dd \<Rightarrow> t_io (\<lambda>_. run_direct C dd c)
   | None \<Rightarrow> run_bus C c)"

definition main_serve ::
  "('c, 'z) serve_crates_scheme \<Rightarrow> path option \<Rightarrow> path option \<Rightarrow> 16 word \<Rightarrow> bool \<Rightarrow> bool \<Rightarrow> bool \<Rightarrow> path option \<Rightarrow>
   'c server io" where
  "main_serve C project_dirs direct_dir bt_port no_dbus lock_held bus_address runtime_dir =
     io_bind (io_lift (resolve project_dirs direct_dir)) (\<lambda>data_dir.
     cmd_serve C data_dir bt_port (\<not> no_dbus) lock_held bus_address runtime_dir)"

section \<open>The same work by two routes\<close>

text \<open>Two operations that end alike, up to the value returned, without faults.\<close>

definition outcome :: "'a result \<Rightarrow> err option" where
  "outcome r = (case r of Inl e \<Rightarrow> Some e | Inr _ \<Rightarrow> None)"

definition agree :: "'a io \<Rightarrow> 'b io \<Rightarrow> bool" where
  "agree m m' \<longleftrightarrow> (\<forall>w v. fault_free w \<longrightarrow> same_but_tick w v \<longrightarrow>
     outcome (fst (m w)) = outcome (fst (m' v)) \<and> same_but_tick (snd (m w)) (snd (m' v)))"

lemma agree_simple [intro, simp]: "agree (io_fail e) (io_fail e)" "agree (io_return x) (io_return y)"
  by (simp_all add: agree_def outcome_def)

lemma agree_bind:
  assumes "tick_blind m" and "\<And>x. agree (f x) (g x)"
  shows "agree (io_bind m f) (io_bind m g)"
  unfolding agree_def
proof (intro allI impI)
  fix w v
  assume w: "fault_free w" "same_but_tick w v"
  obtain r w1 where m: "m w = (r, w1)" by (metis prod.exhaust)
  from tick_blindD [OF assms(1) w m] obtain v1 where v1: "m v = (r, v1)" "same_but_tick w1 v1" "fault_free w1" by blast
  show "outcome (fst (io_bind m f w)) = outcome (fst (io_bind m g v)) \<and>
      same_but_tick (snd (io_bind m f w)) (snd (io_bind m g v))"
  proof (cases r)
    case (Inl e)
    with m v1 show ?thesis by (simp add: outcome_def)
  next
    case (Inr x)
    with assms(2) [of x] m v1 show ?thesis by (simp add: agree_def)
  qed
qed

text \<open>Loading the keyring a second time changes nothing.\<close>

lemma load_again:
  assumes "load_or_create_keyring dd sid w = (Inr ring, w1)" and "fault_free w1"
  shows "load_or_create_keyring dd sid w1 = (Inr ring, w1\<lparr>w_tick := Suc (w_tick w1)\<rparr>)"
proof -
  obtain raw where raw: "fs_file w1 (keys_path dd sid) = Some raw" "parse_keys raw = Some (kr_keys ring)"
    using load_ok(1) [OF assms(1)] by (auto simp: disk_keys_def bind_eq_Some_conv)
  have "fs_exists w1 (keys_path dd sid)" by (rule disk_keys_exists [OF load_ok(1) [OF assms(1)]])
  then show ?thesis
    using raw fs_read_progress [OF assms(2) raw(1)]
    by (auto simp: load_or_create_keyring_def parse_keys_def split: if_splits)
qed

lemma agree_load_twice:
  assumes "\<And>ring k. agree (f ring k) (g ring k)"
  shows "agree
    (io_bind (load_or_create_keyring dd sid) (\<lambda>ring. case c ring of None \<Rightarrow> io_fail e | Some k \<Rightarrow> f ring k))
    (io_bind (load_or_create_keyring dd sid) (\<lambda>ring. case c ring of None \<Rightarrow> io_fail e | Some k \<Rightarrow>
       io_bind (load_or_create_keyring dd sid) (\<lambda>fresh. g fresh k)))"
  unfolding agree_def
proof (intro allI impI)
  fix w v
  let ?l = "load_or_create_keyring dd sid"
  let ?m = "io_bind ?l (\<lambda>ring. case c ring of None \<Rightarrow> io_fail e | Some k \<Rightarrow> f ring k)"
  let ?n = "io_bind ?l (\<lambda>ring. case c ring of None \<Rightarrow> io_fail e | Some k \<Rightarrow> io_bind ?l (\<lambda>fresh. g fresh k))"
  assume w: "fault_free w" "same_but_tick w v"
  obtain r w1 where m: "?l w = (r, w1)" by (metis prod.exhaust)
  from tick_blindD [OF tick_blind_load_keyring w m] obtain v1 where
    v1: "?l v = (r, v1)" "same_but_tick w1 v1" "fault_free w1" by blast
  show "outcome (fst (?m w)) = outcome (fst (?n v)) \<and> same_but_tick (snd (?m w)) (snd (?n v))"
  proof (cases r)
    case (Inl e)
    with m v1 show ?thesis by (simp add: outcome_def)
  next
    case (Inr ring)
    show ?thesis
    proof (cases "c ring")
      case None
      with Inr m v1 show ?thesis by (simp add: outcome_def)
    next
      case (Some k)
      have again: "?l v1 = (Inr ring, v1\<lparr>w_tick := Suc (w_tick v1)\<rparr>)"
        using v1 Inr by (intro load_again) (auto intro: same_fault_free)
      have "same_but_tick w1 (v1\<lparr>w_tick := Suc (w_tick v1)\<rparr>)" using same_trans [OF v1(2) same_tick] .
      with assms [of ring k] v1(3) Some Inr m v1(1) again show ?thesis by (simp add: agree_def)
    qed
  qed
qed

text \<open>A handler of a task as an operation on the files alone.\<close>

definition t_run :: "('s, 'a) task_io \<Rightarrow> 's \<Rightarrow> 'a io" where
  "t_run m s w = (case m s w of ((r, _), w') \<Rightarrow> (r, w'))"

lemma t_run_simps:
  "t_run (t_bind (t_io m) f) s = io_bind (m s) (\<lambda>x. t_run (f x) s)"
  "t_run (t_bind (t_state h) f) s = (case h s of (Inl e, _) \<Rightarrow> io_fail e | (Inr x, s') \<Rightarrow> t_run (f x) s')"
  "t_run (t_return x) s = io_return x" "t_run (t_fail e) s = io_fail e"
  by (auto simp: t_run_def t_bind_def t_io_def t_state_def t_return_def t_fail_def io_bind_def io_return_def io_fail_def
      fun_eq_iff split: prod.split sum.split)

lemma t_run_revoke:
  fixes C :: "('c, 'z) daemon_crates_scheme" and config :: share_config
  defines "sid \<equiv> sc_id config"
  shows "t_run (handle_revoke C config dd sk target) s =
    (if auth_is_empty (ta_auth s) then io_fail (Bail ''share has no auth state on disk'' [])
     else if \<not> is_member C (ta_auth s) (group_id_for C sid) target then io_fail (Bail ''not a current member'' [])
     else case remove_member C (ta_auth s) sk (group_id_for C sid) target of
       (Inl e, _) \<Rightarrow> io_fail e
     | (Inr _, st) \<Rightarrow>
         io_bind (auth_save C dd sid st) (\<lambda>_.
         io_bind (rotate_keyring dd sid) (\<lambda>e.
         io_bind (load_or_create_keyring dd sid) (\<lambda>ring.
         case key_for_epoch ring e of
           None \<Rightarrow> io_fail (Bail ''rotated keyring missing epoch'' [unat e])
         | Some k \<Rightarrow>
             io_bind (load_or_create_keyring dd sid) (\<lambda>_.
             io_bind (build_signed_rotation C sk e k (remaining_members C st (group_id_for C sid) target)) (\<lambda>rot.
             io_bind (save_pending C dd sid rot) (\<lambda>_.
             io_return e)))))))"
proof -
  have read: "t_run (\<lambda>s. t_bind A (B s) s) s = t_run (t_bind A (B s)) s"
    for A :: "('c task, 'x) task_io" and B :: "'c task \<Rightarrow> 'x \<Rightarrow> ('c task, u64) task_io" and s
    by (simp add: t_run_def fun_eq_iff)
  have same: "t_run m s = t_run m' s" if "m s = m' s" for m m' :: "('c task, u64) task_io"
    using that by (simp add: t_run_def fun_eq_iff)
  have opt: "t_run (case x of None \<Rightarrow> m | Some k \<Rightarrow> f k) s = (case x of None \<Rightarrow> t_run m s | Some k \<Rightarrow> t_run (f k) s)"
    for x :: "key option" and m :: "('c task, u64) task_io" and f s by (simp split: option.split)
  show ?thesis
  proof (cases "auth_is_empty (ta_auth s) \<or> \<not> is_member C (ta_auth s) (group_id_for C sid) target")
    case True
    then show ?thesis by (auto simp: handle_revoke_def sid_def Let_def t_run_def fun_eq_iff)
  next
    case False
    let ?tail = "\<lambda>_ s. t_bind (t_io (\<lambda>_. rotate_keyring dd sid)) (\<lambda>new_epoch.
        t_bind (t_io (\<lambda>_. load_or_create_keyring dd sid)) (\<lambda>ring.
        case key_for_epoch ring new_epoch of
          None \<Rightarrow> t_fail (Bail ''rotated keyring missing epoch'' [unat new_epoch])
        | Some new_key_bytes \<Rightarrow>
            t_bind (t_io (\<lambda>_. load_or_create_keyring dd sid)) (\<lambda>fresh_ring.
            t_bind (set_key fresh_ring) (\<lambda>_.
            t_bind (t_io (\<lambda>_. build_signed_rotation C sk new_epoch new_key_bytes
              (remaining_members C (ta_auth s) (group_id_for C sid) target))) (\<lambda>rotation_msg.
            t_bind (t_io (\<lambda>_. save_pending C dd sid rotation_msg)) (\<lambda>_.
            t_bind (t_state (\<lambda>s. (Inr (), s\<lparr>ta_pending := ta_pending s @ [rotation_msg]\<rparr>))) (\<lambda>_.
            t_return new_epoch))))))) s"
    have tail: "t_run (?tail x) t = io_bind (rotate_keyring dd sid) (\<lambda>e.
         io_bind (load_or_create_keyring dd sid) (\<lambda>ring.
         case key_for_epoch ring e of
           None \<Rightarrow> io_fail (Bail ''rotated keyring missing epoch'' [unat e])
         | Some k \<Rightarrow>
             io_bind (load_or_create_keyring dd sid) (\<lambda>_.
             io_bind (build_signed_rotation C sk e k (remaining_members C (ta_auth t) (group_id_for C sid) target)) (\<lambda>rot.
             io_bind (save_pending C dd sid rot) (\<lambda>_.
             io_return e)))))" for x t
      by (subst read) (simp add: t_run_simps set_key_def opt cong: option.case_cong)
    have "t_run (handle_revoke C config dd sk target) s =
        t_run (t_bind (on_auth (\<lambda>st. remove_member C st sk (group_id_for C sid) target)) (\<lambda>_.
          t_bind (t_io (\<lambda>s. auth_save C dd sid (ta_auth s))) ?tail)) s"
      unfolding sid_def by (rule same) (use False [unfolded sid_def] in \<open>simp add: handle_revoke_def Let_def\<close>)
    moreover obtain r st where rm: "remove_member C (ta_auth s) sk (group_id_for C sid) target = (r, st)"
      by (metis prod.exhaust)
    ultimately show ?thesis
      using False by (cases r) (simp_all add: t_run_simps on_auth_def tail cong: option.case_cong)
  qed
qed

section \<open>Properties\<close>

text \<open>
  C16. Revoking a member without the daemon does what the daemon does: when no call fails by
  itself and the task's group state is the stored one, the command with a data directory
  and the command sent to the running task have the same outcome, error or success, and
  leave the same files.
\<close>

theorem direct_revoke_matches_daemon:
  assumes "fault_free w" and "fst (load_all C dd w) = Inr cfgs" and "sc_id config \<in> sc_id ` set cfgs"
    and "from_hex hex = Inr target" and "fs_exists w (identity_path dd)"
    and "fst (identity_load_or_create (identity_path dd) w) = Inr sk"
    and "fst (auth_load C dd (sc_id config) w) = Inr (ta_auth s)"
  defines "D \<equiv> cmd_share_revoke_direct C dd (sc_id config) hex w" and "H \<equiv> handle_revoke C config dd sk target s w"
  shows "outcome (fst D) = outcome (fst (fst H)) \<and> w_nodes (snd D) = w_nodes (snd H)"
proof -
  let ?sid = "sc_id config" and ?gid = "group_id_for C (sc_id config)" and ?st = "ta_auth s"
  let ?direct = "(if auth_is_empty ?st then io_fail (Bail ''share has no auth state on disk'' [])
       else if \<not> is_member C ?st ?gid target then io_fail (Bail ''not a current member'' [])
       else
         (case remove_member C ?st sk ?gid target of
            (Inl e, _) \<Rightarrow> io_fail e
          | (Inr _, auth_state) \<Rightarrow>
              io_bind (auth_save C dd ?sid auth_state) (\<lambda>_.
              let remaining = remaining_members C auth_state ?gid target in
              io_bind (rotate_keyring dd ?sid) (\<lambda>new_epoch.
              io_bind (load_or_create_keyring dd ?sid) (\<lambda>ring.
              case key_for_epoch ring new_epoch of
                None \<Rightarrow> io_fail (Bail ''rotated keyring missing epoch'' [unat new_epoch])
              | Some new_key \<Rightarrow>
                  io_bind (build_signed_rotation C sk new_epoch new_key remaining) (\<lambda>rotation_msg.
                  io_bind (save_pending C dd ?sid rotation_msg) (\<lambda>_.
                  io_return [[hex, ?sid], [show_nat (unat new_epoch)], [show_nat (length remaining)]])))))))"
  obtain w1 where w1: "load_all C dd w = (Inr cfgs, w1)" using assms(2) by (metis prod.collapse)
  then have s1: "same_but_tick w w1" by (rule quietD [OF quiet_load_all])
  obtain v2 where v2: "identity_load_or_create (identity_path dd) w = (Inr sk, v2)" using assms(6) by (metis prod.collapse)
  from tick_blindD [OF tick_blind_identity assms(1) s1 v2] obtain w2 where
    w2: "identity_load_or_create (identity_path dd) w1 = (Inr sk, w2)" and "same_but_tick v2 w2" by blast
  with identity_quiet [OF assms(5) v2] have s2: "same_but_tick w w2" by (blast intro: same_trans)
  obtain v3 where v3: "auth_load C dd ?sid w = (Inr ?st, v3)" using assms(7) by (metis prod.collapse)
  from tick_blindD [OF tick_blind_auth_load assms(1) s2 v3] obtain w3 where
    w3: "auth_load C dd ?sid w2 = (Inr ?st, w3)" and "same_but_tick v3 w3" by blast
  with quietD [OF quiet_auth_load v3] have s3: "same_but_tick w w3" by (blast intro: same_trans)
  have "has_share cfgs ?sid" using assms(3) by (auto simp: has_share_def list_ex_iff)
  with w1 w2 w3 assms(4) have D: "D = ?direct w3"
    by (simp add: D_def cmd_share_revoke_direct_def Let_def del: io_fail_eq)
  have "agree ?direct (t_run (handle_revoke C config dd sk target) s)"
    unfolding t_run_revoke Let_def
    by (auto simp del: io_fail_eq io_return_eq split: prod.split sum.split
      intro!: agree_bind [OF tick_blind_auth_save] agree_bind [OF tick_blind_rotate] agree_load_twice
        agree_bind [OF tick_blind_build] agree_bind [OF tick_blind_save_pending])
  then have "outcome (fst (?direct w3)) = outcome (fst (t_run (handle_revoke C config dd sk target) s w)) \<and>
      same_but_tick (snd (?direct w3)) (snd (t_run (handle_revoke C config dd sk target) s w))"
    using same_fault_free [OF s3 assms(1)] same_sym [OF s3] unfolding agree_def by blast
  with D same_nodes show ?thesis
    by (auto simp: H_def t_run_def split: prod.splits)
qed

text \<open>
  A share whose owner has a key of 32 bytes, stored on disk with its log, its keys and the
  identity of the owner; the group library of the example accepts every operation.
\<close>

definition demo_group_crates :: "signed_op list ipc_crates" where
  "demo_group_crates = demo_ipc\<lparr>enc_log := (\<lambda>_. Some [1]), crdt_process := (\<lambda>ops op. Some (ops @ [op])),
     crdt_members := (\<lambda>_ _. [(MemberId (replicate 32 9), Manage), (MemberId (replicate 32 8), Write)])\<rparr>"

definition demo_disk :: world where
  "demo_disk = calm_world [([''d''], NDir), ([''d'', ''identity.key''], NFile 384 (replicate 32 9)),
     ([''d'', ''shares''], NDir), ([''d'', ''shares'', ''s''], NDir),
     ([''d'', ''shares'', ''s'', ''share.json''], NFile 420 [1]),
     ([''d'', ''shares'', ''s'', ''auth.log''], NFile 384 [1]),
     ([''d'', ''shares'', ''s'', ''keys.bin''], NFile 384 (replicate 32 7))]"

definition demo_hex :: string where
  "demo_hex = concat (replicate 32 ''08'')"

theorem direct_revoke_matches_daemon_witness:
  "let D = cmd_share_revoke_direct demo_group_crates [''d''] ''s'' demo_hex demo_disk;
       H = handle_revoke demo_group_crates demo_config [''d''] (replicate 32 9) (MemberId (replicate 32 8))
         (demo_task [demo_create]) demo_disk
   in outcome (fst (fst H)) = None \<and> outcome (fst D) = None \<and> w_nodes (snd D) = w_nodes (snd H)"
proof -
  let ?s = "demo_task [demo_create]"
  have "fst (load_all demo_group_crates [''d''] demo_disk) = Inr [demo_config]"
    "fst (identity_load_or_create (identity_path [''d'']) demo_disk) = Inr (replicate 32 9)"
    "fst (auth_load demo_group_crates [''d''] (sc_id demo_config) demo_disk) = Inr (ta_auth ?s)"
    "from_hex demo_hex = Inr (MemberId (replicate 32 8))" "fs_exists demo_disk (identity_path [''d''])"
    by code_simp+
  from direct_revoke_matches_daemon [OF _ this(1) _ this(4,5,2,3)]
  have m: "outcome (fst (cmd_share_revoke_direct demo_group_crates [''d''] ''s'' demo_hex demo_disk)) =
      outcome (fst (fst (handle_revoke demo_group_crates demo_config [''d''] (replicate 32 9) (MemberId (replicate 32 8)) ?s demo_disk))) \<and>
    w_nodes (snd (cmd_share_revoke_direct demo_group_crates [''d''] ''s'' demo_hex demo_disk)) =
      w_nodes (snd (handle_revoke demo_group_crates demo_config [''d''] (replicate 32 9) (MemberId (replicate 32 8)) ?s demo_disk))"
    by (simp add: demo_disk_def demo_config_def)
  have "outcome (fst (fst (handle_revoke demo_group_crates demo_config [''d''] (replicate 32 9)
      (MemberId (replicate 32 8)) ?s demo_disk))) = None" by code_simp
  with m show ?thesis by (simp add: Let_def)
qed

text \<open>
  C38. One daemon per data directory: a daemon that finds the lock taken ends with an error
  and has changed no file but, at most, the lock file.
\<close>

theorem second_daemon_refused:
  assumes "cmd_serve C dd port reg True addr dir w = (r, w')"
  shows "\<not> is_ok r \<and> (\<forall>q. q \<noteq> lock_path dd \<longrightarrow> fs_file w' q = fs_file w q)"
proof -
  have mk: "fs_file w2 = fs_file w1" if "fs_create_dir_all p w1 = (x, w2)" for p w1 x w2
    using fs_create_dir_all_files [of p w1] that by simp
  have op: "fs_file w2 q = fs_file w1 q" if "fs_open_create p w1 = (x, w2)" "q \<noteq> p" for p w1 x w2 q
    using that by (auto simp: fs_open_create_def syscall_def split: if_splits option.splits)
  have acq: "\<not> is_ok x \<and> (\<forall>q. q \<noteq> lock_path dd \<longrightarrow> fs_file w2 q = fs_file w1 q)"
    if "acquire True (lock_path dd) w1 = (x, w2)" for w1 x w2
    using that unfolding acquire_def
    by (elim io_bind_cases) (auto simp: lock_path_def dest!: mk dest: op)
  from assms show ?thesis
    unfolding cmd_serve_def
  proof (cases rule: io_bind_cases)
    case (err e)
    then show ?thesis using mk [OF err(1)] by simp
  next
    case (ok u w1)
    from ok(2) show ?thesis
    proof (cases rule: io_bind_cases)
      case (err e)
      then show ?thesis using acq [OF err(1)] mk [OF ok(1)] by simp
    next
      case (ok y w2)
      then show ?thesis using acq [OF ok(1)] by simp
    qed
  qed
qed

theorem second_daemon_refused_witness:
  "\<not> is_ok (fst (cmd_serve demo_serve [''d''] 80 True True False None demo_disk))"
  using second_daemon_refused [of demo_serve "[''d'']" 80 True False None demo_disk, OF surjective_pairing] by blast

text \<open>
  Listing shares panics on a topic longer than twenty bytes whose nineteenth byte is not the
  end of a character: here ten characters of two bytes and one more.
\<close>

lemma share_list_panics:
  "let C = demo_ipc\<lparr>dec_config := (\<lambda>_. Some (demo_config\<lparr>sc_topic := concat (replicate 11 [CHR 0xC3, CHR 0xA9])\<rparr>))\<rparr>
   in fst (cmd_share_list_direct C [''d''] demo_disk) = Inl Panic"
  by code_simp

section \<open>Paths over the bus\<close>

definition clean_name :: "string \<Rightarrow> bool" where
  "clean_name x \<longleftrightarrow> x \<noteq> '''' \<and> x \<noteq> ''.'' \<and> CHR ''/'' \<notin> set x"

lemma split_at_clean: "c \<notin> set x \<Longrightarrow> split_at c (x @ rest) acc = (case split_at c rest (rev x @ acc) of ys \<Rightarrow> ys)"
  by (induction x arbitrary: acc) auto

lemma path_components_display:
  assumes "list_all clean_name p"
  shows "path_components (display_path p) = p"
proof -
  have "filter (\<lambda>x. x \<noteq> '''' \<and> x \<noteq> ''.'') (split_at (CHR ''/'') (path_string p) '''') = p"
    using assms
  proof (induction p rule: path_string.induct)
    case (2 x)
    then show ?case using split_at_clean [of "CHR ''/''" x "''''" "''''"] by (simp add: clean_name_def)
  next
    case (3 x y ys)
    then show ?case using split_at_clean [of "CHR ''/''" x "CHR ''/'' # path_string (y # ys)" "''''"]
      by (simp add: clean_name_def)
  qed simp
  then show ?thesis by (simp add: path_components_def display_path_def)
qed



end
