(* ===== verification/Spec2Isabelle.thy ===== *)
theory Spec2Isabelle
  imports Prelude World Clock Layout Crypto Causal Auth Rotation Keydist Share Ticket
    Commands Content Shadow Endpoint Replica Sync Converge Deliver Runtime Ipc Daemon Tick Cli
begin

text \<open>
  Verification of \<^verbatim>\<open>rust-peerdup\<close>, a daemon that keeps folders ("shares") in sync between
  peers.  File names below are relative to \<^verbatim>\<open>src/\<close> of the repository; the Rust sources are
  in its own directory \<^verbatim>\<open>src/\<close>.

  \<^bold>\<open>The program.\<close>  A daemon has an identity (an Ed25519 key, \<^verbatim>\<open>identity.rs\<close>) and a data
  directory (\<^verbatim>\<open>data_dir.rs\<close>), guarded by a lock (\<^verbatim>\<open>lock.rs\<close>).  For every share it keeps a
  configuration (\<^verbatim>\<open>share.rs\<close>), a ring of content keys, one per epoch (\<^verbatim>\<open>crypto.rs\<close>), a log of
  signed membership operations (\<^verbatim>\<open>auth.rs\<close>), key rotations that are still to be told to
  others (\<^verbatim>\<open>rotation.rs\<close>) and the version it has (\<^verbatim>\<open>share_state.rs\<close>: a vector clock of
  \<^verbatim>\<open>clock.rs\<close>, a time stamp, a version hash and the list of files).  One task per share
  (\<^verbatim>\<open>daemon.rs\<close>) watches the folder, encrypts it into a shadow directory that a BitTorrent
  session serves, announces its version and its membership log by gossip, fetches and
  decrypts versions of others, and answers commands.  Commands come from the command line
  (\<^verbatim>\<open>main.rs\<close>), either through the bus (\<^verbatim>\<open>client.rs\<close>, \<^verbatim>\<open>ipc.rs\<close>) or directly on the files.

  \<^bold>\<open>The theories\<close>, in the order of their imports.
  \<^item> \<open>Prelude\<close>: Rust's integers as words, \<open>BTreeMap\<close> and \<open>BTreeSet\<close> as sorted lists, the error
    values \<open>err\<close> and \<open>result\<close>, strings as UTF-8 bytes, decimal and hexadecimal text, the
    collections \<open>world_simps\<close> and \<open>handler_defs\<close>.
  \<^item> \<open>World\<close>: the operating system.  A \<open>world\<close> has a file system (nodes by path), a stream of
    random bytes, a clock and a schedule of faults: any call may fail, and a write may stop in
    the middle.  A computation of the sources is an \<open>'a io\<close>.  The locale \<open>file_slot\<close> is the
    contract of a file that is replaced by a temporary file and a rename: whatever fails, its
    old content or the new one is there.
  \<^item> \<open>Clock\<close> (\<^verbatim>\<open>clock.rs\<close>): \<open>increment\<close>, \<open>merge\<close>, \<open>compare\<close>; the locale \<open>clock_algebra\<close> derives
    that merging is a least upper bound and that comparing decides the order.
  \<^item> \<open>Layout\<close> (\<^verbatim>\<open>data_dir.rs\<close>), \<open>Crypto\<close> (\<^verbatim>\<open>crypto.rs\<close>): the paths, the keyring and its file, the
    encryption of content.
  \<^item> \<open>Causal\<close>: the locale \<open>causal_delivery\<close>, a log that applies an operation after those it
    depends on; \<open>Auth\<close> (\<^verbatim>\<open>auth.rs\<close>) interprets it on \<open>AuthState\<close>: \<open>process\<close>, \<open>drain_pending\<close>,
    \<open>apply_remote\<close>, the authoring of operations, the stored log.
  \<^item> \<open>Rotation\<close> (\<^verbatim>\<open>rotation.rs\<close>): sealing, opening and storing rotations; \<open>Keydist\<close>
    (\<^verbatim>\<open>daemon.rs\<close>): installing them in the order of epochs, with a buffer for early ones.
  \<^item> \<open>Share\<close> (\<^verbatim>\<open>share.rs\<close>, \<^verbatim>\<open>share_state.rs\<close>, \<^verbatim>\<open>identity.rs\<close>, \<^verbatim>\<open>lock.rs\<close>), \<open>Ticket\<close> (\<^verbatim>\<open>ticket.rs\<close>).
  \<^item> \<open>Commands\<close> (\<^verbatim>\<open>daemon.rs\<close>): gossip messages, receipt of membership operations,
    \<open>handle_invite\<close>, \<open>handle_revoke\<close>, \<open>handle_rotate_key\<close> and the queries, as computations
    \<open>task_io\<close> on the state of a task.
  \<^item> \<open>Content\<close>, \<open>Shadow\<close>, \<open>Endpoint\<close> (\<^verbatim>\<open>daemon.rs\<close>): the walk over a folder, its version hash, the
    filters of the watcher; the shadow in both directions; the addresses of an announce.
  \<^item> \<open>Replica\<close>: what synchronising promises, as an edit log, and the locale \<open>replica_loop\<close> that
    proves the refinement from the laws of one replica; \<open>Sync\<close> (\<^verbatim>\<open>daemon.rs\<close>): the seed, leech
    and sync loops, interpreted in that locale; \<open>Converge\<close>: the properties of the network;
    \<open>Deliver\<close>: what one loop publishes, handled by the loop of another peer.
  \<^item> \<open>Runtime\<close> (\<^verbatim>\<open>daemon.rs\<close>): \<open>DaemonRuntime\<close>, spawning and running a task, sending it a command;
    \<open>Ipc\<close> (\<^verbatim>\<open>ipc.rs\<close>): every method of the bus object and their dispatch; \<open>Daemon\<close> (\<^verbatim>\<open>daemon.rs\<close>):
    start, supervision loop and the step relation \<open>daemon_step\<close> of the whole process, whose
    invariants are interpretations of the locale \<open>step_invariant\<close>, as is that of the edit log.
  \<^item> \<open>Tick\<close>: runs that differ in the position of the fault schedule only; \<open>Cli\<close> (\<^verbatim>\<open>main.rs\<close>,
    \<^verbatim>\<open>client.rs\<close>): every command by both routes.

  \<^bold>\<open>State and effects.\<close>  Each struct is a record with the fields of the source, each enum a
  datatype.  A function that touches the disk is an \<open>io\<close>, a handler of a share task a
  \<open>task_io\<close> over the record of the task, a bus method a \<open>task_io\<close> over the runtime.  Every \<open>?\<close>
  and \<open>bail!\<close> is a branch with an \<open>err\<close>; a panic is the error \<open>Panic\<close>.  One iteration of a
  \<open>select!\<close> loop is a function of the event it took, so a run is a sequence of events.
  Integers have their width; their arithmetic wraps around as in a release build.

  \<^bold>\<open>Code that is not in the repository\<close> is a field of one of the records \<open>crypto_crates\<close>,
  \<open>auth_crates\<close>, \<open>box_crates\<close>, \<open>share_crates\<close>, \<open>ticket_crates\<close>, \<open>daemon_crates\<close>, \<open>sync_crates\<close>,
  \<open>ipc_crates\<close> and \<open>serve_crates\<close>: the AEAD, Ed25519, the sealed boxes, BLAKE3, bincode, JSON,
  base64, the group CRDT of p2panda-auth, librqbit, the gossip, notify, zbus.  What is relied on
  is a named hypothesis: \<open>aead_ok\<close>, \<open>ed_ok\<close>, \<open>box_ok\<close> (opening what was sealed, verifying what was
  signed), \<open>codec_ok\<close>, \<open>op_codec_ok\<close>, \<open>rotation_codec_ok\<close>, \<open>json_ok\<close>, \<open>ticket_codec_ok\<close>,
  \<open>msg_codec_ok\<close> (decoding what was encoded), \<open>session_ok\<close> and \<open>serves\<close> (seeding leaves the files
  alone, fetching an info hash brings its files).  The witnesses instantiate them with concrete
  functions.

  \<^bold>\<open>What is shown.\<close>
  \<^item> Synchronisation: a network of sync loops refines the edit log; replicas with equal clocks
    show the same version if no time stamp is below what its author had seen; a version is
    applied exactly if the decrypted folder has the announced hash; a restart resumes; an
    announced edit arrives at a peer that is behind, with the same files.
  \<^item> Content: the walk terminates and reports each file once, the version hash identifies
    the content, shadow encryption and decryption are inverse.
  \<^item> Keys: no operation loses a stored key, whatever fails; rotations that arrive in any order
    install every epoch; a recipient opens its envelope; decryption fails with the error of
    its cause.
  \<^item> Membership: the log applied is the causally closed part of what was received, in every
    order of arrival; an authored operation is accepted; the stored log is read back.
  \<^item> Commands: revoking changes the key and tells the remaining members, who can read what is
    encrypted from then on while the revoked peer cannot; invitation and
    joining lead to membership with the same keys; both routes of revoke agree.
  \<^item> Process: one task per share in every reachable state, removal leaves nothing behind, one
    daemon per data directory.
  Some theorems state behaviour that falls short of the intent of the code, for example
  \<open>remote_deletion_rejected\<close>, \<open>rejected_op_empties_group\<close> and \<open>idle_exit_never_taken\<close>.

  \<^bold>\<open>Fuel.\<close>  Only the walk over a directory tree has fuel.  \<open>tree_fuel\<close> is more than the length
  of every path in the file system, and \<open>collect_fuel\<close> shows that the walk never runs out of
  it.  All other loops end by structural recursion or a measure (\<open>drain_pending\<close>,
  \<open>drain_rotation_buffer\<close>: the length of the buffer; the trimming of a ticket: the length of
  the text).

  \<^bold>\<open>Not modelled.\<close>  The scheduling of tokio and the cancellation of the losing branches of
  \<open>select!\<close>; the networking of p2panda and librqbit; building the zbus connection
  (\<open>register\<close>) and waiting for signals, whose effect is the turn \<open>Signal\<close>; log output,
  the words and columns of printed tables and the parsing of arguments by clap; the trait adaptors
  that hand fields to p2panda-auth; unit tests and packaging.  In the file system a
  symbolic link is never followed, modes are recorded and not checked, \<open>..\<close> is not resolved, and
  \<open>create_dir_all\<close> and \<open>remove_dir_all\<close> change nothing when they fail by the schedule of faults;
  a share id is one component of a path.
\<close>

end
